(* ===== verification/Prelude.thy ===== *)
theory Prelude
  imports Main "HOL-Library.Word" "HOL-Library.Sublist" "HOL-Library.Multiset"
begin

text \<open>
  What every component shares: the machine types of the code, the ways a C++ process
  can end abnormally (\<open>fault\<close>), the result type of an operation that may do so, the
  memory image of an integer (the four byte message header), and the reachable states of
  a transition system, used by the components that run concurrently.
\<close>

unbundle bit_operations_syntax

subsection \<open>Collections of facts\<close>

named_theorems res_simps \<open>evaluation of sequenced results\<close>
named_theorems chan_simps \<open>the effect of channel and epoll operations\<close>
named_theorems buf_simps \<open>the effect of buffer operations\<close>

subsection \<open>Machine types\<close>

type_synonym byte = "8 word"
type_synonym bytes = "byte list"
type_synonym u16 = "16 word"
type_synonym u32 = "32 word"
type_synonym u64 = "64 word"

text \<open>A string literal of the source as the bytes a \<^verbatim>\<open>std::string\<close> holds.\<close>

definition lit :: "string \<Rightarrow> bytes" where
  "lit s = map of_char s"

lemma length_lit [simp]: "length (lit s) = length s"
  by (simp add: lit_def)

text \<open>A number in decimal digits.\<close>

fun digits :: "nat \<Rightarrow> bytes" where
  "digits n = (if n < 10 then [of_nat (48 + n)] else digits (n div 10) @ [of_nat (48 + n mod 10)])"

declare digits.simps [simp del]

lemma digits_one [simp]: "n < 10 \<Longrightarrow> digits n = [of_nat (48 + n)]"
  by (simp add: digits.simps [of n])

subsection \<open>Faults and results\<close>

text \<open>
  Undefined behaviour is a value of the model, with the reason, so that a theorem can say
  that the code does or does not run into it. The other faults end the process in a defined
  way: \<^verbatim>\<open>exit(-1)\<close> or an exception that nothing catches.
\<close>

datatype ub =
    Signed_overflow        \<comment> \<open>an int result out of range\<close>
  | Out_of_bounds_read     \<comment> \<open>a read past the end of a memory region\<close>
  | Out_of_bounds_write    \<comment> \<open>a write past the end of a memory region\<close>
  | Null_dereference
  | Invalid_free           \<comment> \<open>free() of memory that malloc() did not return\<close>
  | Use_after_free
  | Iterator_past_end      \<comment> \<open>end() dereferenced or advanced\<close>
  | Index_out_of_range     \<comment> \<open>std::vector operator[] out of range\<close>
  | Division_by_zero

datatype fault =
    Exit_failure           \<comment> \<open>exit(-1)\<close>
  | Out_of_range           \<comment> \<open>std::out_of_range\<close>
  | Bad_function_call      \<comment> \<open>std::bad_function_call: an empty std::function is called\<close>
  | Bad_weak_ptr           \<comment> \<open>std::bad_weak_ptr: shared_from_this() without an owner\<close>
  | Self_deadlock          \<comment> \<open>a thread locks a std::mutex it holds\<close>
  | Undefined ub

type_synonym 'a res = "fault + 'a"

fun bind_res :: "'e + 'a \<Rightarrow> ('a \<Rightarrow> 'e + 'b) \<Rightarrow> 'e + 'b" where
  "bind_res (Inl e) f = Inl e"
| "bind_res (Inr a) f = f a"

lemma bind_res_eq_Inr [res_simps]: "bind_res r f = Inr b \<longleftrightarrow> (\<exists>a. r = Inr a \<and> f a = Inr b)"
  by (cases r) auto

lemma bind_res_eq_Inl [res_simps]:
  "bind_res r f = Inl e \<longleftrightarrow> r = Inl e \<or> (\<exists>a. r = Inr a \<and> f a = Inl e)"
  by (cases r) auto

lemma bind_res_assoc [res_simps]: "bind_res (bind_res r f) g = bind_res r (\<lambda>a. bind_res (f a) g)"
  by (cases r) auto

lemma bind_res_Inr [simp]: "bind_res r Inr = r"
  by (cases r) auto

lemma bind_res_cong [fundef_cong]:
  assumes "r = r'" and "\<And>a. r' = Inr a \<Longrightarrow> f a = g a"
  shows "bind_res r f = bind_res r' g"
  using assms by (cases r') auto

text \<open>The C conversion of an int to size\_t, on a machine with 64 bit size\_t.\<close>

definition size_t :: "int \<Rightarrow> nat" where
  "size_t x = nat (x mod 2 ^ 64)"

lemma size_t_nonneg [simp]: "0 \<le> x \<Longrightarrow> x < 2 ^ 64 \<Longrightarrow> size_t x = nat x"
  by (simp add: size_t_def)

lemma size_t_neg: "x < 0 \<Longrightarrow> - (2 ^ 64) \<le> x \<Longrightarrow> size_t x = nat (2 ^ 64 + x)"
proof -
  assume "x < 0" and "- (2 ^ 64) \<le> x"
  then have "x mod 2 ^ 64 = (2 ^ 64 + x) mod 2 ^ 64" by simp
  also have "\<dots> = 2 ^ 64 + x" using \<open>x < 0\<close> \<open>- (2 ^ 64) \<le> x\<close> by (intro mod_pos_pos_trivial) auto
  finally show ?thesis by (simp add: size_t_def)
qed

subsection \<open>Integers in memory\<close>

text \<open>
  The bytes of an integer in memory on a little endian machine: what
  \<^verbatim>\<open>(char*)&size\<close> points to and what \<^verbatim>\<open>memcpy(&len, p, 4)\<close> reads.
\<close>

definition le_bytes4 :: "'a::len word \<Rightarrow> bytes" where
  "le_bytes4 w = [ucast w, ucast (drop_bit 8 w), ucast (drop_bit 16 w), ucast (drop_bit 24 w)]"

definition of_le4 :: "byte \<Rightarrow> byte \<Rightarrow> byte \<Rightarrow> byte \<Rightarrow> u32" where
  "of_le4 b0 b1 b2 b3 =
     ucast b0 OR push_bit 8 (ucast b1) OR push_bit 16 (ucast b2) OR push_bit 24 (ucast b3)"

lemma length_le_bytes4 [simp]: "length (le_bytes4 w) = 4"
  by (simp add: le_bytes4_def)

lemma bit_of_le4:
  "bit (of_le4 b0 b1 b2 b3) n \<longleftrightarrow> n < 32 \<and>
     (if n < 8 then bit b0 n else if n < 16 then bit b1 (n - 8)
      else if n < 24 then bit b2 (n - 16) else bit b3 (n - 24))"
  by (auto simp: of_le4_def bit_or_iff bit_push_bit_iff bit_ucast_iff dest: bit_imp_le_length)

lemma of_le4_le_bytes4:
  fixes w :: "'a::len word"
  shows "of_le4 (le_bytes4 w ! 0) (le_bytes4 w ! 1) (le_bytes4 w ! 2) (le_bytes4 w ! 3) = ucast w"
  by (rule bit_word_eqI)
     (auto simp: le_bytes4_def bit_of_le4 bit_ucast_iff bit_drop_bit_eq numeral_2_eq_2
       numeral_3_eq_3 dest: bit_imp_le_length)

lemma of_le4_add:
  "of_le4 b0 b1 b2 b3 =
     (ucast b0 + (2 ^ 8 * ucast b1 + (2 ^ 16 * ucast b2 + 2 ^ 24 * ucast b3)) :: u32)"
proof -
  have push: "push_bit n (ucast b :: u32) = 2 ^ n * ucast b" for n and b :: byte
    by (simp add: push_bit_eq_mult mult.commute)
  have "of_le4 b0 b1 b2 b3 =
    ucast b0 OR (push_bit 8 (ucast b1) OR (push_bit 16 (ucast b2) OR push_bit 24 (ucast b3)))"
    by (simp add: of_le4_def or.assoc)
  also have "\<dots> = ucast b0 + (push_bit 8 (ucast b1) + (push_bit 16 (ucast b2) + push_bit 24 (ucast b3)))"
    by (subst disjunctive_add, fastforce simp: bit_or_iff bit_push_bit_iff bit_ucast_iff dest: bit_imp_le_length,
        subst disjunctive_add, fastforce simp: bit_or_iff bit_push_bit_iff bit_ucast_iff dest: bit_imp_le_length,
        subst disjunctive_add, fastforce simp: bit_or_iff bit_push_bit_iff bit_ucast_iff dest: bit_imp_le_length,
        rule refl)
  finally show ?thesis by (simp only: push)
qed

lemma unat_of_le4:
  "unat (of_le4 b0 b1 b2 b3) = unat b0 + 2 ^ 8 * unat b1 + 2 ^ 16 * unat b2 + 2 ^ 24 * unat b3"
proof -
  have less: "unat b < 256" for b :: byte
    using unsigned_less [of b] by simp
  have cast: "unat (ucast b :: u32) = unat b" for b :: byte
    using less_trans [OF less [of b], of "2 ^ 32"] by (simp add: unsigned_ucast_eq take_bit_nat_eq_self_iff)
  have "unat b0 + (256 * unat b1 + (65536 * unat b2 + 16777216 * unat b3)) < 4294967296"
    using less [of b0] less [of b1] less [of b2] less [of b3] by simp
  then show ?thesis
    by (simp add: of_le4_add unat_word_ariths cast add.assoc mod_simps)
qed

lemma sint_as_unat:
  "sint (w :: u32) = (if unat w < 2 ^ 31 then int (unat w) else int (unat w) - 2 ^ 32)"
proof -
  have minus: "(word_of_int (uint w - 2 ^ 32) :: u32) = w"
    by transfer (simp add: take_bit_eq_mod)
  have u: "int (unat w) = uint w" and less: "uint w < 2 ^ 32" and ge: "0 \<le> uint w"
    using unsigned_less [of w] by simp_all
  have "unat w < 2 ^ 31 \<longleftrightarrow> int (unat w) < int (2 ^ 31)"
    by (simp only: of_nat_less_iff)
  then have iff: "unat w < 2 ^ 31 \<longleftrightarrow> uint w < 2 ^ 31"
    by (simp only: u) simp
  show ?thesis
  proof (cases "uint w < 2 ^ 31")
    case True
    with ge have "signed_take_bit 31 (uint w) = uint w"
      by (intro signed_take_bit_int_eq_self) linarith+
    with True show ?thesis by (simp only: iff if_True u) (simp add: sint_uint)
  next
    case False
    with less have "signed_take_bit 31 (uint w - 2 ^ 32) = uint w - 2 ^ 32"
      by (intro signed_take_bit_int_eq_self) auto
    moreover have "sint w = signed_take_bit 31 (uint w - 2 ^ 32)"
      using sint_sbintrunc' [where 'a = 32, of "uint w - 2 ^ 32"] by (simp only: minus) simp
    ultimately show ?thesis using False by (simp only: iff if_False u)
  qed
qed

end
