(* ===== verification/Timestamp.thy ===== *)
theory Timestamp
  imports Prelude "HOL-Library.Product_Lexorder" "HOL-Library.List_Lexorder"
begin

text \<open>
  \<^verbatim>\<open>Timestamp.cpp\<close>: seconds since 1970 and their printed form. The conversion to local time
  (\<^verbatim>\<open>localtime\<close>) depends on the machine and is a parameter; it gives a null pointer where
  the year does not fit into an int.
\<close>

subsection \<open>The class\<close>

record timestamp =
  t_secsinceepoch :: int

definition Timestamp_default :: "int \<Rightarrow> timestamp" where
  "Timestamp_default now = \<lparr>t_secsinceepoch = now\<rparr>"

definition Timestamp_of :: "int \<Rightarrow> timestamp" where
  "Timestamp_of secsinceepoch = \<lparr>t_secsinceepoch = secsinceepoch\<rparr>"

definition Timestamp_now :: "int \<Rightarrow> timestamp" where
  "Timestamp_now now = Timestamp_default now"

definition Timestamp_toint :: "timestamp \<Rightarrow> int" where
  "Timestamp_toint t = t_secsinceepoch t"

subsection \<open>Printing\<close>

record tm =
  tm_year :: int
  tm_mon :: int
  tm_mday :: int
  tm_hour :: int
  tm_min :: int
  tm_sec :: int

text \<open>\<^verbatim>\<open>%4d\<close> and \<^verbatim>\<open>%02d\<close>: a sign, at least so many characters, blanks before it or zeros behind it.\<close>

definition sign :: "int \<Rightarrow> bytes" where
  "sign x = (if x < 0 then lit ''-'' else [])"

definition print_d4 :: "int \<Rightarrow> bytes" where
  "print_d4 x =
     (let s = sign x @ digits (nat \<bar>x\<bar>) in replicate (4 - length s) (of_char CHR '' '') @ s)"

definition print_d02 :: "int \<Rightarrow> bytes" where
  "print_d02 x =
     (let ds = digits (nat \<bar>x\<bar>) in sign x @ replicate (2 - length (sign x) - length ds) (of_char CHR ''0'') @ ds)"

definition int_add :: "int \<Rightarrow> int \<Rightarrow> int res" where
  "int_add x y = (if - (2 ^ 31) \<le> x + y \<and> x + y < 2 ^ 31 then Inr (x + y) else Inl (Undefined Signed_overflow))"

definition print_tm :: "int \<Rightarrow> int \<Rightarrow> tm \<Rightarrow> bytes" where
  "print_tm year mon t =
     print_d4 year @ lit ''-'' @ print_d02 mon @ lit ''-'' @ print_d02 (tm_mday t) @ lit '' '' @
     print_d02 (tm_hour t) @ lit '':'' @ print_d02 (tm_min t) @ lit '':'' @ print_d02 (tm_sec t)"

text \<open>\<^verbatim>\<open>snprintf(buf, 20, ...)\<close> stores at most 19 characters and a NUL.\<close>

definition Timestamp_tostring :: "(int \<Rightarrow> tm option) \<Rightarrow> timestamp \<Rightarrow> bytes res" where
  "Timestamp_tostring localtime t =
     (case localtime (t_secsinceepoch t) of
        None \<Rightarrow> Inl (Undefined Null_dereference)
      | Some tm_time \<Rightarrow>
          bind_res (int_add (tm_year tm_time) 1900) (\<lambda>year.
          bind_res (int_add (tm_mon tm_time) 1) (\<lambda>mon.
          Inr (take 19 (print_tm year mon tm_time)))))"

subsection \<open>\<^verbatim>\<open>timestamp.cpp\<close>\<close>

text \<open>
  An older copy of the class, without the test of \<^verbatim>\<open>this\<close> in \<^verbatim>\<open>toint\<close>, and a program that prints three
  times: \<open>t1\<close>, \<open>t2\<close> and \<open>t3\<close> are what \<^verbatim>\<open>time(0)\<close> returns.
\<close>

definition old_default :: "int \<Rightarrow> timestamp" where
  "old_default now = \<lparr>t_secsinceepoch = now\<rparr>"

definition old_of :: "int \<Rightarrow> timestamp" where
  "old_of secsinceepoch = \<lparr>t_secsinceepoch = secsinceepoch\<rparr>"

definition old_now :: "int \<Rightarrow> timestamp" where
  "old_now now = old_default now"

definition old_toint :: "timestamp \<Rightarrow> int" where
  "old_toint t = t_secsinceepoch t"

definition old_tostring :: "(int \<Rightarrow> tm option) \<Rightarrow> timestamp \<Rightarrow> bytes res" where
  "old_tostring localtime t =
     (case localtime (t_secsinceepoch t) of
        None \<Rightarrow> Inl (Undefined Null_dereference)
      | Some tm_time \<Rightarrow>
          bind_res (int_add (tm_year tm_time) 1900) (\<lambda>year.
          bind_res (int_add (tm_mon tm_time) 1) (\<lambda>mon.
          Inr (take 19 (print_tm year mon tm_time)))))"

text \<open>Both files implement the same class.\<close>

lemma old_timestamp_same:
  "old_default = Timestamp_default" "old_of = Timestamp_of" "old_now = Timestamp_now"
  "old_toint = Timestamp_toint" "old_tostring = Timestamp_tostring"
  by (simp_all add: fun_eq_iff old_default_def Timestamp_default_def old_of_def Timestamp_of_def old_now_def
      Timestamp_now_def old_toint_def Timestamp_toint_def old_tostring_def Timestamp_tostring_def)

definition print_int :: "int \<Rightarrow> bytes" where
  "print_int x = sign x @ digits (nat \<bar>x\<bar>)"

definition timestamp_main :: "(int \<Rightarrow> tm option) \<Rightarrow> int \<Rightarrow> int \<Rightarrow> int \<Rightarrow> bytes list res" where
  "timestamp_main localtime t1 t2 t3 =
     (let ts = old_default t1 in
      bind_res (old_tostring localtime ts) (\<lambda>first.
      bind_res (old_tostring localtime (old_now t3)) (\<lambda>last.
      Inr [print_int (old_toint ts), first, print_int (old_toint (old_now t2)), last])))"

subsection \<open>The order of times\<close>

text \<open>Broken-down times are ordered by year, month, day, hour, minute and second.\<close>

instantiation tm_ext :: (linorder) linorder
begin

definition less_eq_tm_ext :: "'a tm_ext \<Rightarrow> 'a tm_ext \<Rightarrow> bool" where
  "less_eq_tm_ext m m' \<longleftrightarrow>
     (tm_year m, tm_mon m, tm_mday m, tm_hour m, tm_min m, tm_sec m, tm.more m) \<le>
     (tm_year m', tm_mon m', tm_mday m', tm_hour m', tm_min m', tm_sec m', tm.more m')"

definition less_tm_ext :: "'a tm_ext \<Rightarrow> 'a tm_ext \<Rightarrow> bool" where
  "less_tm_ext m m' \<longleftrightarrow>
     (tm_year m, tm_mon m, tm_mday m, tm_hour m, tm_min m, tm_sec m, tm.more m) <
     (tm_year m', tm_mon m', tm_mday m', tm_hour m', tm_min m', tm_sec m', tm.more m')"

instance
proof
  fix x y z :: "'a tm_ext"
  show "x < y \<longleftrightarrow> x \<le> y \<and> \<not> y \<le> x" by (simp only: less_tm_ext_def less_eq_tm_ext_def less_le_not_le)
  show "x \<le> x" by (simp only: less_eq_tm_ext_def order.refl)
  show "x \<le> z" if "x \<le> y" "y \<le> z" using that unfolding less_eq_tm_ext_def by (rule order.trans)
  show "x = y" if "x \<le> y" "y \<le> x"
    using order.antisym [OF that [unfolded less_eq_tm_ext_def]] by (intro tm.equality) simp_all
  show "x \<le> y \<or> y \<le> x" unfolding less_eq_tm_ext_def by (rule linear)
qed

end

subsection \<open>Decimal numbers of a fixed width\<close>

text \<open>Texts of the same width are compared one after the other.\<close>

lemma append_le_append:
  fixes xs ys :: "byte list"
  assumes "length xs = length ys"
  shows "xs @ xs' \<le> ys @ ys' \<longleftrightarrow> xs < ys \<or> xs = ys \<and> xs' \<le> ys'"
  using assms by (induction xs ys rule: list_induct2) auto

definition digit :: "int \<Rightarrow> byte" where
  "digit x = of_nat (48 + nat x)"

lemma digit_less:
  assumes "0 \<le> x" "x < 10" "0 \<le> y" "y < 10"
  shows "digit x < digit y \<longleftrightarrow> x < y" and "digit x = digit y \<longleftrightarrow> x = y"
proof -
  have unat: "unat (digit x) = 48 + nat x" if "0 \<le> x" "x < 10" for x
    using that by (simp add: digit_def unsigned_of_nat take_bit_nat_eq_self_iff del: of_nat_add)
  show "digit x < digit y \<longleftrightarrow> x < y" using assms by (auto simp: word_less_nat_alt unat)
  show "digit x = digit y \<longleftrightarrow> x = y" using assms unat by (metis add_left_cancel eq_nat_nat_iff)
qed

lemma print_d02_digits:
  assumes "0 \<le> x" and "x < 100"
  shows "print_d02 x = [digit (x div 10), digit (x mod 10)]"
proof (cases "x < 10")
  case True
  then have "nat x < 10" by simp
  with True assms show ?thesis
    by (simp add: print_d02_def sign_def digits.simps digit_def Let_def numeral_2_eq_2)
next
  case False
  then have "\<not> nat x < 10" "nat x div 10 < 10" using assms by linarith+
  then have "digits (nat x) = [digit (x div 10), digit (x mod 10)]"
    using assms by (simp add: digits.simps [of "nat x"] digits.simps [of "nat x div 10"] digit_def
        nat_div_distrib nat_mod_distrib)
  with assms show ?thesis by (simp add: print_d02_def sign_def Let_def)
qed

lemma print_d4_digits:
  assumes "1000 \<le> x" and "x < 10000"
  shows "print_d4 x = [digit (x div 1000), digit (x div 100 mod 10), digit (x div 10 mod 10), digit (x mod 10)]"
proof -
  have n: "\<not> nat x < 10" "\<not> nat x div 10 < 10" "\<not> nat x div 100 < 10" "nat x div 1000 < 10"
    using assms by linarith+
  have "digits (nat x) = [digit (x div 1000), digit (x div 100 mod 10), digit (x div 10 mod 10), digit (x mod 10)]"
    using assms n
    by (simp add: digits.simps [of "nat x"] digits.simps [of "nat x div 10"] digits.simps [of "nat x div 100"]
        digits.simps [of "nat x div 1000"] digit_def nat_div_distrib nat_mod_distrib div_mult2_eq flip: div_mult2_eq)
  with assms show ?thesis by (simp add: print_d4_def sign_def Let_def)
qed

subsection \<open>Properties\<close>

text \<open>A broken-down time of the years 1000 to 9999 (a second may be a leap second).\<close>

definition tm_ok :: "tm \<Rightarrow> bool" where
  "tm_ok t \<longleftrightarrow> 1000 \<le> tm_year t + 1900 \<and> tm_year t + 1900 < 10000 \<and> 0 \<le> tm_mon t \<and> tm_mon t < 12 \<and>
     1 \<le> tm_mday t \<and> tm_mday t \<le> 31 \<and> 0 \<le> tm_hour t \<and> tm_hour t < 24 \<and>
     0 \<le> tm_min t \<and> tm_min t < 60 \<and> 0 \<le> tm_sec t \<and> tm_sec t \<le> 60"

lemma div_mod_less:
  fixes x y :: int
  shows "x < y \<longleftrightarrow> x div 10 < y div 10 \<or> x div 10 = y div 10 \<and> x mod 10 < y mod 10"
    and "x = y \<longleftrightarrow> x div 10 = y div 10 \<and> x mod 10 = y mod 10"
proof -
  have split: "z = 10 * (z div 10) + z mod 10" "0 \<le> z mod 10" "z mod 10 < 10" for z :: int by simp_all
  note split = split [of x] split [of y]
  show "x < y \<longleftrightarrow> x div 10 < y div 10 \<or> x div 10 = y div 10 \<and> x mod 10 < y mod 10"
    by (rule linorder_cases [of "x div 10" "y div 10"]) (use split in linarith)+
  show "x = y \<longleftrightarrow> x div 10 = y div 10 \<and> x mod 10 = y mod 10" using split by metis
qed

lemma print_d02_less:
  assumes "0 \<le> x" "x < 100" "0 \<le> y" "y < 100"
  shows "print_d02 x < print_d02 y \<longleftrightarrow> x < y"
  using assms div_mod_less(1) [of x y] by (simp add: print_d02_digits digit_less)

lemma print_d4_less:
  assumes "1000 \<le> x" "x < 10000" "1000 \<le> y" "y < 10000"
  shows "print_d4 x < print_d4 y \<longleftrightarrow> x < y"
proof -
  have div: "z div 10 div 10 = z div 100" "z div 100 div 10 = z div 1000" for z :: int
    by (simp_all flip: zdiv_zmult2_eq)
  have "print_d4 x < print_d4 y \<longleftrightarrow> x div 1000 < y div 1000 \<or> x div 1000 = y div 1000 \<and>
      (x div 100 mod 10 < y div 100 mod 10 \<or> x div 100 mod 10 = y div 100 mod 10 \<and>
        (x div 10 mod 10 < y div 10 mod 10 \<or> x div 10 mod 10 = y div 10 mod 10 \<and> x mod 10 < y mod 10))"
    using assms by (simp add: print_d4_digits digit_less)
  moreover note div_mod_less(1) [of x y] div_mod_less [of "x div 10" "y div 10", unfolded div]
    div_mod_less [of "x div 100" "y div 100", unfolded div]
  ultimately show ?thesis by argo
qed

lemma print_inject:
  "0 \<le> x \<Longrightarrow> x < 100 \<Longrightarrow> 0 \<le> y \<Longrightarrow> y < 100 \<Longrightarrow> print_d02 x = print_d02 y \<longleftrightarrow> x = y"
  "1000 \<le> x' \<Longrightarrow> x' < 10000 \<Longrightarrow> 1000 \<le> y' \<Longrightarrow> y' < 10000 \<Longrightarrow> print_d4 x' = print_d4 y' \<longleftrightarrow> x' = y'"
  using print_d02_less [of x y] print_d02_less [of y x] print_d4_less [of x' y'] print_d4_less [of y' x']
  by (metis linorder_neq_iff)+

lemma length_print_d02: "0 \<le> x \<Longrightarrow> x < 100 \<Longrightarrow> length (print_d02 x) = 2"
  by (simp add: print_d02_digits)

lemma length_print_d4: "1000 \<le> x \<Longrightarrow> x < 10000 \<Longrightarrow> length (print_d4 x) = 4"
  by (simp add: print_d4_digits)

lemma tostring_ok:
  assumes "localtime (t_secsinceepoch t) = Some m" and "tm_ok m"
  shows "Timestamp_tostring localtime t = Inr (print_tm (tm_year m + 1900) (tm_mon m + 1) m)"
    and "length (print_tm (tm_year m + 1900) (tm_mon m + 1) m) = 19"
proof -
  show "length (print_tm (tm_year m + 1900) (tm_mon m + 1) m) = 19"
    using assms(2) by (simp add: print_tm_def tm_ok_def length_print_d02 length_print_d4)
  with assms show "Timestamp_tostring localtime t = Inr (print_tm (tm_year m + 1900) (tm_mon m + 1) m)"
    by (simp add: Timestamp_tostring_def int_add_def tm_ok_def)
qed

lemma print_d02_le:
  "0 \<le> x \<Longrightarrow> x < 100 \<Longrightarrow> 0 \<le> y \<Longrightarrow> y < 100 \<Longrightarrow> print_d02 x \<le> print_d02 y \<longleftrightarrow> x < y \<or> x = y"
  using print_d02_less [of y x] by (auto simp flip: linorder_not_less)

lemma pair_le: "(a :: int, b) \<le> (c, d) \<longleftrightarrow> a < c \<or> a = c \<and> b \<le> d"
  by (auto simp: less_eq_prod_simp)

lemma print_tm_le:
  assumes "tm_ok m" and "tm_ok m'"
  shows "print_tm (tm_year m + 1900) (tm_mon m + 1) m \<le> print_tm (tm_year m' + 1900) (tm_mon m' + 1) m' \<longleftrightarrow> m \<le> m'"
  using assms
  by (simp add: print_tm_def tm_ok_def append_le_append length_print_d02 length_print_d4 print_inject
      print_d02_less print_d4_less print_d02_le less_eq_tm_ext_def pair_le add1_zle_eq del: less_eq_prod_simp)

text \<open>Two times that are printed alike have the same year, month, day, hour, minute and second.\<close>

lemma tostring_determines_time:
  assumes "localtime (t_secsinceepoch t) = Some m" and "tm_ok m"
    and "localtime (t_secsinceepoch t') = Some m'" and "tm_ok m'"
    and "Timestamp_tostring localtime t = Inr s" and "Timestamp_tostring localtime t' = Inr s"
  shows "length s = 19 \<and> m = m'"
proof -
  have s: "s = print_tm (tm_year m + 1900) (tm_mon m + 1) m" "s = print_tm (tm_year m' + 1900) (tm_mon m' + 1) m'"
    using tostring_ok(1) [of localtime t m] tostring_ok(1) [of localtime t' m'] assms by simp_all
  then have "m \<le> m'" "m' \<le> m" using print_tm_le [OF assms(2,4)] print_tm_le [OF assms(4,2)] by simp_all
  then show ?thesis using tostring_ok(2) [of localtime t m] assms(1,2) s(1) by simp
qed

text \<open>
  C40. The printed form of a time in the years 1000 to 9999 is complete and sorts as time does: it has exactly the 19
  characters of yyyy-mm-dd hh:mm:ss, all of which fit into the buffer; the texts of two times, compared
  character by character, are ordered as the times are by year, month, day, hour, minute and second, and times that are
  printed alike are equal.
\<close>

theorem tostring_orders_times:
  assumes "localtime (t_secsinceepoch t) = Some m" and "tm_ok m"
    and "localtime (t_secsinceepoch t') = Some m'" and "tm_ok m'"
    and "Timestamp_tostring localtime t = Inr s" and "Timestamp_tostring localtime t' = Inr s'"
  shows "length s = 19 \<and> (s \<le> s' \<longleftrightarrow> m \<le> m') \<and> (s = s' \<longleftrightarrow> m = m')"
proof -
  have s: "s = print_tm (tm_year m + 1900) (tm_mon m + 1) m" "s' = print_tm (tm_year m' + 1900) (tm_mon m' + 1) m'"
    using tostring_ok(1) [of localtime t m] tostring_ok(1) [of localtime t' m'] assms by simp_all
  have "s \<le> s' \<longleftrightarrow> m \<le> m'" "s' \<le> s \<longleftrightarrow> m' \<le> m"
    using print_tm_le assms(2,4) s by simp_all
  then show ?thesis
    using tostring_ok(2) [of localtime t m] assms(1,2) s(1) by (metis order.antisym order.refl)
qed

lemma tostring_orders_times_witness:
  "let m = \<lparr>tm_year = 124, tm_mon = 1, tm_mday = 29, tm_hour = 23, tm_min = 5, tm_sec = 9\<rparr>;
     m' = \<lparr>tm_year = 124, tm_mon = 1, tm_mday = 29, tm_hour = 23, tm_min = 5, tm_sec = 10\<rparr>;
     localtime = (\<lambda>t. Some (if t = 1709247909 then m else m')) in
   \<exists>s s'. Timestamp_tostring localtime (Timestamp_of 1709247909) = Inr s \<and>
     Timestamp_tostring localtime (Timestamp_of 1709247910) = Inr s' \<and> length s = 19 \<and> s < s'"
proof -
  define m m' :: tm where "m = \<lparr>tm_year = 124, tm_mon = 1, tm_mday = 29, tm_hour = 23, tm_min = 5, tm_sec = 9\<rparr>"
    and "m' = \<lparr>tm_year = 124, tm_mon = 1, tm_mday = 29, tm_hour = 23, tm_min = 5, tm_sec = 10\<rparr>"
  define lt where "lt = (\<lambda>t :: int. Some (if t = 1709247909 then m else m'))"
  have ok: "tm_ok m" "tm_ok m'" and less: "m \<le> m'" "m \<noteq> m'"
    by (simp_all add: m_def m'_def tm_ok_def less_eq_tm_ext_def)
  have at: "lt (t_secsinceepoch (Timestamp_of 1709247909)) = Some m" "lt (t_secsinceepoch (Timestamp_of 1709247910)) = Some m'"
    by (simp_all add: lt_def Timestamp_of_def)
  note print = tostring_ok(1) [of lt _ m, OF at(1) ok(1)] tostring_ok(1) [of lt _ m', OF at(2) ok(2)]
  from tostring_orders_times [of lt _ m _ m', OF at(1) ok(1) at(2) ok(2) print] less print show ?thesis
    unfolding Let_def m_def [symmetric] m'_def [symmetric] lt_def [symmetric] by (metis order.not_eq_order_implies_strict)
qed

end
