(* ===== verification/Epoll.thy ===== *)
theory Epoll
  imports Prelude
begin

text \<open>
  The data of \<^verbatim>\<open>Channel\<close> and the class \<^verbatim>\<open>Epoll\<close> (\<^verbatim>\<open>Channel.h\<close>, \<^verbatim>\<open>Epoll.h\<close>,
  \<^verbatim>\<open>Epoll.cpp\<close>): which events of which file descriptor the kernel watches, and the
  channel objects it reports. The system call \<^verbatim>\<open>epoll_ctl\<close> is a parameter; what the code
  relies on is the locale \<open>epoll_kernel\<close>, after the manual page epoll\_ctl(2).
\<close>

subsection \<open>Channels\<close>

abbreviation (input) EPOLLIN :: u32 where "EPOLLIN \<equiv> 0x1"
abbreviation (input) EPOLLPRI :: u32 where "EPOLLPRI \<equiv> 0x2"
abbreviation (input) EPOLLOUT :: u32 where "EPOLLOUT \<equiv> 0x4"
abbreviation (input) EPOLLERR :: u32 where "EPOLLERR \<equiv> 0x8"
abbreviation (input) EPOLLHUP :: u32 where "EPOLLHUP \<equiv> 0x10"
abbreviation (input) EPOLLRDHUP :: u32 where "EPOLLRDHUP \<equiv> 0x2000"
abbreviation (input) EPOLLET :: u32 where "EPOLLET \<equiv> 0x80000000"

text \<open>
  A pointer to a channel names the object the channel is a member of: the acceptor, the
  eventfd or timer channel of the event loop with the given number, or the connection with
  the given number. The callbacks are the member functions the code binds.
\<close>

datatype chan_ptr =
    Accept_channel
  | Wake_channel nat
  | Timer_channel nat
  | Client_channel nat

datatype callback =
    Cb_acceptor_newconnection
  | Cb_handlewakeup
  | Cb_handletimer
  | Cb_connection_onmessage
  | Cb_connection_close
  | Cb_connection_error
  | Cb_connection_write

record channel =
  ch_this :: chan_ptr
  ch_loop :: "nat option"
  ch_fd :: int
  ch_inepoll :: bool
  ch_events :: u32
  ch_revents :: u32
  ch_readcallback :: "callback option"
  ch_closecallback :: "callback option"
  ch_errorcallback :: "callback option"
  ch_writecallback :: "callback option"

definition Channel_new :: "chan_ptr \<Rightarrow> nat option \<Rightarrow> int \<Rightarrow> channel" where
  "Channel_new this loop fd =
     \<lparr>ch_this = this, ch_loop = loop, ch_fd = fd, ch_inepoll = False, ch_events = 0, ch_revents = 0,
      ch_readcallback = None, ch_closecallback = None, ch_errorcallback = None,
      ch_writecallback = None\<rparr>"

text \<open>The members as the code reads them.\<close>

definition Channel_fd :: "channel \<Rightarrow> int" where
  [simp]: "Channel_fd ch = ch_fd ch"

definition Channel_inepoll :: "channel \<Rightarrow> bool" where
  [simp]: "Channel_inepoll ch = ch_inepoll ch"

definition Channel_getevents :: "channel \<Rightarrow> u32" where
  [simp]: "Channel_getevents ch = ch_events ch"

definition Channel_getrevents :: "channel \<Rightarrow> u32" where
  [simp]: "Channel_getrevents ch = ch_revents ch"

definition Channel_setinepoll :: "channel \<Rightarrow> channel" where
  "Channel_setinepoll ch = ch\<lparr>ch_inepoll := True\<rparr>"

definition Channel_setrevents :: "u32 \<Rightarrow> channel \<Rightarrow> channel" where
  "Channel_setrevents ev ch = ch\<lparr>ch_revents := ev\<rparr>"

subsection \<open>The kernel's side\<close>

datatype ctl_op = EPOLL_CTL_ADD | EPOLL_CTL_MOD | EPOLL_CTL_DEL

text \<open>The interest list of an epoll instance, and the system call that changes it.\<close>

type_synonym interest = "int \<rightharpoonup> u32 \<times> chan_ptr"
type_synonym epoll_ctl = "ctl_op \<Rightarrow> int \<Rightarrow> (u32 \<times> chan_ptr) option \<Rightarrow> interest \<Rightarrow> int \<times> interest"

record epoll =
  ep_fd :: int
  ep_interest :: interest

definition Epoll_new :: "int \<Rightarrow> epoll res" where
  "Epoll_new rc = (if rc = - 1 then Inl Exit_failure else Inr \<lparr>ep_fd = rc, ep_interest = Map.empty\<rparr>)"

definition Epoll_updatechannel :: "epoll_ctl \<Rightarrow> channel \<Rightarrow> epoll \<Rightarrow> (channel \<times> epoll) res" where
  "Epoll_updatechannel ctl ch ep =
     (let ev = (Channel_getevents ch, ch_this ch) in
      if Channel_inepoll ch then
        (let (rc, il) = ctl EPOLL_CTL_MOD (Channel_fd ch) (Some ev) (ep_interest ep) in
         if rc = - 1 then Inl Exit_failure else Inr (ch, ep\<lparr>ep_interest := il\<rparr>))
      else
        (let (rc, il) = ctl EPOLL_CTL_ADD (Channel_fd ch) (Some ev) (ep_interest ep) in
         if rc = - 1 then Inl Exit_failure
         else Inr (Channel_setinepoll ch, ep\<lparr>ep_interest := il\<rparr>)))"

definition Epoll_removechannel :: "epoll_ctl \<Rightarrow> channel \<Rightarrow> epoll \<Rightarrow> epoll res" where
  "Epoll_removechannel ctl ch ep =
     (if Channel_inepoll ch then
        (let (rc, il) = ctl EPOLL_CTL_DEL (Channel_fd ch) None (ep_interest ep) in
         if rc = - 1 then Inl Exit_failure else Inr (ep\<lparr>ep_interest := il\<rparr>))
      else Inr ep)"

text \<open>
  \<^verbatim>\<open>Epoll::loop\<close>: the events \<^verbatim>\<open>epoll_wait\<close> reports are an input. The code dereferences the
  pointer of each event to store the events in the channel; \<open>deref\<close> and \<open>put\<close> read and write
  the channel objects of the state \<open>'w\<close>.
\<close>

datatype wait_result = Wait_failed | Wait_events "(u32 \<times> chan_ptr) list"

fun Epoll_collect ::
  "(chan_ptr \<Rightarrow> 'w \<Rightarrow> channel option) \<Rightarrow> (chan_ptr \<Rightarrow> channel \<Rightarrow> 'w \<Rightarrow> 'w) \<Rightarrow>
   (u32 \<times> chan_ptr) list \<Rightarrow> 'w \<Rightarrow> (chan_ptr list \<times> 'w) res" where
  "Epoll_collect deref put [] w = Inr ([], w)"
| "Epoll_collect deref put ((ev, p) # evs) w =
     (case deref p w of
        None \<Rightarrow> Inl (Undefined Use_after_free)
      | Some ch \<Rightarrow>
          bind_res (Epoll_collect deref put evs (put p (Channel_setrevents ev ch) w)) (\<lambda>(ps, w').
          Inr (p # ps, w')))"

definition Epoll_loop ::
  "(chan_ptr \<Rightarrow> 'w \<Rightarrow> channel option) \<Rightarrow> (chan_ptr \<Rightarrow> channel \<Rightarrow> 'w \<Rightarrow> 'w) \<Rightarrow>
   wait_result \<Rightarrow> 'w \<Rightarrow> (chan_ptr list \<times> 'w) res" where
  "Epoll_loop deref put r w =
     (case r of
        Wait_failed \<Rightarrow> Inl Exit_failure
      | Wait_events evs \<Rightarrow> (if evs = [] then Inr ([], w) else Epoll_collect deref put evs w))"

subsection \<open>What the code relies on\<close>

text \<open>
  A call that fails changes nothing; \<^verbatim>\<open>ADD\<close> fails on a descriptor that is registered
  (\<^verbatim>\<open>EEXIST\<close>), \<^verbatim>\<open>MOD\<close> and \<^verbatim>\<open>DEL\<close> on one that is not (\<^verbatim>\<open>ENOENT\<close>). Calls may fail for other
  reasons too (\<^verbatim>\<open>ENOMEM\<close>); \<open>epoll_reliable\<close> excludes that.
\<close>

locale epoll_kernel =
  fixes ctl :: epoll_ctl
  assumes add_effect: "fst (ctl EPOLL_CTL_ADD fd (Some ev) il) \<noteq> - 1 \<Longrightarrow>
      il fd = None \<and> snd (ctl EPOLL_CTL_ADD fd (Some ev) il) = il(fd \<mapsto> ev)"
    and mod_effect: "fst (ctl EPOLL_CTL_MOD fd (Some ev) il) \<noteq> - 1 \<Longrightarrow>
      il fd \<noteq> None \<and> snd (ctl EPOLL_CTL_MOD fd (Some ev) il) = il(fd \<mapsto> ev)"
    and del_effect: "fst (ctl EPOLL_CTL_DEL fd e il) \<noteq> - 1 \<Longrightarrow>
      il fd \<noteq> None \<and> snd (ctl EPOLL_CTL_DEL fd e il) = il(fd := None)"
begin

lemma update_effect:
  assumes "Epoll_updatechannel ctl ch ep = Inr (ch', ep')"
  shows "ch' = ch\<lparr>ch_inepoll := True\<rparr> \<and>
    ep' = ep\<lparr>ep_interest := (ep_interest ep)(ch_fd ch \<mapsto> (ch_events ch, ch_this ch))\<rparr>"
proof (cases "ch_inepoll ch")
  case True
  with assms show ?thesis
    using mod_effect [of "ch_fd ch" "(ch_events ch, ch_this ch)" "ep_interest ep"]
    by (auto simp: Epoll_updatechannel_def split: prod.splits if_splits)
next
  case False
  with assms show ?thesis
    using add_effect [of "ch_fd ch" "(ch_events ch, ch_this ch)" "ep_interest ep"]
    by (auto simp: Epoll_updatechannel_def Channel_setinepoll_def split: prod.splits if_splits)
qed

text \<open>A channel that believes it is registered and is not: the update ends the process.\<close>

lemma update_stale:
  assumes "ch_inepoll ch" and "ep_interest ep (ch_fd ch) = None"
  shows "Epoll_updatechannel ctl ch ep = Inl Exit_failure"
  using assms mod_effect [of "ch_fd ch" "(ch_events ch, ch_this ch)" "ep_interest ep"]
  by (auto simp: Epoll_updatechannel_def split: prod.splits)

lemma remove_effect:
  assumes "Epoll_removechannel ctl ch ep = Inr ep'"
  shows "ep' = (if ch_inepoll ch then ep\<lparr>ep_interest := (ep_interest ep)(ch_fd ch := None)\<rparr> else ep)"
  using assms del_effect [of "ch_fd ch" None "ep_interest ep"]
  by (auto simp: Epoll_removechannel_def split: prod.splits if_splits)

end

locale epoll_reliable = epoll_kernel +
  assumes add_succeeds: "il fd = None \<Longrightarrow> fst (ctl EPOLL_CTL_ADD fd (Some ev) il) \<noteq> - 1"
    and mod_succeeds: "il fd \<noteq> None \<Longrightarrow> fst (ctl EPOLL_CTL_MOD fd (Some ev) il) \<noteq> - 1"
    and del_succeeds: "il fd \<noteq> None \<Longrightarrow> fst (ctl EPOLL_CTL_DEL fd e il) \<noteq> - 1"
begin

lemma update_succeeds:
  assumes "ch_inepoll ch \<longleftrightarrow> ep_interest ep (ch_fd ch) \<noteq> None"
  shows "Epoll_updatechannel ctl ch ep =
    Inr (ch\<lparr>ch_inepoll := True\<rparr>,
      ep\<lparr>ep_interest := (ep_interest ep)(ch_fd ch \<mapsto> (ch_events ch, ch_this ch))\<rparr>)"
proof -
  have "\<exists>p. Epoll_updatechannel ctl ch ep = Inr p"
  proof (cases "ch_inepoll ch")
    case True
    with assms mod_succeeds [of "ep_interest ep" "ch_fd ch" "(ch_events ch, ch_this ch)"]
    show ?thesis by (auto simp: Epoll_updatechannel_def split: prod.splits)
  next
    case False
    with assms have "ep_interest ep (ch_fd ch) = None" by blast
    with False add_succeeds [of "ep_interest ep" "ch_fd ch" "(ch_events ch, ch_this ch)"]
    show ?thesis by (auto simp: Epoll_updatechannel_def split: prod.splits)
  qed
  then obtain ch' ep' where "Epoll_updatechannel ctl ch ep = Inr (ch', ep')" by auto
  with update_effect [OF this] show ?thesis by simp
qed

lemma remove_succeeds:
  assumes "ch_inepoll ch" and "ep_interest ep (ch_fd ch) \<noteq> None"
  shows "Epoll_removechannel ctl ch ep = Inr (ep\<lparr>ep_interest := (ep_interest ep)(ch_fd ch := None)\<rparr>)"
  using assms del_succeeds [of "ep_interest ep" "ch_fd ch" None]
    del_effect [of "ch_fd ch" None "ep_interest ep"]
  by (auto simp: Epoll_removechannel_def split: prod.splits)

end

text \<open>An interest list that behaves as documented.\<close>

fun interest_ctl :: epoll_ctl where
  "interest_ctl EPOLL_CTL_ADD fd ev il =
     (case ev of None \<Rightarrow> (- 1, il)
      | Some e \<Rightarrow> if il fd = None then (0, il(fd \<mapsto> e)) else (- 1, il))"
| "interest_ctl EPOLL_CTL_MOD fd ev il =
     (case ev of None \<Rightarrow> (- 1, il)
      | Some e \<Rightarrow> if il fd = None then (- 1, il) else (0, il(fd \<mapsto> e)))"
| "interest_ctl EPOLL_CTL_DEL fd ev il = (if il fd = None then (- 1, il) else (0, il(fd := None)))"

interpretation linux_epoll: epoll_reliable interest_ctl
  by unfold_locales (auto split: if_splits)

subsection \<open>The reported channels\<close>

text \<open>
  The objects that \<open>deref\<close> and \<open>put\<close> access behave as a store. Then the loop returns the
  channels in the order of the events, each with the events that were reported for it, and
  changes nothing else; a pointer to a channel that is gone is dereferenced.
\<close>

locale channel_store =
  fixes deref :: "chan_ptr \<Rightarrow> 'w \<Rightarrow> channel option" and put :: "chan_ptr \<Rightarrow> channel \<Rightarrow> 'w \<Rightarrow> 'w"
  assumes deref_put: "deref p w \<noteq> None \<Longrightarrow> deref q (put p ch w) = (if q = p then Some ch else deref q w)"
begin

definition reported :: "(u32 \<times> chan_ptr) list \<Rightarrow> 'w \<Rightarrow> chan_ptr \<Rightarrow> channel option" where
  "reported evs w p = (case map_of (map (\<lambda>(ev, p). (p, ev)) evs) p of
     None \<Rightarrow> deref p w
   | Some ev \<Rightarrow> map_option (Channel_setrevents ev) (deref p w))"

lemma collect_live:
  assumes "\<forall>(ev, p)\<in>set evs. deref p w \<noteq> None" and "distinct (map snd evs)"
  shows "\<exists>w'. Epoll_collect deref put evs w = Inr (map snd evs, w') \<and> (\<forall>p. deref p w' = reported evs w p)"
  using assms
proof (induction evs arbitrary: w)
  case Nil
  then show ?case by (simp add: reported_def)
next
  case (Cons e evs)
  obtain ev p where e: "e = (ev, p)" by (cases e)
  with Cons.prems obtain ch where ch: "deref p w = Some ch" by auto
  let ?w = "put p (Channel_setrevents ev ch) w"
  have other: "deref q ?w = (if q = p then Some (Channel_setrevents ev ch) else deref q w)" for q
    using ch by (simp add: deref_put)
  then have "\<forall>(ev, p)\<in>set evs. deref p ?w \<noteq> None"
    using Cons.prems by (auto simp: e)
  with Cons.IH [of ?w] Cons.prems(2) obtain w' where
    "Epoll_collect deref put evs ?w = Inr (map snd evs, w')" "\<forall>p. deref p w' = reported evs ?w p"
    by auto
  moreover have "reported evs ?w q = reported (e # evs) w q" for q
  proof -
    have "p \<notin> fst ` set (map (\<lambda>(ev, p). (p, ev)) evs)"
      using Cons.prems(2) by (force simp: e)
    then have "map_of (map (\<lambda>(ev, p). (p, ev)) evs) p = None"
      by (simp add: map_of_eq_None_iff)
    then show ?thesis by (auto simp: reported_def e other ch split: option.splits)
  qed
  ultimately show ?case by (simp add: e ch)
qed

lemma collect_all_live:
  assumes "\<forall>(ev, p)\<in>set evs. deref p w \<noteq> None"
  shows "\<exists>w'. Epoll_collect deref put evs w = Inr (map snd evs, w')"
  using assms
proof (induction evs arbitrary: w)
  case (Cons e evs)
  obtain ev p where e: "e = (ev, p)" by (cases e)
  with Cons.prems obtain ch where ch: "deref p w = Some ch" by auto
  then have "\<forall>(ev', q)\<in>set evs. deref q (put p (Channel_setrevents ev ch) w) \<noteq> None"
    using Cons.prems by (auto simp: e deref_put)
  then obtain w' where "Epoll_collect deref put evs (put p (Channel_setrevents ev ch) w) = Inr (map snd evs, w')"
    using Cons.IH [of "put p (Channel_setrevents ev ch) w"] by auto
  then show ?case by (simp add: e ch)
qed simp

lemma collect_dangling:
  assumes "deref p w = None" and "\<forall>(ev, q)\<in>set evs. deref q w \<noteq> None"
  shows "Epoll_collect deref put (evs @ (ev, p) # rest) w = Inl (Undefined Use_after_free)"
  using assms
proof (induction evs arbitrary: w)
  case (Cons e evs)
  obtain ev' q where e: "e = (ev', q)" by (cases e)
  with Cons.prems obtain ch where ch: "deref q w = Some ch" by auto
  let ?w = "put q (Channel_setrevents ev' ch) w"
  have other: "deref r ?w = (if r = q then Some (Channel_setrevents ev' ch) else deref r w)" for r
    using ch by (simp add: deref_put)
  have "deref p ?w = None" using Cons.prems(1) ch other [of p] by auto
  moreover have "\<forall>(ev, r)\<in>set evs. deref r ?w \<noteq> None"
    using Cons.prems(2) other by (auto simp: e)
  ultimately show ?case using Cons.IH [of ?w] by (simp add: e ch)
qed simp

end

end
