(* ===== verification/Channel.thy ===== *)
theory Channel
  imports Epoll
begin

text \<open>
  \<^verbatim>\<open>Channel.cpp\<close>: a file descriptor, the events that are watched for it, and the callbacks
  for them. Every change of the watched events goes through the event loop to epoll
  (\<^verbatim>\<open>EventLoop::updatechannel\<close>, \<^verbatim>\<open>EventLoop::removechannel\<close>).
\<close>

subsection \<open>Operations\<close>

definition EventLoop_updatechannel :: "epoll_ctl \<Rightarrow> channel \<Rightarrow> epoll \<Rightarrow> (channel \<times> epoll) res" where
  "EventLoop_updatechannel ctl ch ep = Epoll_updatechannel ctl ch ep"

definition EventLoop_removechannel :: "epoll_ctl \<Rightarrow> channel \<Rightarrow> epoll \<Rightarrow> epoll res" where
  "EventLoop_removechannel ctl ch ep = Epoll_removechannel ctl ch ep"

definition Channel_useet :: "channel \<Rightarrow> channel" where
  "Channel_useet ch = ch\<lparr>ch_events := ch_events ch OR EPOLLET\<rparr>"

text \<open>\<^verbatim>\<open>loop_ -> updatechannel(this)\<close>, where a null pointer is dereferenced if there is no loop.\<close>

definition Channel_update :: "epoll_ctl \<Rightarrow> channel \<Rightarrow> epoll \<Rightarrow> (channel \<times> epoll) res" where
  "Channel_update ctl ch ep =
     (case ch_loop ch of
        None \<Rightarrow> Inl (Undefined Null_dereference)
      | Some _ \<Rightarrow> EventLoop_updatechannel ctl ch ep)"

definition Channel_enablereading :: "epoll_ctl \<Rightarrow> channel \<Rightarrow> epoll \<Rightarrow> (channel \<times> epoll) res" where
  "Channel_enablereading ctl ch ep =
     (let ch = ch\<lparr>ch_events := ch_events ch OR EPOLLIN\<rparr> in
      if ch_loop ch = None then Inr (ch, ep) else Channel_update ctl ch ep)"

definition Channel_disablereading :: "epoll_ctl \<Rightarrow> channel \<Rightarrow> epoll \<Rightarrow> (channel \<times> epoll) res" where
  "Channel_disablereading ctl ch ep =
     Channel_update ctl (ch\<lparr>ch_events := ch_events ch AND NOT EPOLLIN\<rparr>) ep"

definition Channel_enablewriting :: "epoll_ctl \<Rightarrow> channel \<Rightarrow> epoll \<Rightarrow> (channel \<times> epoll) res" where
  "Channel_enablewriting ctl ch ep =
     Channel_update ctl (ch\<lparr>ch_events := ch_events ch OR EPOLLOUT\<rparr>) ep"

definition Channel_disablewriting :: "epoll_ctl \<Rightarrow> channel \<Rightarrow> epoll \<Rightarrow> (channel \<times> epoll) res" where
  "Channel_disablewriting ctl ch ep =
     Channel_update ctl (ch\<lparr>ch_events := ch_events ch AND NOT EPOLLOUT\<rparr>) ep"

definition Channel_disableall :: "epoll_ctl \<Rightarrow> channel \<Rightarrow> epoll \<Rightarrow> (channel \<times> epoll) res" where
  "Channel_disableall ctl ch ep = Channel_update ctl (ch\<lparr>ch_events := 0\<rparr>) ep"

definition Channel_remove :: "epoll_ctl \<Rightarrow> channel \<Rightarrow> epoll \<Rightarrow> (channel \<times> epoll) res" where
  "Channel_remove ctl ch ep =
     bind_res (Channel_disableall ctl ch ep) (\<lambda>(ch, ep).
     bind_res (EventLoop_removechannel ctl ch ep) (\<lambda>ep.
     Inr (ch, ep)))"

text \<open>
  \<^verbatim>\<open>Channel::handleevent\<close>: which callback is called. The branches are tried in the order of
  the code, so one callback runs even where several events are reported at once; calling an
  empty \<^verbatim>\<open>std::function\<close> throws.
\<close>

definition call_function :: "callback option \<Rightarrow> callback res" where
  "call_function f = (case f of None \<Rightarrow> Inl Bad_function_call | Some cb \<Rightarrow> Inr cb)"

definition Channel_handleevent :: "channel \<Rightarrow> callback res" where
  "Channel_handleevent ch =
     (if ch_revents ch AND EPOLLRDHUP \<noteq> 0 then call_function (ch_closecallback ch)
      else if ch_revents ch AND (EPOLLIN OR EPOLLPRI) \<noteq> 0 then call_function (ch_readcallback ch)
      else if ch_revents ch AND EPOLLOUT \<noteq> 0 then call_function (ch_writecallback ch)
      else call_function (ch_errorcallback ch))"

definition Channel_setreadcallback :: "callback \<Rightarrow> channel \<Rightarrow> channel" where
  "Channel_setreadcallback f ch = ch\<lparr>ch_readcallback := Some f\<rparr>"

definition Channel_seterrorcallback :: "callback \<Rightarrow> channel \<Rightarrow> channel" where
  "Channel_seterrorcallback f ch = ch\<lparr>ch_errorcallback := Some f\<rparr>"

definition Channel_setclosecallback :: "callback \<Rightarrow> channel \<Rightarrow> channel" where
  "Channel_setclosecallback f ch = ch\<lparr>ch_closecallback := Some f\<rparr>"

definition Channel_setwritecallback :: "callback \<Rightarrow> channel \<Rightarrow> channel" where
  "Channel_setwritecallback f ch = ch\<lparr>ch_writecallback := Some f\<rparr>"

subsection \<open>The registration of a channel\<close>

text \<open>
  \<open>chan_synced\<close>: the flag of the channel says whether the descriptor is registered, and what
  is registered is the channel and the events it asks for. \<open>chan_removed\<close> is the state after
  \<^verbatim>\<open>Channel::remove\<close>, which does not reset the flag.
\<close>

definition chan_synced :: "channel \<Rightarrow> epoll \<Rightarrow> bool" where
  "chan_synced ch ep \<longleftrightarrow> ch_loop ch \<noteq> None \<and>
     ep_interest ep (ch_fd ch) = (if ch_inepoll ch then Some (ch_events ch, ch_this ch) else None)"

definition chan_removed :: "channel \<Rightarrow> epoll \<Rightarrow> bool" where
  "chan_removed ch ep \<longleftrightarrow> ch_loop ch \<noteq> None \<and> ch_inepoll ch \<and> ep_interest ep (ch_fd ch) = None"

text \<open>The state after the events of a synchronised channel have been set to \<open>ev\<close>.\<close>

definition chan_registered :: "u32 \<Rightarrow> channel \<Rightarrow> channel" where
  "chan_registered ev ch = ch\<lparr>ch_events := ev, ch_inepoll := True\<rparr>"

definition epoll_registered :: "u32 \<Rightarrow> channel \<Rightarrow> epoll \<Rightarrow> epoll" where
  "epoll_registered ev ch ep = ep\<lparr>ep_interest := (ep_interest ep)(ch_fd ch \<mapsto> (ev, ch_this ch))\<rparr>"

lemmas chan_op_defs =
  Channel_update_def EventLoop_updatechannel_def EventLoop_removechannel_def
  Channel_enablereading_def Channel_disablereading_def Channel_enablewriting_def
  Channel_disablewriting_def Channel_disableall_def

lemma chan_registered_simps [simp]:
  "ch_events (chan_registered ev ch) = ev"
  "ch_inepoll (chan_registered ev ch) = True"
  "ch_fd (chan_registered ev ch) = ch_fd ch"
  "ch_this (chan_registered ev ch) = ch_this ch"
  "ch_loop (chan_registered ev ch) = ch_loop ch"
  "ch_revents (chan_registered ev ch) = ch_revents ch"
  "ch_readcallback (chan_registered ev ch) = ch_readcallback ch"
  "ch_closecallback (chan_registered ev ch) = ch_closecallback ch"
  "ch_errorcallback (chan_registered ev ch) = ch_errorcallback ch"
  "ch_writecallback (chan_registered ev ch) = ch_writecallback ch"
  by (simp_all add: chan_registered_def)

lemma epoll_registered_simps [simp]:
  "ep_interest (epoll_registered ev ch ep) = (ep_interest ep)(ch_fd ch \<mapsto> (ev, ch_this ch))"
  "ep_fd (epoll_registered ev ch ep) = ep_fd ep"
  by (simp_all add: epoll_registered_def)

lemma chan_synced_registered [simp, intro]:
  "ch_loop ch \<noteq> None \<Longrightarrow> chan_synced (chan_registered ev ch) (epoll_registered ev ch ep)"
  by (simp add: chan_synced_def)

lemma chan_synced_loop: "chan_synced ch ep \<Longrightarrow> ch_loop ch \<noteq> None"
  by (simp add: chan_synced_def)

context epoll_reliable
begin

lemma update_synced:
  assumes "chan_synced ch ep"
  shows "Channel_update ctl (ch\<lparr>ch_events := ev\<rparr>) ep =
    Inr (chan_registered ev ch, epoll_registered ev ch ep)"
  using assms
  by (auto simp: Channel_update_def EventLoop_updatechannel_def chan_synced_def update_succeeds
      chan_registered_def epoll_registered_def)

lemma enable_disable_synced [chan_simps]:
  assumes "chan_synced ch ep"
  shows "Channel_enablereading ctl ch ep =
      Inr (chan_registered (ch_events ch OR EPOLLIN) ch, epoll_registered (ch_events ch OR EPOLLIN) ch ep)"
    and "Channel_disablereading ctl ch ep =
      Inr (chan_registered (ch_events ch AND NOT EPOLLIN) ch,
           epoll_registered (ch_events ch AND NOT EPOLLIN) ch ep)"
    and "Channel_enablewriting ctl ch ep =
      Inr (chan_registered (ch_events ch OR EPOLLOUT) ch,
           epoll_registered (ch_events ch OR EPOLLOUT) ch ep)"
    and "Channel_disablewriting ctl ch ep =
      Inr (chan_registered (ch_events ch AND NOT EPOLLOUT) ch,
           epoll_registered (ch_events ch AND NOT EPOLLOUT) ch ep)"
    and "Channel_disableall ctl ch ep = Inr (chan_registered 0 ch, epoll_registered 0 ch ep)"
  using assms chan_synced_loop [OF assms]
  by (auto simp: Channel_enablereading_def Channel_disablereading_def Channel_enablewriting_def
      Channel_disablewriting_def Channel_disableall_def update_synced Let_def)

lemma remove_synced [chan_simps]:
  assumes "chan_synced ch ep"
  shows "Channel_remove ctl ch ep =
    Inr (chan_registered 0 ch, ep\<lparr>ep_interest := (ep_interest ep)(ch_fd ch := None)\<rparr>)"
  using assms
  by (simp add: Channel_remove_def enable_disable_synced EventLoop_removechannel_def remove_succeeds
      epoll_registered_def)

end

context epoll_kernel
begin

text \<open>Once removed, no operation that changes the events of the channel returns.\<close>

lemma update_removed:
  assumes "chan_removed ch ep"
  shows "Channel_update ctl (ch\<lparr>ch_events := ev\<rparr>) ep = Inl Exit_failure"
  using assms
  by (auto simp: Channel_update_def EventLoop_updatechannel_def chan_removed_def intro!: update_stale)

lemma enablewriting_removed:
  assumes "chan_removed ch ep"
  shows "Channel_enablewriting ctl ch ep = Inl Exit_failure"
  using assms by (simp add: Channel_enablewriting_def update_removed)

lemma remove_removes:
  assumes "Channel_remove ctl ch ep = Inr (ch', ep')" 
  shows "chan_removed ch' ep'"
  using assms
  by (auto simp: Channel_remove_def Channel_disableall_def Channel_update_def EventLoop_updatechannel_def
      EventLoop_removechannel_def chan_removed_def res_simps split: option.splits
      dest!: update_effect remove_effect)

end

subsection \<open>Properties\<close>

text \<open>
  An operation sets the watched events of a channel: it returns, the channel and the kernel
  agree on the new events, and no other descriptor is touched.
\<close>

definition sets_events ::
  "(channel \<Rightarrow> epoll \<Rightarrow> (channel \<times> epoll) res) \<Rightarrow> u32 \<Rightarrow> channel \<Rightarrow> epoll \<Rightarrow> bool" where
  "sets_events op ev ch ep \<longleftrightarrow>
     (\<exists>ch' ep'. op ch ep = Inr (ch', ep') \<and> chan_synced ch' ep' \<and> ch_events ch' = ev \<and>
        ep_interest ep' (ch_fd ch) = Some (ev, ch_this ch) \<and>
        (\<forall>fd. fd \<noteq> ch_fd ch \<longrightarrow> ep_interest ep' fd = ep_interest ep fd))"

lemma sets_eventsI:
  assumes "op ch ep = Inr (chan_registered ev ch, epoll_registered ev ch ep)" and "chan_synced ch ep"
  shows "sets_events op ev ch ep"
  using assms chan_synced_loop [OF assms(2)]
  by (auto simp: sets_events_def intro!: chan_synced_registered)

text \<open>
  C20. What the operations that change \<^verbatim>\<open>events_\<close> do to a channel whose flag and events describe what the
  kernel watches, registered or not. The five that switch reading and writing lead to a channel and an epoll
  instance that agree again, with exactly the requested change of the events, and touch no other descriptor. The two others
  do not: \<^verbatim>\<open>remove\<close> takes the descriptor out of epoll and leaves the flag set, and \<^verbatim>\<open>useet\<close> does not tell the kernel.
\<close>

theorem channel_ops_in_sync:
  assumes "epoll_reliable ctl" and "chan_synced ch ep"
  shows "sets_events (Channel_enablereading ctl) (ch_events ch OR EPOLLIN) ch ep \<and>
    sets_events (Channel_disablereading ctl) (ch_events ch AND NOT EPOLLIN) ch ep \<and>
    sets_events (Channel_enablewriting ctl) (ch_events ch OR EPOLLOUT) ch ep \<and>
    sets_events (Channel_disablewriting ctl) (ch_events ch AND NOT EPOLLOUT) ch ep \<and>
    sets_events (Channel_disableall ctl) 0 ch ep \<and>
    (\<exists>ch' ep'. Channel_remove ctl ch ep = Inr (ch', ep') \<and> Channel_inepoll ch' \<and> ch_events ch' = 0 \<and>
      ep_interest ep' = (ep_interest ep)(ch_fd ch := None) \<and> \<not> chan_synced ch' ep') \<and>
    (chan_synced (Channel_useet ch) ep \<longleftrightarrow> \<not> Channel_inepoll ch \<or> ch_events ch OR EPOLLET = ch_events ch)"
proof -
  have "\<not> chan_synced (chan_registered 0 ch) (ep\<lparr>ep_interest := (ep_interest ep)(ch_fd ch := None)\<rparr>)"
    by (simp add: chan_synced_def)
  then have "\<exists>ch' ep'. Channel_remove ctl ch ep = Inr (ch', ep') \<and> Channel_inepoll ch' \<and> ch_events ch' = 0 \<and>
      ep_interest ep' = (ep_interest ep)(ch_fd ch := None) \<and> \<not> chan_synced ch' ep'"
    using epoll_reliable.remove_synced [OF assms] by (simp add: Channel_inepoll_def)
  moreover have "chan_synced (Channel_useet ch) ep \<longleftrightarrow> \<not> Channel_inepoll ch \<or> ch_events ch OR EPOLLET = ch_events ch"
    using assms(2) by (auto simp: chan_synced_def Channel_useet_def Channel_inepoll_def)
  ultimately show ?thesis
    using epoll_reliable.enable_disable_synced [OF assms] assms(2) by (blast intro: sets_eventsI)
qed

lemma channel_ops_in_sync_witness:
  "sets_events (Channel_enablereading interest_ctl) EPOLLIN
     (Channel_new Accept_channel (Some 0) 3) \<lparr>ep_fd = 4, ep_interest = Map.empty\<rparr>"
proof -
  have "chan_synced (Channel_new Accept_channel (Some 0) 3) \<lparr>ep_fd = 4, ep_interest = Map.empty\<rparr>"
    by (simp add: chan_synced_def Channel_new_def)
  from channel_ops_in_sync [OF linux_epoll.epoll_reliable_axioms this] show ?thesis
    by (simp add: Channel_new_def)
qed

text \<open>
  A channel that has been removed can never be used again: \<^verbatim>\<open>removechannel\<close> takes the
  descriptor out of epoll but leaves \<^verbatim>\<open>inepoll_\<close> set, so every later change of the events asks
  for a modification that fails, and the process exits.
\<close>

theorem channel_dead_after_remove:
  assumes "epoll_kernel ctl" and "Channel_remove ctl ch ep = Inr (ch', ep')"
  shows "Channel_enablereading ctl ch' ep' = Inl Exit_failure \<and>
    Channel_disablereading ctl ch' ep' = Inl Exit_failure \<and>
    Channel_enablewriting ctl ch' ep' = Inl Exit_failure \<and>
    Channel_disablewriting ctl ch' ep' = Inl Exit_failure \<and>
    Channel_disableall ctl ch' ep' = Inl Exit_failure \<and>
    Channel_remove ctl ch' ep' = Inl Exit_failure"
proof -
  have removed: "chan_removed ch' ep'"
    using assms by (rule epoll_kernel.remove_removes)
  have "ch_loop ch' \<noteq> None"
    using removed by (simp add: chan_removed_def)
  then show ?thesis
    by (simp add: chan_op_defs(4-) Channel_remove_def Let_def
        epoll_kernel.update_removed [OF assms(1) removed])
qed

lemma channel_dead_after_remove_witness:
  "let ch = (Channel_new (Client_channel 0) (Some 1) 7)\<lparr>ch_inepoll := True\<rparr> in
   case Channel_remove interest_ctl ch \<lparr>ep_fd = 4, ep_interest = [7 \<mapsto> (EPOLLIN, Client_channel 0)]\<rparr> of
     Inl e \<Rightarrow> False
   | Inr (ch', ep') \<Rightarrow> Channel_enablewriting interest_ctl ch' ep' = Inl Exit_failure"
proof -
  let ?ch = "(Channel_new (Client_channel 0) (Some 1) 7)\<lparr>ch_inepoll := True\<rparr>"
    and ?ep = "\<lparr>ep_fd = 4, ep_interest = [7 \<mapsto> (EPOLLIN, Client_channel 0)]\<rparr>"
  obtain ch' ep' where "Channel_remove interest_ctl ?ch ?ep = Inr (ch', ep')"
    by (simp add: Channel_remove_def chan_op_defs Channel_new_def Epoll_updatechannel_def
        Epoll_removechannel_def)
  with channel_dead_after_remove [OF linux_epoll.epoll_kernel_axioms this] show ?thesis
    by simp
qed

text \<open>
  Dispatch of the events that the kernel can report for a channel that watches \<^verbatim>\<open>EPOLLIN\<close>
  and perhaps \<^verbatim>\<open>EPOLLOUT\<close> (it adds \<^verbatim>\<open>EPOLLERR\<close> and \<^verbatim>\<open>EPOLLHUP\<close> on its own): exactly one callback
  runs, reading first, then writing, and the error callback only where neither is possible.
  The close callback of the channel is never reached, because \<^verbatim>\<open>EPOLLRDHUP\<close> is not watched for.
\<close>

theorem handleevent_dispatch:
  assumes "ch_revents ch AND NOT (ch_events ch OR EPOLLERR OR EPOLLHUP) = 0"
    and "ch_events ch AND NOT (EPOLLIN OR EPOLLOUT) = 0"
  shows "Channel_handleevent ch =
    (if ch_revents ch AND EPOLLIN \<noteq> 0 then call_function (ch_readcallback ch)
     else if ch_revents ch AND EPOLLOUT \<noteq> 0 then call_function (ch_writecallback ch)
     else call_function (ch_errorcallback ch))"
proof -
  have disjoint: "a AND c = 0" if "a AND NOT b = 0" and "b AND c = 0" for a b c :: u32
  proof (rule bit_word_eqI)
    fix n
    assume "n < LENGTH(32)"
    then have "bit (a AND NOT b) n \<longleftrightarrow> bit a n \<and> \<not> bit b n" and "bit (b AND c) n \<longleftrightarrow> bit b n \<and> bit c n"
      by (simp_all add: bit_simps)
    with that show "bit (a AND c) n \<longleftrightarrow> bit 0 n"
      by (simp add: bit_and_iff)
  qed
  have events: "ch_events ch AND EPOLLRDHUP = 0" "ch_events ch AND EPOLLPRI = 0"
    by (rule disjoint [OF assms(2)], simp)+
  have "ch_revents ch AND EPOLLRDHUP = 0" and "ch_revents ch AND EPOLLPRI = 0"
    by (rule disjoint [OF assms(1)], simp add: bit.conj_disj_distrib2 events)+
  moreover have "ch_revents ch AND (EPOLLIN OR EPOLLPRI) = (ch_revents ch AND EPOLLIN) OR (ch_revents ch AND EPOLLPRI)"
    by (simp only: bit.conj_disj_distrib)
  ultimately show ?thesis
    by (simp only: Channel_handleevent_def or.right_neutral simp_thms if_False)
qed

lemma handleevent_dispatch_witness:
  "Channel_handleevent ((Channel_new (Client_channel 0) (Some 1) 7)
     \<lparr>ch_events := EPOLLIN OR EPOLLOUT, ch_revents := EPOLLOUT OR EPOLLHUP,
      ch_writecallback := Some Cb_connection_write\<rparr>) = Inr Cb_connection_write"
  by (subst handleevent_dispatch) (simp_all add: Channel_new_def call_function_def)

end
