(* ===== verification/Ordered_Map.thy ===== *)
theory Ordered_Map
  imports Prelude
begin

text \<open>
  \<^verbatim>\<open>std::map<int, V>\<close>: the entries in the order of an iteration, that is by increasing key.
  The timer of an event loop walks such a map while it erases from it, so the order is part
  of the model. \<open>std_map\<close> is the interface the server relies on.
\<close>

type_synonym 'v omap = "(int \<times> 'v) list"

definition om_ok :: "'v omap \<Rightarrow> bool" where
  "om_ok m \<longleftrightarrow> sorted_wrt (<) (map fst m)"

text \<open>\<^verbatim>\<open>m[k] = v\<close>\<close>

fun om_assign :: "int \<Rightarrow> 'v \<Rightarrow> 'v omap \<Rightarrow> 'v omap" where
  "om_assign k v [] = [(k, v)]"
| "om_assign k v ((k', v') # m) =
     (if k < k' then (k, v) # (k', v') # m
      else if k = k' then (k, v) # m
      else (k', v') # om_assign k v m)"

text \<open>\<^verbatim>\<open>m.erase(k)\<close>\<close>

fun om_erase :: "int \<Rightarrow> 'v omap \<Rightarrow> 'v omap" where
  "om_erase k [] = []"
| "om_erase k ((k', v') # m) = (if k = k' then m else (k', v') # om_erase k m)"

locale std_map =
  fixes empty :: 'm
    and lookup :: "'m \<Rightarrow> 'k \<Rightarrow> 'v option"
    and assign :: "'k \<Rightarrow> 'v \<Rightarrow> 'm \<Rightarrow> 'm"
    and erase :: "'k \<Rightarrow> 'm \<Rightarrow> 'm"
    and ok :: "'m \<Rightarrow> bool"
  assumes lookup_empty: "lookup empty k = None"
    and lookup_assign: "ok m \<Longrightarrow> lookup (assign k v m) = (lookup m)(k \<mapsto> v)"
    and lookup_erase: "ok m \<Longrightarrow> lookup (erase k m) = (lookup m)(k := None)"
    and ok_empty: "ok empty"
    and ok_assign: "ok m \<Longrightarrow> ok (assign k v m)"
    and ok_erase: "ok m \<Longrightarrow> ok (erase k m)"
begin

lemma dom_assign: "ok m \<Longrightarrow> dom (lookup (assign k v m)) = insert k (dom (lookup m))"
  by (simp add: lookup_assign)

lemma dom_erase: "ok m \<Longrightarrow> dom (lookup (erase k m)) = dom (lookup m) - {k}"
  by (simp add: lookup_erase)

lemma lookup_erase_assign:
  "ok m \<Longrightarrow> lookup (erase k (assign k v m)) = (lookup m)(k := None)"
  by (simp add: lookup_erase lookup_assign ok_assign)

lemma ran_assign: "ok m \<Longrightarrow> ran (lookup (assign k v m)) \<subseteq> insert v (ran (lookup m))"
  by (auto simp: lookup_assign ran_def split: if_splits)

lemma ran_erase: "ok m \<Longrightarrow> ran (lookup (erase k m)) \<subseteq> ran (lookup m)"
  by (auto simp: lookup_erase ran_def split: if_splits)

end

lemma om_ok_Nil [simp]: "om_ok []"
  by (simp add: om_ok_def)

lemma om_ok_Cons: "om_ok (e # m) \<longleftrightarrow> om_ok m \<and> (\<forall>x\<in>set m. fst e < fst x)"
  by (auto simp: om_ok_def)

lemma om_ok_append:
  "om_ok (m @ m') \<longleftrightarrow> om_ok m \<and> om_ok m' \<and> (\<forall>x\<in>set m. \<forall>y\<in>set m'. fst x < fst y)"
  by (auto simp: om_ok_def sorted_wrt_append)

lemma om_assign_keys: "fst ` set (om_assign k v m) = insert k (fst ` set m)"
  by (induction k v m rule: om_assign.induct) auto

lemma om_erase_subset: "set (om_erase k m) \<subseteq> set m"
  by (induction k m rule: om_erase.induct) auto

lemma om_assign_subset: "set (om_assign k v m) \<subseteq> insert (k, v) (set m)"
  by (induction k v m rule: om_assign.induct) auto

lemma om_ok_assign: "om_ok m \<Longrightarrow> om_ok (om_assign k v m)"
proof (induction k v m rule: om_assign.induct)
  case (2 k v k' v' m)
  have "fst ` set (om_assign k v m) = insert k (fst ` set m)"
    by (rule om_assign_keys)
  then have "\<forall>x\<in>set (om_assign k v m). fst x = k \<or> fst x \<in> fst ` set m"
    by auto
  with 2 show ?case
    by (force simp: om_ok_Cons)
qed (simp add: om_ok_Cons)

lemma om_ok_erase: "om_ok m \<Longrightarrow> om_ok (om_erase k m)"
  by (induction k m rule: om_erase.induct) (auto simp: om_ok_Cons dest: om_erase_subset [THEN subsetD])

lemma map_of_om_assign: "om_ok m \<Longrightarrow> map_of (om_assign k v m) = (map_of m)(k \<mapsto> v)"
  by (induction k v m rule: om_assign.induct) (auto simp: om_ok_Cons fun_eq_iff)

lemma map_of_om_erase: "om_ok m \<Longrightarrow> map_of (om_erase k m) = (map_of m)(k := None)"
proof (induction k m rule: om_erase.induct)
  case (2 k k' v' m)
  then have "map_of m k' = None"
    by (force simp: om_ok_Cons map_of_eq_None_iff)
  with 2 show ?case by (auto simp: om_ok_Cons fun_eq_iff)
qed simp

interpretation conn_map: std_map "[] :: 'v omap" map_of om_assign om_erase om_ok
  by unfold_locales (simp_all add: map_of_om_assign map_of_om_erase om_ok_assign om_ok_erase)

text \<open>An entry in the middle of the map is the only one with its key.\<close>

lemma om_lookup_middle: "om_ok (m @ (k, v) # m') \<Longrightarrow> map_of (m @ (k, v) # m') k = Some v"
  by (force simp: om_ok_append om_ok_Cons map_add_Some_iff map_of_eq_None_iff)

lemma om_erase_middle: "om_ok (m @ (k, v) # m') \<Longrightarrow> om_erase k (m @ (k, v) # m') = m @ m'"
  by (induction m) (auto simp: om_ok_Cons)

lemma om_erase_filter: "om_ok m \<Longrightarrow> om_erase k m = filter (\<lambda>e. fst e \<noteq> k) m"
proof (induction k m rule: om_erase.induct)
  case (2 k k' v' m)
  then have "\<forall>e\<in>set m. fst e \<noteq> k'" by (force simp: om_ok_Cons)
  with 2 show ?case by (auto simp: om_ok_Cons)
qed simp

lemma om_ok_filter: "om_ok m \<Longrightarrow> om_ok (filter P m)"
  by (induction m) (auto simp: om_ok_Cons)

lemma om_ok_distinct: "om_ok m \<Longrightarrow> distinct (map fst m)"
  by (induction m) (force simp: om_ok_Cons)+

text \<open>Erasing several entries of the map one after the other.\<close>

lemma om_erase_entries:
  fixes m :: "'v omap"
  assumes "om_ok m" and "set es \<subseteq> set m"
  shows "foldl (\<lambda>m e. om_erase (fst e) m) m es = filter (\<lambda>e. e \<notin> set es) m"
proof -
  have "foldl (\<lambda>m e. om_erase (fst e) m) m' es = filter (\<lambda>e. fst e \<notin> fst ` set es) m'" if "om_ok m'" for m' :: "'v omap"
    using that
    by (induction es arbitrary: m') (auto simp: om_erase_filter om_ok_filter intro!: filter_cong)
  moreover have "fst e \<notin> fst ` set es \<longleftrightarrow> e \<notin> set es" if "e \<in> set m" for e
    using that assms(2) om_ok_distinct [OF assms(1)] by (auto simp: distinct_map inj_on_def)
  then have "filter (\<lambda>e. fst e \<notin> fst ` set es) m = filter (\<lambda>e. e \<notin> set es) m"
    by (intro filter_cong) blast+
  ultimately show ?thesis
    using assms(1) by simp
qed

end
