(* ===== verification/EventLoop.thy ===== *)
theory EventLoop
  imports Channel Ordered_Map
begin

text \<open>
  \<^verbatim>\<open>EventLoop.h\<close>, \<^verbatim>\<open>EventLoop.cpp\<close>: the state of an event loop, its queue of tasks and the
  eventfd that wakes it. The connections of the loop are numbers of objects
  (\<^verbatim>\<open>std::shared_ptr<Connection>\<close>); the timer, which looks into them, is in \<open>Loop_Timer\<close>.

  Two fields stand for objects of the kernel: \<open>el_wakecount\<close> is the counter of the eventfd
  \<^verbatim>\<open>wakeupfd_\<close>, \<open>el_timerset\<close> the time the timerfd \<^verbatim>\<open>timerfd_\<close> was last armed with.
  \<open>el_locked\<close> says whether the thread of the loop holds \<^verbatim>\<open>mutex_\<close>.
\<close>

text \<open>
  The tasks: \<^verbatim>\<open>Connection::send\<close> binds \<^verbatim>\<open>Connection::sendinloop\<close> to a raw connection
  pointer, a copy of the data and its size.
\<close>

datatype task = Task_sendinloop nat bytes nat

datatype epolltimeout_cb = Cb_epolltimeout
datatype timer_cb = Cb_removeconn

record eventloop =
  el_id :: nat
  el_mainloop :: bool
  el_timetvl :: int
  el_timeout :: int
  el_ep :: epoll
  el_epolltimeoutcallback :: "epolltimeout_cb option"
  el_threadid :: "int option"
  el_taskqueue :: "task list"
  el_locked :: bool
  el_wakeupfd :: int
  el_wakecount :: u64
  el_wakechannel :: channel
  el_timerfd :: int
  el_timerset :: int
  el_timerchannel :: channel
  el_conns :: "nat omap"
  el_timercallback :: "timer_cb option"
  el_stop :: bool

text \<open>
  The constructor: \<open>fds\<close> are what \<^verbatim>\<open>epoll_create\<close>, \<^verbatim>\<open>eventfd\<close> and \<^verbatim>\<open>timerfd_create\<close>
  return. The members are initialised in the order of their declaration, so the timer is
  armed with \<^verbatim>\<open>timeout_\<close>. The object has no thread before \<^verbatim>\<open>run\<close>.
\<close>

definition createtimerfd :: "int \<Rightarrow> int \<Rightarrow> int \<times> int" where
  "createtimerfd tfd sec = (tfd, sec)"

definition EventLoop_new ::
  "epoll_ctl \<Rightarrow> nat \<Rightarrow> int \<times> int \<times> int \<Rightarrow> bool \<Rightarrow> int \<Rightarrow> int \<Rightarrow> eventloop res" where
  "EventLoop_new ctl lid fds mainloop timetvl timeout =
     (let (epollrc, wakeupfd, tfd) = fds; (timerfd, timerset) = createtimerfd tfd timeout in
      bind_res (Epoll_new epollrc) (\<lambda>ep.
      bind_res (Channel_enablereading ctl
          (Channel_setreadcallback Cb_handlewakeup
            (Channel_new (Wake_channel lid) (Some lid) wakeupfd)) ep) (\<lambda>(wakechannel, ep).
      bind_res (Channel_enablereading ctl
          (Channel_setreadcallback Cb_handletimer
            (Channel_new (Timer_channel lid) (Some lid) timerfd)) ep) (\<lambda>(timerchannel, ep).
      Inr \<lparr>el_id = lid, el_mainloop = mainloop, el_timetvl = timetvl, el_timeout = timeout,
           el_ep = ep, el_epolltimeoutcallback = None, el_threadid = None, el_taskqueue = [],
           el_locked = False, el_wakeupfd = wakeupfd, el_wakecount = 0,
           el_wakechannel = wakechannel, el_timerfd = timerfd, el_timerset = timerset,
           el_timerchannel = timerchannel, el_conns = [], el_timercallback = None,
           el_stop = False\<rparr>))))"

definition EventLoop_isinloopthread :: "int \<Rightarrow> eventloop \<Rightarrow> bool" where
  "EventLoop_isinloopthread tid l \<longleftrightarrow> el_threadid l = Some tid"

definition EventLoop_setepolltimeoutcallback :: "epolltimeout_cb \<Rightarrow> eventloop \<Rightarrow> eventloop" where
  "EventLoop_setepolltimeoutcallback fn l = l\<lparr>el_epolltimeoutcallback := Some fn\<rparr>"

definition EventLoop_settimercallback :: "timer_cb \<Rightarrow> eventloop \<Rightarrow> eventloop" where
  "EventLoop_settimercallback fn l = l\<lparr>el_timercallback := Some fn\<rparr>"

definition EventLoop_newconnection :: "int \<Rightarrow> nat \<Rightarrow> eventloop \<Rightarrow> eventloop" where
  "EventLoop_newconnection fd conn l = l\<lparr>el_conns := om_assign fd conn (el_conns l)\<rparr>"

subsection \<open>The task queue\<close>

text \<open>
  The non-blocking write of 1 to the eventfd and the read from it are parameters, functions
  of the counter. The read in \<^verbatim>\<open>handlewakeup\<close> ignores what it reads.
\<close>

definition EventLoop_wakeup :: "(u64 \<Rightarrow> u64) \<Rightarrow> eventloop \<Rightarrow> eventloop" where
  "EventLoop_wakeup evwrite l = l\<lparr>el_wakecount := evwrite (el_wakecount l)\<rparr>"

definition EventLoop_queueinloop :: "(u64 \<Rightarrow> u64) \<Rightarrow> task \<Rightarrow> eventloop \<Rightarrow> eventloop" where
  "EventLoop_queueinloop evwrite fn l =
     EventLoop_wakeup evwrite (l\<lparr>el_taskqueue := el_taskqueue l @ [fn]\<rparr>)"

definition EventLoop_stop :: "(u64 \<Rightarrow> u64) \<Rightarrow> eventloop \<Rightarrow> eventloop" where
  "EventLoop_stop evwrite l = EventLoop_wakeup evwrite (l\<lparr>el_stop := True\<rparr>)"

text \<open>
  The loop of \<^verbatim>\<open>handlewakeup\<close>: \<open>exec\<close> runs a task and may change the event loop and the
  rest of the state. The value \<open>None\<close> is a loop that does not end.
\<close>

partial_function (option) run_tasks ::
  "(task \<Rightarrow> eventloop \<times> 'w \<Rightarrow> (eventloop \<times> 'w) res) \<Rightarrow> eventloop \<times> 'w \<Rightarrow>
   (eventloop \<times> 'w) res option" where
  "run_tasks exec s =
     (case el_taskqueue (fst s) of
        [] \<Rightarrow> Some (Inr s)
      | fn # q \<Rightarrow>
          (case exec fn (fst s\<lparr>el_taskqueue := q\<rparr>, snd s) of
             Inl e \<Rightarrow> Some (Inl e)
           | Inr s' \<Rightarrow> run_tasks exec s'))"

definition EventLoop_handlewakeup ::
  "(u64 \<Rightarrow> u64) \<Rightarrow> (task \<Rightarrow> eventloop \<times> 'w \<Rightarrow> (eventloop \<times> 'w) res) \<Rightarrow> eventloop \<times> 'w \<Rightarrow>
   (eventloop \<times> 'w) res option" where
  "EventLoop_handlewakeup evread exec s =
     (let (l, w) = s; l = l\<lparr>el_wakecount := evread (el_wakecount l)\<rparr> in
      if el_locked l then Some (Inl Self_deadlock)
      else
        (case run_tasks exec (l\<lparr>el_locked := True\<rparr>, w) of
           None \<Rightarrow> None
         | Some (Inl e) \<Rightarrow> Some (Inl e)
         | Some (Inr (l, w)) \<Rightarrow> Some (Inr (l\<lparr>el_locked := False\<rparr>, w))))"

text \<open>
  \<^verbatim>\<open>queueinloop\<close> called by the thread that runs \<^verbatim>\<open>handlewakeup\<close>, from within a task: the
  mutex is held by the caller.
\<close>

definition queueinloop_same_thread :: "(u64 \<Rightarrow> u64) \<Rightarrow> task \<Rightarrow> eventloop \<Rightarrow> eventloop res" where
  "queueinloop_same_thread evwrite fn l =
     (if el_locked l then Inl Self_deadlock else Inr (EventLoop_queueinloop evwrite fn l))"

subsection \<open>What a run of the queue does\<close>

text \<open>The tasks in the order of the queue, each with the queue behind it still to come.\<close>

fun exec_all :: "('t \<Rightarrow> 's \<Rightarrow> 's res) \<Rightarrow> 't list \<Rightarrow> 's \<Rightarrow> 's res" where
  "exec_all exec [] s = Inr s"
| "exec_all exec (t # ts) s = bind_res (exec t s) (exec_all exec ts)"

text \<open>
  The interface a task keeps to: it does not look at the queue and does not change it. Then
  the loop ends and runs exactly the tasks that were queued, in order.
\<close>

definition with_queue :: "task list \<Rightarrow> eventloop \<times> 'w \<Rightarrow> eventloop \<times> 'w" where
  "with_queue q s = (fst s\<lparr>el_taskqueue := q\<rparr>, snd s)"

lemma with_queue_simps [simp]:
  "with_queue q (with_queue q' s) = with_queue q s"
  "el_taskqueue (fst (with_queue q s)) = q"
  "with_queue (el_taskqueue (fst s)) s = s"
  by (cases s; simp add: with_queue_def)+

lemma map_sum_with_queue [simp]:
  "map_sum id (with_queue q) (map_sum id (with_queue q') r) = map_sum id (with_queue q) r"
  by (cases r) simp_all

locale queue_blind =
  fixes exec :: "task \<Rightarrow> eventloop \<times> 'w \<Rightarrow> (eventloop \<times> 'w) res"
  assumes blind: "exec t (with_queue q s) = map_sum id (with_queue q) (exec t s)"
begin

lemma exec_all_blind:
  "exec_all exec ts (with_queue q s) = map_sum id (with_queue q) (exec_all exec ts s)"
proof (induction ts arbitrary: s)
  case (Cons t ts)
  then show ?case by (cases "exec t s") (simp_all add: blind)
qed simp

lemma run_tasks_exec_all:
  "run_tasks exec s = Some (map_sum id (with_queue []) (exec_all exec (el_taskqueue (fst s)) s))"
proof (induction "el_taskqueue (fst s)" arbitrary: s)
  case Nil
  then have "with_queue [] s = s" by (metis with_queue_simps(3))
  with Nil show ?case by (simp add: run_tasks.simps [of exec s])
next
  case (Cons t q)
  have step: "run_tasks exec s =
    (case exec t (with_queue q s) of Inl e \<Rightarrow> Some (Inl e) | Inr s' \<Rightarrow> run_tasks exec s')"
    by (simp add: run_tasks.simps [of exec s] with_queue_def flip: Cons.hyps(2))
  show ?case
  proof (cases "exec t s")
    case (Inl e)
    then show ?thesis by (simp add: step blind flip: Cons.hyps(2))
  next
    case (Inr s')
    then have "run_tasks exec s = run_tasks exec (with_queue q s')"
      by (simp add: step blind)
    also have "\<dots> = Some (map_sum id (with_queue []) (exec_all exec q (with_queue q s')))"
      using Cons.hyps(1) [of "with_queue q s'"] by simp
    finally show ?thesis
      using Inr by (simp add: exec_all_blind flip: Cons.hyps(2))
  qed
qed

text \<open>The whole handler ends, with the queue empty and the mutex released.\<close>

lemma handlewakeup_runs:
  assumes "\<not> el_locked l"
  shows "EventLoop_handlewakeup evread exec (l, w) =
    Some (map_sum id (\<lambda>s. (fst s\<lparr>el_taskqueue := [], el_locked := False\<rparr>, snd s))
      (exec_all exec (el_taskqueue l)
        (l\<lparr>el_wakecount := evread (el_wakecount l), el_locked := True\<rparr>, w)))"
proof -
  let ?r = "exec_all exec (el_taskqueue l)
    (l\<lparr>el_wakecount := evread (el_wakecount l), el_locked := True\<rparr>, w)"
  show ?thesis
    using assms
    by (cases ?r) (auto simp: EventLoop_handlewakeup_def run_tasks_exec_all with_queue_def Let_def)
qed

end

end
