(* ===== verification/Buffer.thy ===== *)
theory Buffer
  imports Prelude
begin

text \<open>
  \<^verbatim>\<open>Buffer.h\<close>, \<^verbatim>\<open>Buffer.cpp\<close>: the receive and send buffer of a connection and the
  framing of messages, a four byte length in host order and the message. A memory region
  that a \<^verbatim>\<open>const char*\<close> points to is the list of the bytes that may be read from it
  (a null pointer is \<open>None\<close>); \<^verbatim>\<open>std::string::data()\<close> points to the string's bytes
  and one NUL.
\<close>

subsection \<open>Operations of std::string\<close>

definition str_append :: "bytes \<Rightarrow> bytes option \<Rightarrow> nat \<Rightarrow> bytes res" where
  "str_append s data n =
     (if n = 0 then Inr s
      else case data of
        None \<Rightarrow> Inl (Undefined Null_dereference)
      | Some region \<Rightarrow>
          (if length region < n then Inl (Undefined Out_of_bounds_read)
           else Inr (s @ take n region)))"

definition str_erase :: "bytes \<Rightarrow> nat \<Rightarrow> nat \<Rightarrow> bytes res" where
  "str_erase s pos n = (if length s < pos then Inl Out_of_range else Inr (take pos s @ drop (pos + n) s))"

definition str_substr :: "bytes \<Rightarrow> nat \<Rightarrow> nat \<Rightarrow> bytes res" where
  "str_substr s pos n = (if length s < pos then Inl Out_of_range else Inr (take n (drop pos s)))"

definition str_data :: "bytes \<Rightarrow> bytes" where
  "str_data s = s @ [0]"

text \<open>
  \<^verbatim>\<open>memcpy(&len, s.data(), 4)\<close> of a string that may be shorter than four bytes: behind
  the string comes its NUL, and behind that whatever the string's storage (never less than
  16 bytes in libstdc++) holds there, the argument \<open>stale\<close>.
\<close>

definition str_mem :: "(nat \<Rightarrow> byte) \<Rightarrow> bytes \<Rightarrow> nat \<Rightarrow> byte" where
  "str_mem stale s i = (if i < length s then s ! i else if i = length s then 0 else stale i)"

definition read_int :: "(nat \<Rightarrow> byte) \<Rightarrow> bytes \<Rightarrow> int" where
  "read_int stale s =
     sint (of_le4 (str_mem stale s 0) (str_mem stale s 1) (str_mem stale s 2) (str_mem stale s 3))"

subsection \<open>The class\<close>

record buffer =
  b_buf :: bytes
  b_sep :: u16

definition Buffer_new :: "u16 \<Rightarrow> buffer" where
  "Buffer_new sep = \<lparr>b_buf = [], b_sep = sep\<rparr>"

definition Buffer_append :: "bytes option \<Rightarrow> nat \<Rightarrow> buffer \<Rightarrow> buffer res" where
  "Buffer_append data n b = bind_res (str_append (b_buf b) data n) (\<lambda>s. Inr (b\<lparr>b_buf := s\<rparr>))"

text \<open>
  \<^verbatim>\<open>(data != nullptr && data[0] != '\0')\<close> only chooses whether a line is printed, but it
  reads the first byte.
\<close>

definition peek_first :: "bytes option \<Rightarrow> unit res" where
  "peek_first data = (if data = Some [] then Inl (Undefined Out_of_bounds_read) else Inr ())"

definition size_header :: "nat \<Rightarrow> bytes" where
  "size_header n = le_bytes4 (of_nat n :: u64)"

definition Buffer_appendwithsep :: "bytes option \<Rightarrow> nat \<Rightarrow> buffer \<Rightarrow> buffer res" where
  "Buffer_appendwithsep data n b =
     bind_res (peek_first data) (\<lambda>_.
       if b_sep b = 0 then
         bind_res (str_append (b_buf b) data n) (\<lambda>s. Inr (b\<lparr>b_buf := s\<rparr>))
       else if b_sep b = 1 then
         bind_res (str_append (b_buf b @ size_header n) data n) (\<lambda>s. Inr (b\<lparr>b_buf := s\<rparr>))
       else if b_sep b = 2 then
         bind_res (str_append (b_buf b @ size_header n) data n) (\<lambda>s. Inr (b\<lparr>b_buf := s\<rparr>))
       else Inr b)"

definition Buffer_erase :: "nat \<Rightarrow> nat \<Rightarrow> buffer \<Rightarrow> buffer res" where
  "Buffer_erase pos nn b = bind_res (str_erase (b_buf b) pos nn) (\<lambda>s. Inr (b\<lparr>b_buf := s\<rparr>))"

definition Buffer_size :: "buffer \<Rightarrow> nat" where
  "Buffer_size b = length (b_buf b)"

definition Buffer_data :: "buffer \<Rightarrow> bytes" where
  "Buffer_data b = str_data (b_buf b)"

definition Buffer_clear :: "buffer \<Rightarrow> buffer" where
  "Buffer_clear b = b\<lparr>b_buf := []\<rparr>"

text \<open>
  \<^verbatim>\<open>bool pickmessage(std::string &ss)\<close>: the results are the returned flag, the string
  \<open>ss\<close> afterwards and the buffer afterwards. \<^verbatim>\<open>len+4\<close> is an int addition; where the code
  compares it with \<^verbatim>\<open>buf_.size()\<close> or passes it for a size it is converted to size\_t.
\<close>

definition pickmessage :: "(nat \<Rightarrow> byte) \<Rightarrow> bytes \<Rightarrow> buffer \<Rightarrow> (bool \<times> bytes \<times> buffer) res" where
  "pickmessage stale ss b =
     (if length (b_buf b) = 0 then Inr (False, ss, b)
      else if b_sep b = 0 then Inr (True, ss, b)
      else if b_sep b = 1 then
        let len = read_int stale (b_buf b) in
        if 2 ^ 31 - 1 < len + 4 then Inl (Undefined Signed_overflow)
        else if length (b_buf b) < size_t (len + 4) then Inr (False, ss, b)
        else bind_res (str_substr (b_buf b) 4 (size_t len)) (\<lambda>ss'.
             bind_res (str_erase (b_buf b) 0 (size_t (len + 4))) (\<lambda>s.
             Inr (True, ss', b\<lparr>b_buf := s\<rparr>)))
      else Inr (True, ss, b))"

subsection \<open>Frames\<close>

text \<open>
  The frame of a message, and the messages whose length the receiving side can read: the
  header is an int there, and four more must not overflow it.
\<close>

definition frame :: "bytes \<Rightarrow> bytes" where
  "frame m = size_header (length m) @ m"

definition frame_ok :: "bytes \<Rightarrow> bool" where
  "frame_ok m \<longleftrightarrow> length m + 4 < 2 ^ 31"

lemma length_size_header [simp]: "length (size_header n) = 4"
  by (simp add: size_header_def)

lemma length_frame [simp]: "length (frame m) = length m + 4"
  by (simp add: frame_def)

lemma drop_size_header [simp]:
  "drop (4 + n) (size_header k @ t) = drop n t" "drop (n + 4) (size_header k @ t) = drop n t"
  by simp_all

lemma frame_not_Nil [simp]: "frame m \<noteq> []"
  by (metis length_frame add_eq_0_iff_both_eq_0 list.size(3) zero_neq_numeral)

lemma sint_of_nat_32:
  assumes "n < 2 ^ 31"
  shows "sint (of_nat n :: u32) = int n"
proof -
  have "unat (of_nat n :: u32) = n"
    using assms by (simp add: unsigned_of_nat take_bit_nat_eq_self_iff)
  with assms show ?thesis by (simp add: sint_as_unat)
qed

lemma read_int_range: "- (2 ^ 31) \<le> read_int stale s" "read_int stale s < 2 ^ 31"
  unfolding read_int_def
  using sint_ge [where 'a = 32] sint_lt [where 'a = 32] by simp_all

lemma read_int_append:
  assumes "4 \<le> length s"
  shows "read_int stale (s @ t) = sint (of_le4 (s ! 0) (s ! 1) (s ! 2) (s ! 3))"
  using assms by (cases s) (auto simp: read_int_def str_mem_def nth_append)

lemma read_int_size_header:
  assumes "n < 2 ^ 31"
  shows "read_int stale (size_header n @ t) = int n"
proof -
  have "take_bit 64 n = n"
    using assms by (simp add: take_bit_nat_eq_self_iff)
  then have "(ucast (of_nat n :: u64) :: u32) = of_nat n"
    by (simp add: unsigned_of_nat)
  with assms show ?thesis
    by (simp add: read_int_append size_header_def of_le4_le_bytes4 [unfolded One_nat_def] sint_of_nat_32)
qed

text \<open>The header in memory.\<close>

lemma size_header_len:
  assumes "n < 2 ^ 31"
  shows "sint (of_le4 (size_header n ! 0) (size_header n ! 1) (size_header n ! 2) (size_header n ! 3)) = int n"
  using read_int_size_header [OF assms, of "\<lambda>_. 0" "[]"] read_int_append [of "size_header n" "\<lambda>_. 0" "[]"]
  by simp

lemma short_header_arith:
  fixes a b c d :: nat
  assumes "a < 256" "b < 256" "c < 256" "d < 256" and "b = 0 \<or> c = 0 \<or> d = 0"
    and "u = a + 256 * b + 65536 * c + 16777216 * d"
  shows "(u < 2147483648 \<longrightarrow> u + 4 < 2147483648) \<and> u < 4294967292"
proof (cases "d \<le> 127")
  case True
  with assms show ?thesis by (elim disjE) simp_all
next
  case False
  with assms show ?thesis by (elim disjE) simp_all
qed

text \<open>
  A buffer with less than four bytes: the NUL behind the string is one of the bytes the
  header is read from, and that alone keeps the length away from the values that
  \<^verbatim>\<open>pickmessage\<close> cannot handle, whatever the bytes behind it are.
\<close>

lemma read_int_short:
  assumes "s \<noteq> []" and "length s < 4"
  shows "read_int stale s + 4 < 2 ^ 31 \<and> (0 \<le> read_int stale s \<or> read_int stale s < - 4)"
proof -
  let ?b = "\<lambda>i. str_mem stale s i"
  define u where "u = unat (of_le4 (?b 0) (?b 1) (?b 2) (?b 3))"
  have u: "u = unat (?b 0) + 2 ^ 8 * unat (?b 1) + 2 ^ 16 * unat (?b 2) + 2 ^ 24 * unat (?b 3)"
    by (simp add: u_def unat_of_le4)
  have less: "unat (?b i) < 256" for i
    using unsigned_less [of "?b i"] by simp
  have "length s = 1 \<or> length s = 2 \<or> length s = 3"
  proof -
    have "0 < length s" using assms(1) by simp
    with assms(2) show ?thesis by linarith
  qed
  then have "unat (?b 1) = 0 \<or> unat (?b 2) = 0 \<or> unat (?b 3) = 0"
    by (auto simp: str_mem_def)
  then have "(u < 2147483648 \<longrightarrow> u + 4 < 2147483648) \<and> u < 4294967292"
    using u by (intro short_header_arith [OF less less less less]) simp_all
  moreover have "read_int stale s = (if u < 2 ^ 31 then int u else int u - 2 ^ 32)"
    by (simp only: read_int_def sint_as_unat u_def)
  ultimately show ?thesis by auto
qed

subsection \<open>What pickmessage does\<close>

lemma pick_empty [buf_simps]: "b_buf b = [] \<Longrightarrow> pickmessage stale ss b = Inr (False, ss, b)"
  by (simp add: pickmessage_def)

lemma pick_short:
  assumes "b_sep b = 1" and "length (b_buf b) < 4"
  shows "pickmessage stale ss b = Inr (False, ss, b)"
proof (cases "b_buf b = []")
  case True
  then show ?thesis by (simp add: pick_empty)
next
  case False
  let ?len = "read_int stale (b_buf b)"
  have len: "?len + 4 < 2 ^ 31" "0 \<le> ?len \<or> ?len < - 4"
    using read_int_short [OF False assms(2)] by auto
  have "- (2 ^ 31) \<le> ?len"
    by (rule read_int_range)
  have "length (b_buf b) < size_t (?len + 4)"
  proof (cases "0 \<le> ?len")
    case True
    with len assms(2) show ?thesis by simp
  next
    case False
    with len \<open>- (2 ^ 31) \<le> ?len\<close> have "size_t (?len + 4) = nat (2 ^ 64 + (?len + 4))"
      by (intro size_t_neg) simp_all
    with \<open>- (2 ^ 31) \<le> ?len\<close> assms(2) show ?thesis by simp
  qed
  with False assms(1) len show ?thesis
    by (simp add: pickmessage_def)
qed

lemma pick_header:
  assumes "b_sep b = 1" and "b_buf b = size_header n @ t" and "n + 4 < 2 ^ 31"
  shows "pickmessage stale ss b =
    (if length t < n then Inr (False, ss, b)
     else Inr (True, take n t, b\<lparr>b_buf := drop n t\<rparr>))"
proof -
  have "read_int stale (b_buf b) = int n"
    using assms(2,3) by (simp add: read_int_size_header)
  moreover have "size_t (int n + 4) = n + 4" "size_t (int n) = n"
    using assms(3) by (simp_all add: nat_add_distrib)
  ultimately show ?thesis
    using assms by (auto simp: pickmessage_def str_substr_def str_erase_def)
qed

lemma pick_frame:
  assumes "b_sep b = 1" and "b_buf b = frame m @ rest" and "frame_ok m"
  shows "pickmessage stale ss b = Inr (True, m, b\<lparr>b_buf := rest\<rparr>)"
  using assms by (subst pick_header [where n = "length m" and t = "m @ rest"])
    (auto simp: frame_def frame_ok_def)

lemma pick_partial_frame:
  assumes "b_sep b = 1" and "strict_prefix (b_buf b) (frame m)" and "frame_ok m"
  shows "pickmessage stale ss b = Inr (False, ss, b)"
proof (cases "length (b_buf b) < 4")
  case True
  with assms(1) show ?thesis by (rule pick_short)
next
  case False
  from assms(2) obtain t where "frame m = b_buf b @ t" and "t \<noteq> []"
    by (auto elim: strict_prefixE')
  then have "take 4 (frame m) = take 4 (b_buf b)" and "drop 4 (frame m) = drop 4 (b_buf b) @ t"
    using False by simp_all
  then obtain p where "b_buf b = size_header (length m) @ p" and "m = p @ t"
    by (metis frame_def append_take_drop_id append_eq_conv_conj length_size_header)
  with \<open>t \<noteq> []\<close> assms(1,3) show ?thesis
    by (subst pick_header [where n = "length m" and t = p]) (auto simp: frame_ok_def)
qed

lemma appendwithsep_frame [buf_simps]:
  assumes "b_sep b = 1"
  shows "Buffer_appendwithsep (Some (m @ 0 # junk)) (length m) b = Inr (b\<lparr>b_buf := b_buf b @ frame m\<rparr>)"
  using assms by (simp add: Buffer_appendwithsep_def peek_first_def str_append_def frame_def)

lemma append_region [buf_simps]:
  "Buffer_append (Some (m @ junk)) (length m) b = Inr (b\<lparr>b_buf := b_buf b @ m\<rparr>)"
  by (cases m) (simp_all add: Buffer_append_def str_append_def)

text \<open>
  A header that reads as a negative length. Between -3 and -1 the message is everything that
  has been received behind the header, and the wrong number of bytes is removed; at -4
  nothing is removed at all; below that no message is ever found again.
\<close>

lemma pick_negative:
  assumes "b_sep b = 1" and "4 \<le> length (b_buf b)" and "length (b_buf b) < 2 ^ 63"
    and "read_int stale (b_buf b) < 0"
  shows "pickmessage stale ss b =
    (if read_int stale (b_buf b) < - 4 then Inr (False, ss, b)
     else Inr (True, drop 4 (b_buf b),
       b\<lparr>b_buf := drop (nat (read_int stale (b_buf b) + 4)) (b_buf b)\<rparr>))"
proof -
  let ?len = "read_int stale (b_buf b)"
  have ge: "- (2 ^ 31) \<le> ?len" by (rule read_int_range)
  have size: "size_t ?len = nat (2 ^ 64 + ?len)"
    using ge assms(4) by (intro size_t_neg) simp_all
  have "length (b_buf b) - 4 \<le> size_t ?len"
    unfolding size using ge assms(3) by simp
  then have all: "take (size_t ?len) (drop 4 (b_buf b)) = drop 4 (b_buf b)"
    by simp
  show ?thesis
  proof (cases "?len < - 4")
    case True
    then have "size_t (?len + 4) = nat (2 ^ 64 + (?len + 4))"
      using ge by (intro size_t_neg) simp_all
    then have "length (b_buf b) < size_t (?len + 4)"
      using ge assms(3) by simp
    with True assms(1,2) show ?thesis
      by (auto simp: pickmessage_def)
  next
    case False
    then have size4: "size_t (?len + 4) = nat (?len + 4)"
      using assms(4) by simp
    have "str_substr (b_buf b) 4 (size_t ?len) = Inr (drop 4 (b_buf b))"
      using assms(2) all by (simp add: str_substr_def)
    moreover have "\<not> length (b_buf b) < nat (?len + 4)"
      using assms(2,4) by linarith
    moreover have "b_buf b \<noteq> []" and "\<not> 2 ^ 31 - 1 < ?len + 4"
      using assms(2,4) by auto
    ultimately show ?thesis
      using False assms(1) by (simp add: pickmessage_def Let_def size4 str_erase_def)
  qed
qed

lemma pick_overflow:
  assumes "b_sep b = 1" and "b_buf b \<noteq> []" and "2 ^ 31 - 4 \<le> read_int stale (b_buf b)"
  shows "pickmessage stale ss b = Inl (Undefined Signed_overflow)"
  using assms by (simp add: pickmessage_def)

end
