(* ===== verification/Framing.thy ===== *)
theory Framing
  imports Buffer
begin

text \<open>
  A byte stream that carries framed messages, cut into fragments anywhere: \<open>frame_codec\<close> is
  the contract of an encoder and a decoder that takes the first complete message off a
  stream. From it follow unique decoding and the independence from the fragmentation. The
  interpretation is the framing of \<^verbatim>\<open>Buffer\<close>.
\<close>

text \<open>All complete messages are taken off a stream, one after the other.\<close>

inductive drains :: "('b list \<Rightarrow> ('m \<times> 'b list) option) \<Rightarrow> 'b list \<Rightarrow> 'm list \<Rightarrow> 'b list \<Rightarrow> bool"
  for pick where
  stop: "pick s = None \<Longrightarrow> drains pick s [] s"
| more: "pick s = Some (m, t) \<Longrightarrow> drains pick t ms r \<Longrightarrow> drains pick s (m # ms) r"

inductive_cases drains_elim: "drains pick s ms r"

text \<open>Complete messages and the beginning of a further one.\<close>

definition stream_of :: "('m \<Rightarrow> 'b list) \<Rightarrow> ('m \<Rightarrow> bool) \<Rightarrow> 'b list \<Rightarrow> 'm list \<Rightarrow> 'b list \<Rightarrow> bool" where
  "stream_of enc ok s ms p \<longleftrightarrow>
     s = concat (map enc ms) @ p \<and> list_all ok ms \<and> (p = [] \<or> (\<exists>m. ok m \<and> strict_prefix p (enc m)))"

locale frame_codec =
  fixes enc :: "'m \<Rightarrow> 'b list" and ok :: "'m \<Rightarrow> bool"
    and pick :: "'b list \<Rightarrow> ('m \<times> 'b list) option"
  assumes enc_nonempty: "ok m \<Longrightarrow> enc m \<noteq> []"
    and pick_Nil: "pick [] = None"
    and pick_enc: "ok m \<Longrightarrow> pick (enc m @ t) = Some (m, t)"
    and pick_partial: "ok m \<Longrightarrow> strict_prefix p (enc m) \<Longrightarrow> pick p = None"
begin

lemma stream_of_Nil:
  assumes "stream_of enc ok s [] p"
  shows "s = p" and "pick s = None"
proof -
  from assms show "s = p" by (simp add: stream_of_def)
  from assms have "p = [] \<or> (\<exists>m. ok m \<and> strict_prefix p (enc m))"
    by (simp add: stream_of_def)
  with \<open>s = p\<close> show "pick s = None"
    by (elim disjE exE conjE) (simp_all only: pick_Nil pick_partial)
qed

lemma stream_of_Cons:
  assumes "stream_of enc ok s (m # ms) p"
  obtains t where "ok m" "s = enc m @ t" "pick s = Some (m, t)" "stream_of enc ok t ms p"
proof
  let ?t = "concat (map enc ms) @ p"
  show "ok m" and "s = enc m @ ?t" and "stream_of enc ok ?t ms p"
    using assms by (simp_all add: stream_of_def)
  then show "pick s = Some (m, ?t)" by (simp only: pick_enc)
qed

lemma drains_stream: "stream_of enc ok s ms p \<Longrightarrow> drains pick s ms p"
proof (induction ms arbitrary: s)
  case Nil
  then have "s = p" and "pick s = None" by (auto dest: stream_of_Nil)
  then show ?case by (auto intro: drains.stop)
next
  case (Cons m ms)
  from Cons.prems obtain t where "pick s = Some (m, t)" and "stream_of enc ok t ms p"
    by (rule stream_of_Cons)
  with Cons.IH show ?case by (blast intro: drains.more)
qed

lemma drains_unique: "drains pick s ms r \<Longrightarrow> drains pick s ms' r' \<Longrightarrow> ms = ms' \<and> r = r'"
proof (induction arbitrary: ms' r' rule: drains.induct)
  case (stop s)
  then show ?case by (auto elim: drains_elim)
next
  case (more s m t ms r)
  from more.prems more.hyps(1) obtain ms'' where "ms' = m # ms''" and "drains pick t ms'' r'"
    by (auto elim: drains_elim)
  with more.IH show ?case by blast
qed

lemma unique_decoding:
  "stream_of enc ok s ms p \<Longrightarrow> stream_of enc ok s ms' p' \<Longrightarrow> ms = ms' \<and> p = p'"
  by (rule drains_unique) (rule drains_stream, assumption)+

text \<open>Every beginning of a stream of messages is such a stream.\<close>

lemma stream_of_prefix:
  assumes "prefix s (concat (map enc ms))" and "list_all ok ms"
  shows "\<exists>k p. k \<le> length ms \<and> stream_of enc ok s (take k ms) p"
  using assms
proof (induction ms arbitrary: s)
  case Nil
  then show ?case by (auto simp: stream_of_def)
next
  case (Cons m ms)
  show ?case
  proof (cases "prefix (enc m) s")
    case True
    then obtain t where s: "s = enc m @ t" by (auto elim: prefixE)
    with Cons.prems have "prefix t (concat (map enc ms))" by simp
    moreover from Cons.prems(2) have "list_all ok ms" by simp
    ultimately obtain k p where "k \<le> length ms" and "stream_of enc ok t (take k ms) p"
      using Cons.IH by blast
    with s Cons.prems(2) have "Suc k \<le> length (m # ms) \<and> stream_of enc ok s (take (Suc k) (m # ms)) p"
      by (auto simp: stream_of_def)
    then show ?thesis by blast
  next
    case False
    with Cons.prems have "strict_prefix s (enc m)"
      by (auto simp: strict_prefix_def prefix_append)
    with Cons.prems(2) have "stream_of enc ok s (take 0 (m # ms)) s"
      by (auto simp: stream_of_def)
    then show ?thesis by (intro exI [of _ 0] exI [of _ s]) simp
  qed
qed

lemma stream_of_extend:
  assumes "stream_of enc ok s ms p" and "stream_of enc ok (p @ f) ms' p'"
  shows "stream_of enc ok (s @ f) (ms @ ms') p'"
  using assms by (auto simp: stream_of_def)

text \<open>What is left of a stream after its complete messages, when a fragment arrives.\<close>

lemma stream_of_next:
  assumes "stream_of enc ok s (take k ms) p" and "k \<le> length ms" and "list_all ok ms"
    and "prefix (s @ f) (concat (map enc ms))"
  shows "\<exists>j p'. k + j \<le> length ms \<and> stream_of enc ok (p @ f) (take j (drop k ms)) p'"
proof -
  have "concat (map enc ms) = concat (map enc (take k ms)) @ concat (map enc (drop k ms))"
    by (metis append_take_drop_id concat_append map_append)
  with assms(1,4) have "prefix (p @ f) (concat (map enc (drop k ms)))"
    by (auto simp: stream_of_def)
  moreover have "list_all ok (drop k ms)"
    using assms(3) by (auto simp: list_all_iff dest: in_set_dropD)
  ultimately obtain j p' where "j \<le> length (drop k ms)" and "stream_of enc ok (p @ f) (take j (drop k ms)) p'"
    using stream_of_prefix by blast
  with assms(2) show ?thesis by (intro exI [of _ j] exI [of _ p']) auto
qed

end

subsection \<open>The framing of the buffer\<close>

text \<open>\<^verbatim>\<open>pickmessage\<close> of a buffer with a four byte header, as a decoder of streams.\<close>

definition pick_bytes :: "(nat \<Rightarrow> byte) \<Rightarrow> bytes \<Rightarrow> (bytes \<times> bytes) option" where
  "pick_bytes stale s =
     (case pickmessage stale [] \<lparr>b_buf = s, b_sep = 1\<rparr> of
        Inr (True, m, b) \<Rightarrow> Some (m, b_buf b)
      | _ \<Rightarrow> None)"

interpretation wire: frame_codec frame frame_ok "pick_bytes stale" for stale
proof
  show "frame m \<noteq> []" for m by simp
  show "pick_bytes stale [] = None"
    by (simp add: pick_bytes_def pick_empty)
  show "pick_bytes stale (frame m @ t) = Some (m, t)" if "frame_ok m" for m t
    using that by (simp add: pick_bytes_def pick_frame)
  show "pick_bytes stale p = None" if "frame_ok m" and "strict_prefix p (frame m)" for m p
    using that by (simp add: pick_bytes_def pick_partial_frame [where m = m])
qed

text \<open>The two outcomes of \<^verbatim>\<open>pickmessage\<close> on a stream of frames.\<close>

lemma pick_stream:
  assumes "b_sep b = 1" and "stream_of frame frame_ok (b_buf b) ms p"
  shows "(ms = [] \<and> b_buf b = p \<and> pickmessage stale ss b = Inr (False, ss, b)) \<or>
    (\<exists>m ms' t. ms = m # ms' \<and> b_buf b = frame m @ t \<and> stream_of frame frame_ok t ms' p \<and>
      pickmessage stale ss b = Inr (True, m, b\<lparr>b_buf := t\<rparr>))"
proof (cases ms)
  case Nil
  with assms show ?thesis
    by (auto simp: stream_of_def pick_empty intro: pick_partial_frame)
next
  case (Cons m ms')
  with assms show ?thesis
    by (auto simp: stream_of_def intro!: pick_frame)
qed

subsection \<open>Properties\<close>

text \<open>The replies of a connection, framed into a buffer one after the other.\<close>

fun append_messages :: "bytes list \<Rightarrow> buffer \<Rightarrow> buffer res" where
  "append_messages [] b = Inr b"
| "append_messages (m # ms) b =
     bind_res (Buffer_appendwithsep (Some (str_data m)) (length m) b) (append_messages ms)"

lemma append_messages_frames:
  "b_sep b = 1 \<Longrightarrow> append_messages ms b = Inr (b\<lparr>b_buf := b_buf b @ concat (map frame ms)\<rparr>)"
  by (induction ms arbitrary: b) (simp_all add: str_data_def appendwithsep_frame)

text \<open>
  C19. Round trip: messages framed with \<^verbatim>\<open>appendwithsep\<close> into an empty buffer are taken off it by
  \<^verbatim>\<open>pickmessage\<close> in the same order, and nothing else is: whatever the bytes behind a short
  buffer are, no other list of messages can be read from it.
\<close>

theorem append_pick_roundtrip:
  assumes "list_all frame_ok ms"
  shows "\<exists>b. append_messages ms (Buffer_new 1) = Inr b \<and>
    (\<forall>ms' r. drains (pick_bytes stale) (b_buf b) ms' r \<longleftrightarrow> ms' = ms \<and> r = [])"
proof -
  have "stream_of frame frame_ok (concat (map frame ms)) ms []"
    using assms by (simp add: stream_of_def)
  then have "drains (pick_bytes stale) (concat (map frame ms)) ms' r \<longleftrightarrow> ms' = ms \<and> r = []" for ms' r
    using wire.drains_stream wire.drains_unique by blast
  then show ?thesis
    by (simp add: append_messages_frames Buffer_new_def)
qed

lemma append_pick_roundtrip_witness:
  "\<exists>b. append_messages [lit ''ab'', [], [0, 255]] (Buffer_new 1) = Inr b \<and>
    (\<forall>ms' r. drains (pick_bytes (\<lambda>_. 9)) (b_buf b) ms' r \<longleftrightarrow> ms' = [lit ''ab'', [], [0, 255]] \<and> r = [])"
  by (rule append_pick_roundtrip) (simp add: frame_ok_def)

text \<open>
  A buffer with less than four bytes: \<^verbatim>\<open>pickmessage\<close> copies the four header bytes all the
  same, but it reports no message and changes nothing, whatever it finds behind the string.
\<close>

theorem pickmessage_incomplete_header:
  assumes "b_sep b = 1" and "length (b_buf b) < 4"
  shows "pickmessage stale ss b = Inr (False, ss, b)"
  using assms by (rule pick_short)

lemma pickmessage_incomplete_header_witness:
  "pickmessage (\<lambda>_. 0xFF) (lit ''x'') \<lparr>b_buf = [0xFF, 0xFF, 0xFF], b_sep = 1\<rparr> =
     Inr (False, lit ''x'', \<lparr>b_buf = [0xFF, 0xFF, 0xFF], b_sep = 1\<rparr>)"
  by (rule pickmessage_incomplete_header) simp_all

text \<open>
  C27. What \<^verbatim>\<open>pickmessage\<close> does with any four byte header, read as an int: from 2147483644 on
  the addition of 4 overflows; below -4 no message is found although the buffer is never
  touched again; from -4 to -1 all that has arrived is taken as the message and at most
  three bytes are removed; otherwise the message is taken once it is complete.
\<close>

theorem pickmessage_any_header:
  assumes "b_sep b = 1" and "4 \<le> length (b_buf b)" and "length (b_buf b) < 2 ^ 63"
  shows "pickmessage stale ss b =
    (let len = read_int stale (b_buf b) in
     if 2 ^ 31 - 4 \<le> len then Inl (Undefined Signed_overflow)
     else if len < - 4 then Inr (False, ss, b)
     else if len < 0 then Inr (True, drop 4 (b_buf b), b\<lparr>b_buf := drop (nat (len + 4)) (b_buf b)\<rparr>)
     else if length (b_buf b) < nat len + 4 then Inr (False, ss, b)
     else Inr (True, take (nat len) (drop 4 (b_buf b)), b\<lparr>b_buf := drop (nat len + 4) (b_buf b)\<rparr>))"
proof -
  let ?len = "read_int stale (b_buf b)"
  consider "2 ^ 31 - 4 \<le> ?len" | "?len < 0" | "0 \<le> ?len" "?len < 2 ^ 31 - 4" by linarith
  then show ?thesis
  proof cases
    case 1
    with assms show ?thesis by (subst pick_overflow) auto
  next
    case 2
    with assms show ?thesis by (subst pick_negative) auto
  next
    case 3
    then have "size_t (?len + 4) = nat ?len + 4" "size_t ?len = nat ?len"
      by (simp_all add: nat_add_distrib)
    with 3 assms show ?thesis
      by (auto simp: pickmessage_def str_substr_def str_erase_def Let_def)
  qed
qed

lemma pickmessage_any_header_witness:
  "pickmessage (\<lambda>_. 0) [] \<lparr>b_buf = [0xFE, 0xFF, 0xFF, 0xFF, 7], b_sep = 1\<rparr> =
     Inr (True, [7], \<lparr>b_buf = [0xFF, 0xFF, 7], b_sep = 1\<rparr>)"
proof -
  have "read_int (\<lambda>_. 0) [0xFE, 0xFF, 0xFF, 0xFF, 7] = - 2"
    by (simp add: read_int_def str_mem_def of_le4_def)
  then show ?thesis
    by (subst pickmessage_any_header) (simp_all add: Let_def)
qed

end
