(* ===== verification/Net.thy ===== *)
theory Net
  imports Prelude "HOL-Library.Signed_Division"
begin

text \<open>
  \<^verbatim>\<open>InetAddress.cpp\<close> and \<^verbatim>\<open>Socket.cpp\<close>: addresses and the wrapper of a socket's file
  descriptor. The results of the system calls are inputs of the operations; the conversions
  between an address and its dotted text (\<^verbatim>\<open>inet_addr\<close>, \<^verbatim>\<open>inet_ntoa\<close>) are parameters.
\<close>

subsection \<open>InetAddress\<close>

record sockaddr_in =
  sin_family :: u16
  sin_port :: u16
  sin_addr :: u32

abbreviation (input) AF_INET :: u16 where "AF_INET \<equiv> 2"

text \<open>\<^verbatim>\<open>htons\<close> and \<^verbatim>\<open>ntohs\<close> on a little endian machine.\<close>

definition swap16 :: "u16 \<Rightarrow> u16" where
  "swap16 w = push_bit 8 w OR drop_bit 8 w"

definition InetAddress_new :: "(bytes \<Rightarrow> u32) \<Rightarrow> bytes \<Rightarrow> u16 \<Rightarrow> sockaddr_in" where
  "InetAddress_new inet_addr ip port =
     \<lparr>sin_family = AF_INET, sin_port = swap16 port, sin_addr = inet_addr ip\<rparr>"

definition InetAddress_of_sockaddr :: "sockaddr_in \<Rightarrow> sockaddr_in" where
  "InetAddress_of_sockaddr addr = addr"

definition InetAddress_ip :: "(u32 \<Rightarrow> bytes) \<Rightarrow> sockaddr_in \<Rightarrow> bytes" where
  "InetAddress_ip inet_ntoa a = inet_ntoa (sin_addr a)"

definition InetAddress_port :: "sockaddr_in \<Rightarrow> u16" where
  "InetAddress_port a = swap16 (sin_port a)"

definition InetAddress_addr :: "sockaddr_in \<Rightarrow> sockaddr_in" where
  "InetAddress_addr a = a"

definition InetAddress_setaddr :: "sockaddr_in \<Rightarrow> sockaddr_in \<Rightarrow> sockaddr_in" where
  "InetAddress_setaddr clientaddr a = clientaddr"

lemma swap16_swap16 [simp]: "swap16 (swap16 w) = w"
  by (rule bit_word_eqI)
     (auto simp: swap16_def bit_or_iff bit_push_bit_iff bit_drop_bit_eq dest: bit_imp_le_length)

subsection \<open>Socket\<close>

record socket =
  so_fd :: int
  so_ip :: bytes
  so_port :: u16

definition createnonblocking :: "int \<Rightarrow> int res" where
  "createnonblocking listenfd = (if listenfd < 0 then Inl Exit_failure else Inr listenfd)"

text \<open>The constructor leaves \<^verbatim>\<open>port_\<close> uninitialised; \<open>port\<close> is what is found there.\<close>

definition Socket_new :: "u16 \<Rightarrow> int \<Rightarrow> socket" where
  "Socket_new port fd = \<lparr>so_fd = fd, so_ip = [], so_port = port\<rparr>"

text \<open>The option calls do not look at the result: a request to the kernel each.\<close>

datatype sockopt = TCP_NODELAY | SO_REUSEADDR | SO_REUSEPORT | SO_KEEPALIVE

type_synonym sockopt_request = "int \<times> sockopt \<times> int"

definition optval :: "bool \<Rightarrow> int" where
  "optval on = (if on then 1 else 0)"

definition Socket_fd :: "socket \<Rightarrow> int" where
  [simp]: "Socket_fd s = so_fd s"

definition Socket_ip :: "socket \<Rightarrow> bytes" where
  [simp]: "Socket_ip s = so_ip s"

definition Socket_port :: "socket \<Rightarrow> u16" where
  [simp]: "Socket_port s = so_port s"

definition Socket_settcpnodelay :: "bool \<Rightarrow> socket \<Rightarrow> sockopt_request" where
  "Socket_settcpnodelay on s = (so_fd s, TCP_NODELAY, optval on)"

definition Socket_setreuseaddr :: "bool \<Rightarrow> socket \<Rightarrow> sockopt_request" where
  "Socket_setreuseaddr on s = (so_fd s, SO_REUSEADDR, optval on)"

definition Socket_setreuseport :: "bool \<Rightarrow> socket \<Rightarrow> sockopt_request" where
  "Socket_setreuseport on s = (so_fd s, SO_REUSEPORT, optval on)"

definition Socket_setkeepalive :: "bool \<Rightarrow> socket \<Rightarrow> sockopt_request" where
  "Socket_setkeepalive on s = (so_fd s, SO_KEEPALIVE, optval on)"

definition Socket_setipport :: "bytes \<Rightarrow> u16 \<Rightarrow> socket \<Rightarrow> socket" where
  "Socket_setipport ip port s = s\<lparr>so_ip := ip, so_port := port\<rparr>"

definition Socket_bind :: "(u32 \<Rightarrow> bytes) \<Rightarrow> int \<Rightarrow> sockaddr_in \<Rightarrow> socket \<Rightarrow> socket res" where
  "Socket_bind inet_ntoa rc servaddr s =
     (if rc < 0 then Inl Exit_failure
      else Inr (Socket_setipport (InetAddress_ip inet_ntoa servaddr) (InetAddress_port servaddr) s))"

definition Socket_listen :: "int \<Rightarrow> socket \<Rightarrow> socket res" where
  "Socket_listen rc s = (if rc \<noteq> 0 then Inl Exit_failure else Inr s)"

text \<open>
  \<^verbatim>\<open>accept4\<close> gives a descriptor and an address. The descriptor is returned as it is, also
  where the call failed and it is -1; the address is then whatever the local variable held.
\<close>

definition Socket_accept :: "int \<times> sockaddr_in \<Rightarrow> sockaddr_in \<Rightarrow> int \<times> sockaddr_in" where
  "Socket_accept r clientaddr =
     (let (clientfd, peeraddr) = r in (clientfd, InetAddress_setaddr peeraddr clientaddr))"

subsection \<open>Properties\<close>

text \<open>
  A socket that has been bound reports the address and port it was bound to: the port goes
  to network byte order and back without loss.
\<close>

theorem bound_socket_address:
  assumes "Socket_bind inet_ntoa rc (InetAddress_new inet_addr ip port) s = Inr s'"
    and "inet_ntoa (inet_addr ip) = ip"
  shows "so_ip s' = ip \<and> so_port s' = port \<and> so_fd s' = so_fd s"
  using assms
  by (auto simp: Socket_bind_def Socket_setipport_def InetAddress_new_def InetAddress_port_def
      InetAddress_ip_def split: if_splits)

lemma bound_socket_address_witness:
  "let s' = projr (Socket_bind (\<lambda>_. lit ''10.0.0.1'') 0 (InetAddress_new (\<lambda>_. 0x0A000001) (lit ''10.0.0.1'') 5085)
      (Socket_new 0 3)) in so_ip s' = lit ''10.0.0.1'' \<and> so_port s' = 5085 \<and> so_fd s' = 3"
proof -
  obtain s' where "Socket_bind (\<lambda>_. lit ''10.0.0.1'') 0
      (InetAddress_new (\<lambda>_. 0x0A000001) (lit ''10.0.0.1'') 5085) (Socket_new 0 3) = Inr s'"
    by (simp add: Socket_bind_def)
  with bound_socket_address [OF this] show ?thesis
    by (simp add: Let_def Socket_new_def)
qed

end
