(* ===== verification/Connection.thy ===== *)
theory Connection
  imports EventLoop Framing Net
begin

text \<open>
  \<^verbatim>\<open>Connection.h\<close>, \<^verbatim>\<open>Connection.cpp\<close>: reading requests, writing replies and closing.

  A member function works on the connection, its event loop (it changes the epoll interest
  list and the task queue) and the rest of the program's state \<open>'w\<close>, which the callbacks into
  \<^verbatim>\<open>TcpServer\<close> reach; \<open>srv\<close> runs such a callback. The message is passed by reference, so the
  callback gives it back. The results of \<^verbatim>\<open>read\<close> and \<^verbatim>\<open>send\<close> are inputs.
\<close>

datatype server_callback =
    Cb_closeconnection
  | Cb_errorconnection
  | Cb_onmessage
  | Cb_sendcomplete

text \<open>
  \<open>cn_owned\<close>: some \<^verbatim>\<open>std::shared_ptr\<close> owns the object, so \<^verbatim>\<open>shared_from_this()\<close> works; it
  does not while the constructor runs. \<open>cn_id\<close> is the number of the object.
\<close>

record connection =
  cn_id :: nat
  cn_loop :: nat
  cn_clientsock :: socket
  cn_clientchannel :: channel
  cn_inputbuffer :: buffer
  cn_outputbuffer :: buffer
  cn_disconnect :: bool
  cn_closecallback :: "server_callback option"
  cn_errorcallback :: "server_callback option"
  cn_onmessagecallback :: "server_callback option"
  cn_sendcompletecallback :: "server_callback option"
  cn_lasttime :: int
  cn_owned :: bool

type_synonym 'w cstate = "connection \<times> eventloop \<times> 'w"
type_synonym 'w server_call = "server_callback \<Rightarrow> bytes \<Rightarrow> 'w cstate \<Rightarrow> (bytes \<times> 'w cstate) res"

subsection \<open>Construction\<close>

text \<open>
  The default argument of \<^verbatim>\<open>Buffer\<close> is 1. The constructor ends with \<^verbatim>\<open>enablereading\<close>: from
  then on the thread of the loop may run the read callback.
\<close>

definition Connection_new ::
  "epoll_ctl \<Rightarrow> nat \<Rightarrow> int \<Rightarrow> nat \<Rightarrow> socket \<Rightarrow> eventloop \<Rightarrow> (connection \<times> eventloop) res" where
  "Connection_new ctl cid now lid clientsock l =
     (let ch = Channel_new (Client_channel cid) (Some lid) (Socket_fd clientsock);
          ch = Channel_setreadcallback Cb_connection_onmessage ch;
          ch = Channel_setclosecallback Cb_connection_close ch;
          ch = Channel_seterrorcallback Cb_connection_error ch;
          ch = Channel_setwritecallback Cb_connection_write ch
      in
      bind_res (Channel_enablereading ctl ch (el_ep l)) (\<lambda>(ch, ep).
      Inr (\<lparr>cn_id = cid, cn_loop = lid, cn_clientsock = clientsock, cn_clientchannel = ch,
            cn_inputbuffer = Buffer_new 1, cn_outputbuffer = Buffer_new 1, cn_disconnect = False,
            cn_closecallback = None, cn_errorcallback = None, cn_onmessagecallback = None,
            cn_sendcompletecallback = None, cn_lasttime = now, cn_owned = False\<rparr>,
           l\<lparr>el_ep := ep\<rparr>)))"

definition Connection_fd :: "connection \<Rightarrow> int" where
  "Connection_fd c = Socket_fd (cn_clientsock c)"

definition Connection_ip :: "connection \<Rightarrow> bytes" where
  "Connection_ip c = Socket_ip (cn_clientsock c)"

definition Connection_port :: "connection \<Rightarrow> u16" where
  "Connection_port c = Socket_port (cn_clientsock c)"

definition Connection_setclosecallback :: "server_callback \<Rightarrow> connection \<Rightarrow> connection" where
  "Connection_setclosecallback fn c = c\<lparr>cn_closecallback := Some fn\<rparr>"

definition Connection_seterrorcallback :: "server_callback \<Rightarrow> connection \<Rightarrow> connection" where
  "Connection_seterrorcallback fn c = c\<lparr>cn_errorcallback := Some fn\<rparr>"

definition Connection_setonmessagecallback :: "server_callback \<Rightarrow> connection \<Rightarrow> connection" where
  "Connection_setonmessagecallback fn c = c\<lparr>cn_onmessagecallback := Some fn\<rparr>"

definition Connection_setsendcompletecallback :: "server_callback \<Rightarrow> connection \<Rightarrow> connection" where
  "Connection_setsendcompletecallback fn c = c\<lparr>cn_sendcompletecallback := Some fn\<rparr>"

subsection \<open>Callbacks into the server\<close>

text \<open>
  \<^verbatim>\<open>f(shared_from_this(), ...)\<close>: the argument is evaluated first and throws if nobody owns
  the object, the call of an empty function throws after that.
\<close>

definition call_server ::
  "'w server_call \<Rightarrow> server_callback option \<Rightarrow> bytes \<Rightarrow> 'w cstate \<Rightarrow> (bytes \<times> 'w cstate) res" where
  "call_server srv f message s =
     (if \<not> cn_owned (fst s) then Inl Bad_weak_ptr
      else case f of None \<Rightarrow> Inl Bad_function_call | Some cb \<Rightarrow> srv cb message s)"

text \<open>A channel operation of the connection: it changes the channel and the loop's epoll.\<close>

definition on_channel ::
  "(channel \<Rightarrow> epoll \<Rightarrow> (channel \<times> epoll) res) \<Rightarrow> 'w cstate \<Rightarrow> 'w cstate res" where
  "on_channel op s =
     (let (c, l, w) = s in
      bind_res (op (cn_clientchannel c) (el_ep l)) (\<lambda>(ch, ep).
      Inr (c\<lparr>cn_clientchannel := ch\<rparr>, l\<lparr>el_ep := ep\<rparr>, w)))"

definition Connection_closecallback :: "epoll_ctl \<Rightarrow> 'w server_call \<Rightarrow> 'w cstate \<Rightarrow> 'w cstate res" where
  "Connection_closecallback ctl srv s =
     (let (c, l, w) = s in
      bind_res (on_channel (Channel_remove ctl) (c\<lparr>cn_disconnect := True\<rparr>, l, w)) (\<lambda>s.
      bind_res (call_server srv (cn_closecallback (fst s)) [] s) (\<lambda>(_, s).
      Inr s)))"

definition Connection_errorcallback :: "epoll_ctl \<Rightarrow> 'w server_call \<Rightarrow> 'w cstate \<Rightarrow> 'w cstate res" where
  "Connection_errorcallback ctl srv s =
     (let (c, l, w) = s in
      bind_res (on_channel (Channel_remove ctl) (c\<lparr>cn_disconnect := True\<rparr>, l, w)) (\<lambda>s.
      bind_res (call_server srv (cn_errorcallback (fst s)) [] s) (\<lambda>(_, s).
      Inr s)))"

subsection \<open>Reading\<close>

text \<open>
  The inner loop of \<^verbatim>\<open>onmessage\<close>: messages are taken off the input buffer until there is no
  complete one. \<open>clock\<close> reads the time, \<open>stale\<close> is the memory behind a short buffer (see
  \<open>Buffer\<close>). \<open>None\<close> is a loop that does not end.
\<close>

partial_function (option) message_loop ::
  "'w server_call \<Rightarrow> ('w \<Rightarrow> int) \<Rightarrow> (nat \<Rightarrow> byte) \<Rightarrow> bytes \<Rightarrow> 'w cstate \<Rightarrow> 'w cstate res option" where
  "message_loop srv clock stale message s =
     (case pickmessage stale message (cn_inputbuffer (fst s)) of
        Inl e \<Rightarrow> Some (Inl e)
      | Inr (found, message, b) \<Rightarrow>
          (let c = (fst s)\<lparr>cn_inputbuffer := b\<rparr> in
           if \<not> found then Some (Inr (c, snd s))
           else
             (let c = c\<lparr>cn_lasttime := clock (snd (snd s))\<rparr> in
              case call_server srv (cn_onmessagecallback c) message (c, snd s) of
                Inl e \<Rightarrow> Some (Inl e)
              | Inr (message, s) \<Rightarrow> message_loop srv clock stale message s)))"

text \<open>
  What \<^verbatim>\<open>read\<close> gives: some bytes (at most the 1024 of the local buffer), a return value of
  -1 with \<^verbatim>\<open>EINTR\<close>, with \<^verbatim>\<open>EAGAIN\<close>, or with some other error, and 0 at the end of the
  stream. The outer loop consumes such results; it needs more of them where the list ends,
  which is the value \<open>None\<close>. An error that is none of the three matches no branch of the code
  and the loop goes on.
\<close>

datatype read_result = Read_data bytes | Read_eintr | Read_eagain | Read_error | Read_eof

fun Connection_onmessage ::
  "epoll_ctl \<Rightarrow> 'w server_call \<Rightarrow> ('w \<Rightarrow> int) \<Rightarrow> (nat \<Rightarrow> byte) \<Rightarrow> read_result list \<Rightarrow> 'w cstate \<Rightarrow>
   'w cstate res option" where
  "Connection_onmessage ctl srv clock stale [] s = None"
| "Connection_onmessage ctl srv clock stale (Read_data data # rs) s =
     (case Buffer_append (Some (data @ replicate (1024 - length data) 0)) (length data)
        (cn_inputbuffer (fst s)) of
        Inl e \<Rightarrow> Some (Inl e)
      | Inr b \<Rightarrow> Connection_onmessage ctl srv clock stale rs ((fst s)\<lparr>cn_inputbuffer := b\<rparr>, snd s))"
| "Connection_onmessage ctl srv clock stale (Read_eintr # rs) s =
     Connection_onmessage ctl srv clock stale rs s"
| "Connection_onmessage ctl srv clock stale (Read_eagain # rs) s =
     message_loop srv clock stale [] s"
| "Connection_onmessage ctl srv clock stale (Read_error # rs) s =
     Connection_onmessage ctl srv clock stale rs s"
| "Connection_onmessage ctl srv clock stale (Read_eof # rs) s =
     Some (Connection_closecallback ctl srv s)"

subsection \<open>Writing\<close>

text \<open>
  A data pointer: the bytes that may be read from it, and whether it came from \<^verbatim>\<open>malloc\<close>.
  \<^verbatim>\<open>strdup\<close> copies up to the first NUL.
\<close>

datatype data_ptr = Ptr (region: bytes) (malloced: bool)

definition strdup :: "data_ptr \<Rightarrow> data_ptr res" where
  "strdup p =
     (if 0 \<in> set (region p) then Inr (Ptr (takeWhile (\<lambda>b. b \<noteq> 0) (region p) @ [0]) True)
      else Inl (Undefined Out_of_bounds_read))"

definition free :: "data_ptr \<Rightarrow> unit res" where
  "free p = (if malloced p then Inr () else Inl (Undefined Invalid_free))"

definition Connection_sendinloop :: "epoll_ctl \<Rightarrow> data_ptr \<Rightarrow> nat \<Rightarrow> 'w cstate \<Rightarrow> 'w cstate res" where
  "Connection_sendinloop ctl data n s =
     bind_res (peek_first (Some (region data))) (\<lambda>_.
     bind_res (Buffer_appendwithsep (Some (region data)) n (cn_outputbuffer (fst s))) (\<lambda>b.
     bind_res (on_channel (Channel_enablewriting ctl) ((fst s)\<lparr>cn_outputbuffer := b\<rparr>, snd s)) (\<lambda>s.
     bind_res (free data) (\<lambda>_.
     Inr s))))"

text \<open>\<open>tid\<close> is the calling thread.\<close>

definition Connection_send ::
  "epoll_ctl \<Rightarrow> (u64 \<Rightarrow> u64) \<Rightarrow> int \<Rightarrow> data_ptr \<Rightarrow> nat \<Rightarrow> 'w cstate \<Rightarrow> 'w cstate res" where
  "Connection_send ctl evwrite tid data n s =
     (let (c, l, w) = s in
      if cn_disconnect c then Inr s
      else if EventLoop_isinloopthread tid l then Connection_sendinloop ctl data n s
      else
        bind_res (strdup data) (\<lambda>dataCopy.
        Inr (c, EventLoop_queueinloop evwrite (Task_sendinloop (cn_id c) (region dataCopy) n) l, w)))"

text \<open>\<open>writen\<close> is the result of \<^verbatim>\<open>::send\<close> with the whole output buffer.\<close>

definition Connection_writecallback ::
  "epoll_ctl \<Rightarrow> 'w server_call \<Rightarrow> int \<Rightarrow> 'w cstate \<Rightarrow> 'w cstate res" where
  "Connection_writecallback ctl srv writen s =
     (let (c, l, w) = s in
      bind_res (if 0 < writen then Buffer_erase 0 (nat writen) (cn_outputbuffer c)
                else Inr (cn_outputbuffer c)) (\<lambda>b.
      let c = c\<lparr>cn_outputbuffer := b\<rparr> in
      if Buffer_size (cn_outputbuffer c) = 0 then
        bind_res (on_channel (Channel_disablewriting ctl) (c, l, w)) (\<lambda>s.
        bind_res (call_server srv (cn_sendcompletecallback (fst s)) [] s) (\<lambda>(_, s).
        Inr s))
      else Inr (c, l, w)))"

definition Connection_timeout :: "int \<Rightarrow> int \<Rightarrow> connection \<Rightarrow> bool" where
  "Connection_timeout now val c \<longleftrightarrow> val < now - cn_lasttime c"

text \<open>A task of the event loop: \<^verbatim>\<open>sendinloop\<close> with the copy, on the connection it is bound to.\<close>

definition task_sendinloop :: "epoll_ctl \<Rightarrow> bytes \<Rightarrow> nat \<Rightarrow> 'w cstate \<Rightarrow> 'w cstate res" where
  "task_sendinloop ctl copy n = Connection_sendinloop ctl (Ptr copy True) n"

end
