(* ===== verification/Loop_Timer.thy ===== *)
theory Loop_Timer
  imports Connection
begin

text \<open>
  \<^verbatim>\<open>EventLoop::handletimer\<close>: when the timer of an event loop rings, the loop walks over its
  connections and drops those that have been idle for too long. \<open>heap\<close> gives the connection
  objects, \<open>removeconn\<close> is the callback into the server.
\<close>

subsection \<open>The walk\<close>

text \<open>
  The iterator is the list of the entries from where it points to the end of the map;
  \<open>[]\<close> is \<^verbatim>\<open>end()\<close>. \<^verbatim>\<open>aa = conns_.erase(aa)\<close> moves it to the next entry, whose key the
  callback then gets (at the end: undefined behaviour), and \<^verbatim>\<open>aa++\<close> steps over that entry.
\<close>

definition call_timer :: "timer_cb option \<Rightarrow> (int \<Rightarrow> 'w \<Rightarrow> 'w res) \<Rightarrow> int \<Rightarrow> 'w \<Rightarrow> 'w res" where
  "call_timer f removeconn fd w =
     (case f of None \<Rightarrow> Inl Bad_function_call | Some Cb_removeconn \<Rightarrow> removeconn fd w)"

fun timer_walk ::
  "(nat \<Rightarrow> connection option) \<Rightarrow> (int \<Rightarrow> 'w \<Rightarrow> 'w res) \<Rightarrow> int \<Rightarrow> int \<Rightarrow>
   nat omap \<Rightarrow> nat omap \<Rightarrow> 'w \<Rightarrow> (nat omap \<times> 'w) res" where
  "timer_walk heap callback now timeout conns [] w = Inr (conns, w)"
| "timer_walk heap callback now timeout conns ((fd, cid) # aa) w =
     (case heap cid of
        None \<Rightarrow> Inl (Undefined Use_after_free)
      | Some c \<Rightarrow>
          if Connection_timeout now timeout c then
            (let conns = om_erase fd conns in
             case aa of
               [] \<Rightarrow> Inl (Undefined Iterator_past_end)
             | (fd', cid') # aa' \<Rightarrow>
                 bind_res (callback fd' w) (\<lambda>w.
                 timer_walk heap callback now timeout conns aa' w))
          else timer_walk heap callback now timeout conns aa w)"

definition EventLoop_handletimer ::
  "(nat \<Rightarrow> connection option) \<Rightarrow> (int \<Rightarrow> 'w \<Rightarrow> 'w res) \<Rightarrow> int \<Rightarrow> eventloop \<Rightarrow> 'w \<Rightarrow>
   (eventloop \<times> 'w) res" where
  "EventLoop_handletimer heap removeconn now l w =
     (let l = l\<lparr>el_timerset := el_timetvl l\<rparr> in
      if el_mainloop l then Inr (l, w)
      else
        bind_res (timer_walk heap (call_timer (el_timercallback l) removeconn) now (el_timeout l)
            (el_conns l) (el_conns l) w) (\<lambda>(conns, w).
        Inr (l\<lparr>el_conns := conns\<rparr>, w)))"

subsection \<open>What the walk does\<close>

definition expired :: "(nat \<Rightarrow> connection option) \<Rightarrow> int \<Rightarrow> int \<Rightarrow> int \<times> nat \<Rightarrow> bool" where
  "expired heap now timeout e \<longleftrightarrow> (\<exists>c. heap (snd e) = Some c \<and> Connection_timeout now timeout c)"

text \<open>The entries the walk erases, and the keys it passes to the callback.\<close>

fun erased :: "('e \<Rightarrow> bool) \<Rightarrow> 'e list \<Rightarrow> 'e list" where
  "erased P [] = []"
| "erased P [e] = (if P e then [e] else [])"
| "erased P (e # e' # es) = (if P e then e # erased P es else erased P (e' # es))"

fun passed :: "('e \<Rightarrow> bool) \<Rightarrow> 'e list \<Rightarrow> 'e list" where
  "passed P [] = []"
| "passed P [e] = []"
| "passed P (e # e' # es) = (if P e then e' # passed P es else passed P (e' # es))"

lemma erased_Cons_not [simp]: "\<not> P e \<Longrightarrow> erased P (e # es) = erased P es"
  by (cases es) auto

lemma passed_Cons_not [simp]: "\<not> P e \<Longrightarrow> passed P (e # es) = passed P es"
  by (cases es) auto

text \<open>The length of the run of expired entries at the end of the map.\<close>

definition trailing :: "('e \<Rightarrow> bool) \<Rightarrow> 'e list \<Rightarrow> nat" where
  "trailing P es = length (takeWhile P (rev es))"

lemma trailing_all: "list_all P es \<Longrightarrow> trailing P es = length es"
  by (simp add: trailing_def list_all_iff takeWhile_eq_all_conv [THEN iffD2])

lemma trailing_Cons:
  "trailing P (e # es) = (if P e \<and> list_all P es then Suc (length es) else trailing P es)"
proof (cases "list_all P es")
  case True
  with trailing_all [OF True] show ?thesis
    by (simp add: trailing_def list_all_iff takeWhile_append)
next
  case False
  then show ?thesis
    by (auto simp: trailing_def list_all_iff takeWhile_append)
qed

lemma odd_trailing_skip: "P e \<Longrightarrow> odd (trailing P (e # e' # es)) \<longleftrightarrow> odd (trailing P es)"
  by (auto simp: trailing_Cons trailing_all)

fun call_all :: "('k \<Rightarrow> 'w \<Rightarrow> 'w res) \<Rightarrow> 'k list \<Rightarrow> 'w \<Rightarrow> 'w res" where
  "call_all f [] w = Inr w"
| "call_all f (k # ks) w = bind_res (f k w) (call_all f ks)"

lemma erased_subset: "set (erased P es) \<subseteq> set es"
  by (induction P es rule: erased.induct) auto

lemma erased_P: "e \<in> set (erased P es) \<Longrightarrow> P e"
  by (induction P es rule: erased.induct) (auto split: if_splits)

lemma passed_subset: "set (passed P es) \<subseteq> set es"
  by (induction P es rule: passed.induct) auto

lemma passed_not_erased:
  assumes "distinct es" and "e \<in> set (passed P es)"
  shows "e \<notin> set (erased P es)"
  using assms
proof (induction P es rule: passed.induct)
  case (3 P e1 e2 es)
  with erased_subset [of P es] passed_subset [of P es] show ?case
    by (auto split: if_splits)
qed simp_all

text \<open>
  The outcome of the walk over a suffix of the map, all of whose objects exist: undefined if
  the number of expired entries at the end is odd; otherwise the erased entries are gone
  and the callback has been called with the passed keys.
\<close>

lemma timer_walk_outcome:
  assumes "\<forall>e\<in>set aa. heap (snd e) \<noteq> None" and "\<And>k w. \<exists>w'. callback k w = Inr w'"
  shows "timer_walk heap callback now timeout conns aa w =
    (let P = expired heap now timeout in
     if odd (trailing P aa) then Inl (Undefined Iterator_past_end)
     else map_sum id (Pair (foldl (\<lambda>m e. om_erase (fst e) m) conns (erased P aa)))
       (call_all callback (map fst (passed P aa)) w))"
  using assms(1)
proof (induction aa arbitrary: conns w rule: length_induct)
  case (1 aa)
  let ?P = "expired heap now timeout"
  note IH = "1.IH" [rule_format]
  show ?case
  proof (cases aa)
    case Nil
    then show ?thesis by (simp add: trailing_def)
  next
    case (Cons e es)
    obtain fd cid where e: "e = (fd, cid)" by (cases e)
    from "1.prems" Cons e obtain c where c: "heap cid = Some c" by auto
    have P: "?P e \<longleftrightarrow> Connection_timeout now timeout c"
      by (simp add: expired_def e c)
    show ?thesis
    proof (cases "?P e")
      case False
      with IH [of es conns w] "1.prems" P show ?thesis
        by (simp add: Cons e c trailing_Cons Let_def)
    next
      case True
      show ?thesis
      proof (cases es)
        case Nil
        with True P show ?thesis by (simp add: Cons e c trailing_Cons trailing_def)
      next
        case (Cons e' es')
        obtain fd' cid' where e': "e' = (fd', cid')" by (cases e')
        obtain w' where w': "callback fd' w = Inr w'" using assms(2) by blast
        from IH [of es' "om_erase fd conns" w'] "1.prems" True P \<open>aa = e # es\<close> Cons
        show ?thesis
          by (simp add: e e' c w' odd_trailing_skip Let_def)
      qed
    qed
  qed
qed

end
