(* ===== verification/Transition_System.thy ===== *)
theory Transition_System
  imports Prelude
begin

text \<open>
  Reachable states of a transition system and the proof rule for invariants. The components
  that several threads share (the worker pool and the wake-up of an event loop) are such
  systems: a step is what one thread does without being interrupted.
\<close>

inductive reachable :: "('s \<Rightarrow> bool) \<Rightarrow> ('s \<Rightarrow> 's \<Rightarrow> bool) \<Rightarrow> 's \<Rightarrow> bool"
  for init step where
  start: "init s \<Longrightarrow> reachable init step s"
| move: "reachable init step s \<Longrightarrow> step s t \<Longrightarrow> reachable init step t"

lemma reachable_rtranclp:
  assumes "reachable init step s" and "step\<^sup>*\<^sup>* s t"
  shows "reachable init step t"
  using assms(2,1) by (induction rule: rtranclp_induct) (auto intro: reachable.move)

locale invariant_system =
  fixes init :: "'s \<Rightarrow> bool" and step :: "'s \<Rightarrow> 's \<Rightarrow> bool" and inv :: "'s \<Rightarrow> bool"
  assumes init_inv: "init s \<Longrightarrow> inv s"
    and step_inv: "inv s \<Longrightarrow> step s t \<Longrightarrow> inv t"
begin

lemma reachable_inv: "reachable init step s \<Longrightarrow> inv s"
  by (induction rule: reachable.induct) (auto intro: init_inv step_inv)

lemma steps_inv:
  assumes "step\<^sup>*\<^sup>* s t" and "inv s"
  shows "inv t"
  using assms by (induction rule: rtranclp_induct) (auto intro: step_inv)

end

text \<open>
  A functional refinement: every step is some steps of the abstract system on the images under
  \<open>abs\<close>, or invisible there. Then what is reachable has a reachable image.
\<close>

locale refinement =
  fixes init :: "'s \<Rightarrow> bool" and step :: "'s \<Rightarrow> 's \<Rightarrow> bool"
    and ainit :: "'a \<Rightarrow> bool" and astep :: "'a \<Rightarrow> 'a \<Rightarrow> bool" and abs :: "'s \<Rightarrow> 'a"
  assumes init_refines: "init s \<Longrightarrow> ainit (abs s)"
    and step_refines: "reachable init step s \<Longrightarrow> step s t \<Longrightarrow> astep\<^sup>*\<^sup>* (abs s) (abs t)"
begin

lemma reachable_refines: "reachable init step s \<Longrightarrow> reachable ainit astep (abs s)"
proof (induction rule: reachable.induct)
  case (start s)
  then show ?case by (intro reachable.start init_refines)
next
  case (move s t)
  with step_refines [OF move(1,2)] show ?case by (blast intro: reachable_rtranclp)
qed

lemma run_refines:
  assumes "step\<^sup>*\<^sup>* s t" and "reachable init step s"
  shows "astep\<^sup>*\<^sup>* (abs s) (abs t)"
  using assms
proof (induction rule: rtranclp_induct)
  case (step t u)
  from step_refines [OF reachable_rtranclp [OF step.prems step.hyps(1)] step.hyps(2)] step.IH [OF step.prems]
  show ?case by (rule rtranclp_trans [rotated])
qed simp

end

end
