(* ===== verification/ThreadPool.thy ===== *)
theory ThreadPool
  imports Transition_System
begin

text \<open>
  \<^verbatim>\<open>ThreadPool.h\<close>, \<^verbatim>\<open>ThreadPool.cpp\<close>: the threads, their queue of tasks, the mutex and the
  condition variable, as a transition system in which every thread moves on its own. A step is
  a piece of code that no other thread can observe half done. \<open>p_started\<close>, \<open>p_done\<close>,
  \<open>p_submitted\<close> and \<open>p_mark\<close> record the history for the statements below; no step depends on
  them.
\<close>

subsection \<open>State\<close>

text \<open>
  Where a thread is in the lambda of the constructor. \<^verbatim>\<open>condition_.wait(lock, pred)\<close> is the
  loop \<^verbatim>\<open>while (!pred()) wait(lock);\<close> in it, releasing the mutex and blocking is one step, but
  evaluating the predicate is another.
\<close>

datatype 't thread_state =
    At_loop        \<comment> \<open>about to test \<^verbatim>\<open>while (stop_ == false)\<close>\<close>
  | At_lock        \<comment> \<open>about to lock the mutex\<close>
  | At_predicate   \<comment> \<open>holds the mutex, about to evaluate the predicate of the wait\<close>
  | At_wait        \<comment> \<open>the predicate was false, holds the mutex, about to block\<close>
  | Asleep         \<comment> \<open>blocked on the condition variable\<close>
  | Woken          \<comment> \<open>about to lock the mutex again\<close>
  | Past_wait      \<comment> \<open>the predicate was true, holds the mutex\<close>
  | Running 't     \<comment> \<open>executes a task, without the mutex\<close>
  | Exited

record 't pool =
  p_threads :: "'t thread_state list"
  p_queue :: "'t list"
  p_stop :: bool
  p_mutex :: "nat option"
  p_notify :: nat             \<comment> \<open>calls of \<^verbatim>\<open>notify_one\<close> still to be made by \<^verbatim>\<open>addtask\<close>\<close>
  p_stop_notified :: bool     \<comment> \<open>\<^verbatim>\<open>Stop\<close> has called \<^verbatim>\<open>notify_all\<close>\<close>
  p_submitted :: "'t list"
  p_started :: "'t list"
  p_done :: "'t list"
  p_mark :: nat               \<comment> \<open>the number of started tasks when \<^verbatim>\<open>stop_\<close> was set\<close>

definition ThreadPool_new :: "nat \<Rightarrow> 't pool" where
  "ThreadPool_new threadnum =
     \<lparr>p_threads = replicate threadnum At_loop, p_queue = [], p_stop = False, p_mutex = None,
      p_notify = 0, p_stop_notified = False, p_submitted = [], p_started = [], p_done = [],
      p_mark = 0\<rparr>"

definition ThreadPool_size :: "'t pool \<Rightarrow> nat" where
  "ThreadPool_size p = length (p_threads p)"

text \<open>The critical section of \<^verbatim>\<open>addtask\<close>; the notification is a step of its own below.\<close>

definition ThreadPool_addtask :: "'t \<Rightarrow> 't pool \<Rightarrow> 't pool" where
  "ThreadPool_addtask t p =
     p\<lparr>p_queue := p_queue p @ [t], p_submitted := p_submitted p @ [t],
       p_notify := Suc (p_notify p)\<rparr>"

definition wait_predicate :: "'t pool \<Rightarrow> bool" where
  "wait_predicate p \<longleftrightarrow> p_stop p \<or> p_queue p \<noteq> []"

definition goto :: "nat \<Rightarrow> 't thread_state \<Rightarrow> 't pool \<Rightarrow> 't pool" where
  "goto i w p = p\<lparr>p_threads := (p_threads p)[i := w]\<rparr>"

definition at :: "'t pool \<Rightarrow> nat \<Rightarrow> 't thread_state \<Rightarrow> bool" where
  "at p i w \<longleftrightarrow> i < length (p_threads p) \<and> p_threads p ! i = w"

subsection \<open>Steps\<close>

text \<open>The steps of thread \<open>i\<close>, in the order of the code.\<close>

inductive thread_step :: "nat \<Rightarrow> 't pool \<Rightarrow> 't pool \<Rightarrow> bool" for i where
  loop_again: "at p i At_loop \<Longrightarrow> \<not> p_stop p \<Longrightarrow> thread_step i p (goto i At_lock p)"
| loop_end: "at p i At_loop \<Longrightarrow> p_stop p \<Longrightarrow> thread_step i p (goto i Exited p)"
| lock: "at p i At_lock \<Longrightarrow> p_mutex p = None \<Longrightarrow>
    thread_step i p (goto i At_predicate (p\<lparr>p_mutex := Some i\<rparr>))"
| predicate_true: "at p i At_predicate \<Longrightarrow> wait_predicate p \<Longrightarrow> thread_step i p (goto i Past_wait p)"
| predicate_false: "at p i At_predicate \<Longrightarrow> \<not> wait_predicate p \<Longrightarrow> thread_step i p (goto i At_wait p)"
| block: "at p i At_wait \<Longrightarrow> thread_step i p (goto i Asleep (p\<lparr>p_mutex := None\<rparr>))"
| relock: "at p i Woken \<Longrightarrow> p_mutex p = None \<Longrightarrow>
    thread_step i p (goto i At_predicate (p\<lparr>p_mutex := Some i\<rparr>))"
| return: "at p i Past_wait \<Longrightarrow> p_stop p \<Longrightarrow> p_queue p = [] \<Longrightarrow>
    thread_step i p (goto i Exited (p\<lparr>p_mutex := None\<rparr>))"
| pop: "at p i Past_wait \<Longrightarrow> p_queue p = t # q \<Longrightarrow>
    thread_step i p (goto i (Running t)
      (p\<lparr>p_mutex := None, p_queue := q, p_started := p_started p @ [t]\<rparr>))"
| finish: "at p i (Running t) \<Longrightarrow>
    thread_step i p (goto i At_loop (p\<lparr>p_done := p_done p @ [t]\<rparr>))"

text \<open>
  The other threads: \<^verbatim>\<open>addtask\<close> pushes under the mutex and then notifies without it;
  \<^verbatim>\<open>Stop\<close> sets the flag and then notifies, both without the mutex, and returns at once where
  the flag is set already. A condition variable may wake a thread without a notification.
\<close>

inductive env_step :: "'t pool \<Rightarrow> 't pool \<Rightarrow> bool" where
  addtask_push: "p_mutex p = None \<Longrightarrow>
    env_step p (ThreadPool_addtask t p)"
| addtask_notify: "p_notify p = Suc n \<Longrightarrow> at p i Asleep \<Longrightarrow>
    env_step p (goto i Woken (p\<lparr>p_notify := n\<rparr>))"
| addtask_notify_nobody: "p_notify p = Suc n \<Longrightarrow> \<forall>i. \<not> at p i Asleep \<Longrightarrow>
    env_step p (p\<lparr>p_notify := n\<rparr>)"
| stop_set: "\<not> p_stop p \<Longrightarrow>
    env_step p (p\<lparr>p_stop := True, p_mark := length (p_started p)\<rparr>)"
| stop_notify: "p_stop p \<Longrightarrow> \<not> p_stop_notified p \<Longrightarrow>
    env_step p (p\<lparr>p_stop_notified := True,
      p_threads := map (\<lambda>w. if w = Asleep then Woken else w) (p_threads p)\<rparr>)"
| spurious: "at p i Asleep \<Longrightarrow> env_step p (goto i Woken p)"

definition pool_step :: "'t pool \<Rightarrow> 't pool \<Rightarrow> bool" where
  "pool_step p p' \<longleftrightarrow> (\<exists>i. thread_step i p p') \<or> env_step p p'"

definition pool_init :: "nat \<Rightarrow> 't pool \<Rightarrow> bool" where
  "pool_init n p \<longleftrightarrow> p = ThreadPool_new n"

text \<open>\<^verbatim>\<open>Stop\<close> returns when every thread can be joined.\<close>

definition joinable :: "'t pool \<Rightarrow> bool" where
  "joinable p \<longleftrightarrow> (\<forall>w\<in>set (p_threads p). w = Exited)"

inductive_cases thread_step_cases: "thread_step i p p'"
inductive_cases env_step_cases: "env_step p p'"

lemma pool_step_cases [consumes 1, case_names thread env]:
  assumes "pool_step p p'"
  obtains i where "thread_step i p p'" | "env_step p p'"
  using assms by (auto simp: pool_step_def)

lemma goto_simps [simp]:
  "p_threads (goto i w p) = (p_threads p)[i := w]"
  "p_queue (goto i w p) = p_queue p"
  "p_stop (goto i w p) = p_stop p"
  "p_mutex (goto i w p) = p_mutex p"
  "p_notify (goto i w p) = p_notify p"
  "p_stop_notified (goto i w p) = p_stop_notified p"
  "p_submitted (goto i w p) = p_submitted p"
  "p_started (goto i w p) = p_started p"
  "p_done (goto i w p) = p_done p"
  "p_mark (goto i w p) = p_mark p"
  by (simp_all add: goto_def)

lemma addtask_simps [simp]:
  "p_threads (ThreadPool_addtask t p) = p_threads p"
  "p_queue (ThreadPool_addtask t p) = p_queue p @ [t]"
  "p_stop (ThreadPool_addtask t p) = p_stop p"
  "p_mutex (ThreadPool_addtask t p) = p_mutex p"
  "p_notify (ThreadPool_addtask t p) = Suc (p_notify p)"
  "p_stop_notified (ThreadPool_addtask t p) = p_stop_notified p"
  "p_submitted (ThreadPool_addtask t p) = p_submitted p @ [t]"
  "p_started (ThreadPool_addtask t p) = p_started p"
  "p_done (ThreadPool_addtask t p) = p_done p"
  "p_mark (ThreadPool_addtask t p) = p_mark p"
  by (simp_all add: ThreadPool_addtask_def)

subsection \<open>Invariants\<close>

text \<open>The mutex: held by the thread that is between locking and releasing it, and no other.\<close>

definition holds_mutex :: "'t thread_state \<Rightarrow> bool" where
  "holds_mutex w \<longleftrightarrow> w = At_predicate \<or> w = At_wait \<or> w = Past_wait"

lemma holds_mutex_simps [simp]:
  "\<not> holds_mutex At_loop" "\<not> holds_mutex At_lock" "holds_mutex At_predicate" "holds_mutex At_wait"
  "\<not> holds_mutex Asleep" "\<not> holds_mutex Woken" "holds_mutex Past_wait"
  "\<not> holds_mutex (Running t)" "\<not> holds_mutex Exited"
  by (simp_all add: holds_mutex_def)

definition mutex_inv :: "'t pool \<Rightarrow> bool" where
  "mutex_inv p \<longleftrightarrow>
     (\<forall>i < length (p_threads p). holds_mutex (p_threads p ! i) \<longleftrightarrow> p_mutex p = Some i) \<and>
     (\<forall>i. p_mutex p = Some i \<longrightarrow> i < length (p_threads p))"

text \<open>What the predicate of the wait has established while the mutex is still held.\<close>

definition predicate_inv :: "'t pool \<Rightarrow> bool" where
  "predicate_inv p \<longleftrightarrow>
     (\<forall>i < length (p_threads p). (p_threads p ! i = Past_wait \<longrightarrow> wait_predicate p) \<and>
       (p_threads p ! i = At_wait \<longrightarrow> p_queue p = []))"

definition running_task :: "'t thread_state \<Rightarrow> 't list" where
  "running_task w = (case w of Running t \<Rightarrow> [t] | _ \<Rightarrow> [])"

definition running :: "'t thread_state list \<Rightarrow> 't list" where
  "running ws = concat (map running_task ws)"

text \<open>
  The tasks: they are started in the order in which they were submitted, each once, and a
  started task is running or done.
\<close>

definition task_inv :: "'t pool \<Rightarrow> bool" where
  "task_inv p \<longleftrightarrow> p_started p @ p_queue p = p_submitted p \<and>
     mset (p_started p) = mset (p_done p) + mset (running (p_threads p))"

text \<open>
  As long as the pool is not stopped no thread leaves, and if a thread sleeps then for every
  queued task there is a notification still to come or another thread on its way to the
  queue.
\<close>

definition eager :: "'t thread_state \<Rightarrow> nat" where
  "eager w = (case w of At_loop \<Rightarrow> 1 | At_lock \<Rightarrow> 1 | At_predicate \<Rightarrow> 1 | Past_wait \<Rightarrow> 1 | Woken \<Rightarrow> 1
     | _ \<Rightarrow> 0)"

definition awake_inv :: "'t pool \<Rightarrow> bool" where
  "awake_inv p \<longleftrightarrow> (\<not> p_stop p \<longrightarrow>
     Exited \<notin> set (p_threads p) \<and>
     (Asleep \<in> set (p_threads p) \<longrightarrow>
        length (p_queue p) \<le> p_notify p + sum_list (map eager (p_threads p))))"

text \<open>
  The number of threads that may still take a task after \<^verbatim>\<open>stop_\<close> has been set: those that
  are past the test of the loop.
\<close>

definition past_test :: "'t thread_state \<Rightarrow> nat" where
  "past_test w = (case w of At_loop \<Rightarrow> 0 | Running _ \<Rightarrow> 0 | Exited \<Rightarrow> 0 | _ \<Rightarrow> 1)"

definition stop_inv :: "'t pool \<Rightarrow> bool" where
  "stop_inv p \<longleftrightarrow> (p_stop p \<longrightarrow>
     length (p_started p) + sum_list (map past_test (p_threads p)) \<le> p_mark p + length (p_threads p))"

definition pool_inv :: "'t pool \<Rightarrow> bool" where
  "pool_inv p \<longleftrightarrow> mutex_inv p \<and> predicate_inv p \<and> task_inv p \<and> awake_inv p \<and> stop_inv p"

subsubsection \<open>Sums over the threads\<close>

lemma sum_list_update_nat:
  fixes f :: "'a \<Rightarrow> nat"
  assumes "i < length xs"
  shows "sum_list (map f (xs[i := w])) + f (xs ! i) = sum_list (map f xs) + f w"
  using assms by (induction xs arbitrary: i) (auto simp: nth_Cons split: nat.splits)

lemma sum_list_update_eq:
  fixes f :: "'a \<Rightarrow> nat"
  assumes "i < length xs"
  shows "sum_list (map f (xs[i := w])) = sum_list (map f xs) + f w - f (xs ! i)"
  using sum_list_update_nat [OF assms, of f w] by simp

lemma sum_list_ge_nth:
  fixes f :: "'a \<Rightarrow> nat"
  assumes "i < length xs"
  shows "f (xs ! i) \<le> sum_list (map f xs)"
  using assms by (simp add: member_le_sum_list)

lemma running_update_add:
  assumes "i < length xs"
  shows "mset (running (xs[i := w])) + mset (running_task (xs ! i)) =
    mset (running xs) + mset (running_task w)"
  using assms
  by (induction xs arbitrary: i) (auto simp: running_def nth_Cons split: nat.splits)

lemma running_update_eq:
  assumes "i < length xs"
  shows "mset (running (xs[i := w])) =
    mset (running xs) + mset (running_task w) - mset (running_task (xs ! i))"
  using running_update_add [OF assms, of w] by (metis add_diff_cancel_right')

lemma running_ge_nth:
  assumes "i < length xs"
  shows "mset (running_task (xs ! i)) \<subseteq># mset (running xs)"
  using assms
  by (induction xs arbitrary: i)
    (auto simp: running_def nth_Cons subset_mset.add_increasing split: nat.splits)

lemma running_size_le: "length (running ws) \<le> length ws"
  by (induction ws) (auto simp: running_def running_task_def split: thread_state.splits)

lemma mutex_invD:
  "mutex_inv p \<Longrightarrow> i < length (p_threads p) \<Longrightarrow> holds_mutex (p_threads p ! i) \<longleftrightarrow> p_mutex p = Some i"
  by (simp add: mutex_inv_def)

lemma thread_step_index: "thread_step i p p' \<Longrightarrow> i < length (p_threads p)"
  by (cases rule: thread_step.cases) (auto simp: at_def)

lemma running_wake [simp]: "running (map (\<lambda>w. if w = Asleep then Woken else w) ws) = running ws"
  by (induction ws) (auto simp: running_def running_task_def)

lemma sum_list_le_length:
  assumes "\<And>x. f x \<le> (1::nat)"
  shows "sum_list (map f xs) \<le> length xs"
proof (induction xs)
  case (Cons x xs)
  with assms [of x] show ?case by simp
qed simp

lemma past_test_le: "past_test w \<le> 1"
  by (simp add: past_test_def split: thread_state.splits)

lemma past_test_wake [simp]: "past_test \<circ> (\<lambda>w. if w = Asleep then Woken else w) = past_test"
  by (auto simp: past_test_def fun_eq_iff)

lemma set_update_iff:
  "i < length xs \<Longrightarrow> y \<in> set (xs[i := w]) \<Longrightarrow> y = w \<or> y \<in> set xs"
  by (meson in_mono insertE set_update_subset_insert)

subsubsection \<open>Every step keeps them\<close>

lemma mutex_inv_step:
  assumes "mutex_inv p" and "pool_step p p'"
  shows "mutex_inv p'"
  using assms(2)
proof (cases rule: pool_step_cases)
  case (thread i)
  show ?thesis using thread assms(1) mutex_invD [OF assms(1) thread_step_index [OF thread]]
    by (cases rule: thread_step.cases) (auto simp: mutex_inv_def at_def nth_list_update)
next
  case env
  then show ?thesis using assms(1)
    by (cases rule: env_step.cases) (auto simp: mutex_inv_def at_def nth_list_update)
qed

lemma predicate_inv_step:
  assumes "mutex_inv p" and "predicate_inv p" and "pool_step p p'"
  shows "predicate_inv p'"
  using assms(3)
proof (cases rule: pool_step_cases)
  case (thread i)
  have others: "p_threads p ! j \<noteq> Past_wait \<and> p_threads p ! j \<noteq> At_wait"
    if "holds_mutex (p_threads p ! i)" "j < length (p_threads p)" "j \<noteq> i" for j
    using that mutex_invD [OF assms(1)] thread_step_index [OF thread]
    by (metis holds_mutex_simps(4,7) option.inject)
  show ?thesis using thread assms(2) others
    by (cases rule: thread_step.cases)
      (auto simp: predicate_inv_def wait_predicate_def at_def nth_list_update)
next
  case env
  have "p_threads p ! j \<noteq> At_wait" if "p_mutex p = None" "j < length (p_threads p)" for j
    using that mutex_invD [OF assms(1)] by force
  with env show ?thesis using assms(2)
    by (cases rule: env_step.cases)
      (auto simp: predicate_inv_def wait_predicate_def at_def nth_list_update)
qed

lemma task_inv_step:
  assumes "task_inv p" and "pool_step p p'"
  shows "task_inv p'"
  using assms(2)
proof (cases rule: pool_step_cases)
  case (thread i)
  show ?thesis using thread assms(1) running_ge_nth [OF thread_step_index [OF thread]]
    by (cases rule: thread_step.cases)
      (auto simp: task_inv_def at_def running_task_def running_update_eq)
next
  case env
  then show ?thesis using assms(1)
    by (cases rule: env_step.cases)
      (auto simp: task_inv_def at_def running_task_def running_update_eq)
qed

lemma stop_inv_step:
  assumes "stop_inv p" and "pool_step p p'"
  shows "stop_inv p'"
  using assms(2)
proof (cases rule: pool_step_cases)
  case (thread i)
  show ?thesis
    using thread assms(1) sum_list_ge_nth [OF thread_step_index [OF thread], where f = past_test]
    by (cases rule: thread_step.cases)
      (auto simp: stop_inv_def at_def past_test_def sum_list_update_eq)
next
  case env
  have "sum_list (map past_test (p_threads p)) \<le> length (p_threads p)"
    using past_test_le by (rule sum_list_le_length)
  with env show ?thesis using assms(1)
    by (cases rule: env_step.cases)
      (auto simp: stop_inv_def at_def past_test_def sum_list_update_eq)
qed

lemma awake_inv_step:
  assumes "mutex_inv p" and "predicate_inv p" and "awake_inv p" and "pool_step p p'"
  shows "awake_inv p'"
  using assms(4)
proof (cases rule: pool_step_cases)
  case (thread i)
  show ?thesis
    using thread assms(1-3) sum_list_ge_nth [OF thread_step_index [OF thread], where f = eager]
    by (cases rule: thread_step.cases)
      (auto simp: awake_inv_def predicate_inv_def wait_predicate_def at_def eager_def
        sum_list_update_eq dest: set_update_iff)
next
  case env
  then show ?thesis using assms(3)
    by (cases rule: env_step.cases)
      (auto simp: awake_inv_def at_def eager_def sum_list_update_eq in_set_conv_nth nth_list_update)
qed

lemma ThreadPool_new_inv: "pool_inv (ThreadPool_new n)"
  by (auto simp: pool_inv_def ThreadPool_new_def mutex_inv_def predicate_inv_def task_inv_def
      awake_inv_def stop_inv_def running_def running_task_def)

lemma pool_inv_step: "pool_inv p \<Longrightarrow> pool_step p p' \<Longrightarrow> pool_inv p'"
  unfolding pool_inv_def
  by (blast intro: mutex_inv_step predicate_inv_step task_inv_step awake_inv_step stop_inv_step)

interpretation pool: invariant_system "pool_init n" pool_step pool_inv for n
  by unfold_locales (auto simp: pool_init_def ThreadPool_new_inv intro: pool_inv_step)

lemma pool_threads_step: "pool_step p p' \<Longrightarrow> length (p_threads p') = length (p_threads p)"
  by (cases rule: pool_step_cases, assumption)
    (auto elim!: thread_step.cases env_step.cases)

interpretation pool_length:
  invariant_system "pool_init n" pool_step "\<lambda>p. length (p_threads p) = n" for n
  by unfold_locales (auto simp: pool_init_def ThreadPool_new_def pool_threads_step)

subsection \<open>Runs that show what stopping does\<close>

lemma reachable_thread:
  "reachable (pool_init n) pool_step p \<Longrightarrow> thread_step i p p' \<Longrightarrow> reachable (pool_init n) pool_step p'"
  by (rule reachable.move) (auto simp: pool_step_def)

lemma reachable_env:
  "reachable (pool_init n) pool_step p \<Longrightarrow> env_step p p' \<Longrightarrow> reachable (pool_init n) pool_step p'"
  by (rule reachable.move) (auto simp: pool_step_def)

lemma threads_leave:
  assumes "reachable (pool_init n) pool_step p" and "p_stop p"
    and "p_threads p = ws @ replicate k At_loop"
  shows "reachable (pool_init n) pool_step (p\<lparr>p_threads := ws @ replicate k Exited\<rparr>)"
  using assms
proof (induction k arbitrary: p ws)
  case 0
  then have "p\<lparr>p_threads := ws\<rparr> = p" by simp
  with 0(1) show ?case by (simp only: replicate_0 append_Nil2)
next
  case (Suc k)
  let ?p = "goto (length ws) Exited p"
  have "at p (length ws) At_loop"
    using Suc.prems(3) by (simp add: at_def)
  then have "thread_step (length ws) p ?p"
    using Suc.prems(2) by (rule thread_step.loop_end)
  with Suc.prems(1) have "reachable (pool_init n) pool_step ?p"
    by (rule reachable_thread)
  moreover have "p_threads ?p = (ws @ [Exited]) @ replicate k At_loop"
    using Suc.prems(3) by (simp add: list_update_append)
  ultimately have "reachable (pool_init n) pool_step
      (?p\<lparr>p_threads := (ws @ [Exited]) @ replicate k Exited\<rparr>)"
    using Suc.prems(2) by (intro Suc.IH) simp_all
  then show ?case by (simp add: goto_def)
qed

lemma tasks_pushed:
  "reachable (pool_init n) pool_step
     ((ThreadPool_new n)\<lparr>p_queue := ts, p_submitted := ts, p_notify := length ts\<rparr>)"
proof (induction ts rule: rev_induct)
  case Nil
  have "(ThreadPool_new n)\<lparr>p_queue := [], p_submitted := [], p_notify := length []\<rparr> = ThreadPool_new n"
    by (simp add: ThreadPool_new_def)
  then show ?case
    by (metis (mono_tags) pool_init_def reachable.start)
next
  case (snoc t ts)
  let ?p = "(ThreadPool_new n)\<lparr>p_queue := ts, p_submitted := ts, p_notify := length ts\<rparr>"
  have "env_step ?p (ThreadPool_addtask t ?p)"
    by (rule env_step.addtask_push) (simp add: ThreadPool_new_def)
  from reachable_env [OF snoc.IH this] show ?case by (simp add: ThreadPool_addtask_def)
qed

text \<open>
  A thread that has evaluated the predicate and not yet blocked, when \<^verbatim>\<open>Stop\<close> sets the flag
  and notifies.
\<close>

definition stop_missed :: "nat \<Rightarrow> 't pool" where
  "stop_missed n = (ThreadPool_new (Suc n))
     \<lparr>p_threads := Asleep # replicate n Exited, p_stop := True, p_stop_notified := True\<rparr>"

lemma stop_missed_reachable: "reachable (pool_init (Suc n)) pool_step (stop_missed n :: 't pool)"
proof -
  let ?R = "reachable (pool_init (Suc n)) pool_step"
  let ?q0 = "ThreadPool_new (Suc n) :: 't pool"
  define q1 where "q1 = goto 0 At_lock ?q0"
  define q2 where "q2 = goto 0 At_predicate (q1\<lparr>p_mutex := Some 0\<rparr>)"
  define q3 where "q3 = goto 0 At_wait q2"
  define q4 where "q4 = q3\<lparr>p_stop := True, p_mark := length (p_started q3)\<rparr>"
  define q5 where "q5 = q4\<lparr>p_stop_notified := True,
    p_threads := map (\<lambda>w. if w = Asleep then Woken else w) (p_threads q4)\<rparr>"
  define q6 where "q6 = goto 0 Asleep (q5\<lparr>p_mutex := None\<rparr>)"
  note defs = q1_def q2_def q3_def q4_def q5_def q6_def ThreadPool_new_def at_def wait_predicate_def
  have "?R ?q0" by (rule reachable.start) (simp add: pool_init_def)
  then have "?R q1" by (rule reachable_thread) (auto simp: defs intro!: thread_step.loop_again)
  then have "?R q2" by (rule reachable_thread) (auto simp: defs intro!: thread_step.lock)
  then have "?R q3" by (rule reachable_thread) (auto simp: defs intro!: thread_step.predicate_false)
  moreover have "env_step q3 q4" unfolding q4_def by (rule env_step.stop_set) (simp add: defs)
  ultimately have "?R q4" by (rule reachable_env)
  moreover have "env_step q4 q5" unfolding q5_def by (rule env_step.stop_notify) (simp_all add: defs)
  ultimately have "?R q5" by (rule reachable_env)
  then have "?R q6" by (rule reachable_thread) (auto simp: defs intro!: thread_step.block)
  then have "?R (q6\<lparr>p_threads := [Asleep] @ replicate n Exited\<rparr>)"
    by (rule threads_leave) (simp_all add: defs)
  moreover have "q6\<lparr>p_threads := [Asleep] @ replicate n Exited\<rparr> = (stop_missed n :: 't pool)"
    by (simp add: defs stop_missed_def goto_def)
  ultimately show ?thesis by simp
qed

lemma stop_missed_stuck: "\<not> thread_step i (stop_missed n) p'"
  by (auto simp: stop_missed_def at_def ThreadPool_new_def nth_Cons elim!: thread_step.cases
      split: nat.splits)

text \<open>The flag is set while tasks are queued and no thread has moved yet; a thread has gone to sleep.\<close>

definition stopped_pool :: "nat \<Rightarrow> 't list \<Rightarrow> 't pool" where
  "stopped_pool n ts = (ThreadPool_new n)
     \<lparr>p_queue := ts, p_submitted := ts, p_notify := length ts, p_stop := True\<rparr>"

lemma stopped_pool_reachable: "reachable (pool_init n) pool_step (stopped_pool n ts)"
proof -
  let ?q = "(ThreadPool_new n)\<lparr>p_queue := ts, p_submitted := ts, p_notify := length ts\<rparr>"
  have "env_step ?q (?q\<lparr>p_stop := True, p_mark := length (p_started ?q)\<rparr>)"
    by (rule env_step.stop_set) (simp add: ThreadPool_new_def)
  from reachable_env [OF tasks_pushed this] show ?thesis
    by (simp add: stopped_pool_def ThreadPool_new_def)
qed

definition sleeping_pool :: "'t \<Rightarrow> 't pool" where
  "sleeping_pool t = ThreadPool_addtask t ((ThreadPool_new 1)\<lparr>p_threads := [Asleep]\<rparr>)"

lemma sleeping_pool_reachable: "reachable (pool_init 1) pool_step (sleeping_pool t)"
proof -
  let ?R = "reachable (pool_init 1) pool_step" and ?p0 = "ThreadPool_new 1 :: 'a pool"
  define p1 where "p1 = goto 0 At_lock ?p0"
  define p2 where "p2 = goto 0 At_predicate (p1\<lparr>p_mutex := Some 0\<rparr>)"
  define p3 where "p3 = goto 0 At_wait p2"
  define p4 where "p4 = goto 0 Asleep (p3\<lparr>p_mutex := None\<rparr>)"
  note defs = p1_def p2_def p3_def p4_def ThreadPool_new_def at_def wait_predicate_def
  have "?R ?p0" by (rule reachable.start) (simp add: pool_init_def)
  then have "?R p1" by (rule reachable_thread) (auto simp: defs intro!: thread_step.loop_again)
  then have "?R p2" by (rule reachable_thread) (auto simp: defs intro!: thread_step.lock)
  then have "?R p3" by (rule reachable_thread) (auto simp: defs intro!: thread_step.predicate_false)
  then have "?R p4" by (rule reachable_thread) (auto simp: defs intro!: thread_step.block)
  then have "?R (ThreadPool_addtask t p4)"
    by (rule reachable_env) (rule env_step.addtask_push, simp add: defs)
  then show ?thesis
    by (simp add: sleeping_pool_def p1_def p2_def p3_def p4_def goto_def ThreadPool_new_def)
qed

subsection \<open>After a stop\<close>

text \<open>
  The steps a thread has left once \<^verbatim>\<open>stop_\<close> is set. A thread that goes to sleep then has missed
  the notification.
\<close>

definition steps_left :: "'t thread_state \<Rightarrow> nat" where
  "steps_left w = (case w of At_lock \<Rightarrow> 5 | Woken \<Rightarrow> 5 | At_predicate \<Rightarrow> 4 | Past_wait \<Rightarrow> 3
     | Running _ \<Rightarrow> 2 | At_loop \<Rightarrow> 1 | At_wait \<Rightarrow> 1 | Asleep \<Rightarrow> 0 | Exited \<Rightarrow> 0)"

definition pool_left :: "'t pool \<Rightarrow> nat" where
  "pool_left p = sum_list (map steps_left (p_threads p))"

definition missed_stop :: "'t pool \<Rightarrow> bool" where
  "missed_stop p \<longleftrightarrow> Asleep \<in> set (p_threads p) \<or> At_wait \<in> set (p_threads p)"

definition threads_step :: "'t pool \<Rightarrow> 't pool \<Rightarrow> bool" where
  "threads_step p p' \<longleftrightarrow> (\<exists>i. thread_step i p p')"

lemma stopped_thread_step:
  assumes "p_stop p" and "thread_step i p p'"
  shows "p_stop p' \<and> pool_left p' < pool_left p \<and> (missed_stop p' \<longrightarrow> missed_stop p)"
  using assms(2,1) sum_list_ge_nth [OF thread_step_index [OF assms(2)], where f = steps_left]
    nth_mem [OF thread_step_index [OF assms(2)]]
  by (cases rule: thread_step.cases)
    (auto simp: pool_left_def missed_stop_def at_def steps_left_def wait_predicate_def
      sum_list_update_eq dest: set_update_iff)

lemma stopped_progress:
  assumes "mutex_inv p" and "p_stop p" and "Asleep \<notin> set (p_threads p)" and "\<not> joinable p"
  shows "\<exists>p'. threads_step p p'"
proof (cases "p_mutex p")
  case None
  from assms(4) obtain i where i: "i < length (p_threads p)" "p_threads p ! i \<noteq> Exited"
    by (auto simp: joinable_def in_set_conv_nth)
  then have "at p i (p_threads p ! i)" by (simp add: at_def)
  moreover have "\<not> holds_mutex (p_threads p ! i)" and "p_threads p ! i \<noteq> Asleep"
    using assms(1,3) i(1) None nth_mem [OF i(1)] by (auto simp: mutex_inv_def simp del: nth_mem)
  ultimately show ?thesis
    using i(2) assms(2) None unfolding threads_step_def
    by (cases "p_threads p ! i") (auto intro: thread_step.intros)
next
  case (Some i)
  with assms(1) have "holds_mutex (p_threads p ! i)" and "at p i (p_threads p ! i)"
    by (auto simp: mutex_inv_def at_def)
  moreover have "wait_predicate p" using assms(2) by (simp add: wait_predicate_def)
  ultimately show ?thesis
    using assms(2) unfolding threads_step_def
    by (cases "p_threads p ! i"; cases "p_queue p") (auto intro: thread_step.intros)
qed

lemma stopped_run:
  assumes "threads_step\<^sup>*\<^sup>* p p'" and "p_stop p" and "\<not> missed_stop p"
  shows "p_stop p' \<and> \<not> missed_stop p' \<and> pool_step\<^sup>*\<^sup>* p p'"
  using assms
proof (induction rule: rtranclp_induct)
  case (step q q')
  then obtain i where "thread_step i q q'" by (auto simp: threads_step_def)
  moreover from this have "pool_step q q'" by (auto simp: pool_step_def)
  ultimately show ?case
    using step stopped_thread_step by (blast intro: rtranclp.rtrancl_into_rtrancl)
qed simp

lemma stopped_run_length:
  "(threads_step ^^ k) p p' \<Longrightarrow> p_stop p \<Longrightarrow> k + pool_left p' \<le> pool_left p"
proof (induction k arbitrary: p)
  case (Suc k)
  then obtain q where "threads_step p q" "(threads_step ^^ k) q p'" by (meson relpowp_Suc_E2)
  moreover from this Suc.prems(2) have "p_stop q" "pool_left q < pool_left p"
    using stopped_thread_step by (auto simp: threads_step_def)
  ultimately show ?case using Suc.IH [of q] by simp
qed simp

subsection \<open>Properties\<close>

text \<open>
  The worker pool runs tasks first in, first out, and neither loses nor repeats one: in
  every reachable state the started tasks followed by the queue are the submitted tasks, and
  every started task is either done or being run by exactly one thread.
\<close>

theorem pool_runs_tasks_in_order:
  assumes "reachable (pool_init n) pool_step p"
  shows "p_started p @ p_queue p = p_submitted p \<and>
    mset (p_started p) = mset (p_done p) + mset (running (p_threads p))"
  using pool.reachable_inv [OF assms] by (simp add: pool_inv_def task_inv_def)

lemma pool_runs_tasks_in_order_witness:
  "let p = (ThreadPool_new 2)\<lparr>p_queue := ''ab'', p_submitted := ''ab'', p_notify := length ''ab''\<rparr> in
   p_started p @ p_queue p = p_submitted p \<and>
     mset (p_started p) = mset (p_done p) + mset (running (p_threads p))"
  unfolding Let_def by (rule pool_runs_tasks_in_order [OF tasks_pushed])

text \<open>
  Mutual exclusion: of two different threads at most one is between locking and unlocking
  the mutex of the pool, where it evaluates the predicate and takes a task off the queue.
\<close>

theorem pool_mutual_exclusion:
  assumes "reachable (pool_init n) pool_step p" and "i < n" and "j < n" and "i \<noteq> j"
    and "holds_mutex (p_threads p ! i)"
  shows "\<not> holds_mutex (p_threads p ! j) \<and> p_mutex p = Some i"
  using pool.reachable_inv [OF assms(1)] pool_length.reachable_inv [OF assms(1)] assms(2-)
  by (simp add: pool_inv_def mutex_inv_def)

lemma pool_mutual_exclusion_witness:
  "let p = goto 0 At_predicate (goto 0 At_lock (ThreadPool_new 2)\<lparr>p_mutex := Some 0\<rparr>) :: nat pool in
   \<not> holds_mutex (p_threads p ! 1) \<and> p_mutex p = Some 0"
proof -
  let ?p0 = "ThreadPool_new 2 :: nat pool" and ?p1 = "goto 0 At_lock (ThreadPool_new 2) :: nat pool"
  have new: "at ?p0 0 At_loop" "\<not> p_stop ?p0" "p_mutex ?p0 = None"
    by (simp_all add: at_def ThreadPool_new_def)
  have "reachable (pool_init 2) pool_step ?p0"
    by (rule reachable.start) (simp add: pool_init_def)
  then have "reachable (pool_init 2) pool_step ?p1"
    by (rule reachable_thread) (rule thread_step.loop_again [OF new(1,2)])
  then have "reachable (pool_init 2) pool_step (goto 0 At_predicate (?p1\<lparr>p_mutex := Some 0\<rparr>))"
    by (rule reachable_thread) (rule thread_step.lock, simp_all add: at_def ThreadPool_new_def)
  from pool_mutual_exclusion [OF this, of 0 1] show ?thesis
    by (simp add: Let_def ThreadPool_new_def)
qed

text \<open>
  C21. No task is forgotten: while the pool is not stopped, a thread sleeps only if for every
  queued task there is another thread on its way to the queue or a notification that
  \<^verbatim>\<open>addtask\<close> is about to give.
\<close>

lemma sum_eager: "sum_list (map eager ws) = length (filter (\<lambda>w. eager w = 1) ws)"
  by (induction ws) (auto simp: eager_def split: thread_state.splits)

theorem pool_sleeps_only_when_served:
  assumes "reachable (pool_init n) pool_step p" and "\<not> p_stop p" and "at p i Asleep"
  shows "length (p_queue p) \<le> p_notify p + length (filter (\<lambda>w. eager w = 1) (p_threads p))"
proof -
  have "Asleep \<in> set (p_threads p)"
    using assms(3) by (auto simp: at_def in_set_conv_nth)
  then show ?thesis
    using pool.reachable_inv [OF assms(1)] assms(2)
    by (simp add: pool_inv_def awake_inv_def sum_eager)
qed

lemma pool_sleeps_only_when_served_witness:
  "length (p_queue (sleeping_pool (7 :: nat))) \<le> p_notify (sleeping_pool (7 :: nat)) +
     length (filter (\<lambda>w. eager w = 1) (p_threads (sleeping_pool (7 :: nat))))"
  by (rule pool_sleeps_only_when_served [OF sleeping_pool_reachable, of _ 0])
    (simp_all add: sleeping_pool_def ThreadPool_new_def at_def)

text \<open>
  After \<^verbatim>\<open>Stop\<close> has set the flag, every thread takes at most one more task.
\<close>

theorem pool_stop_bound:
  assumes "reachable (pool_init n) pool_step p" and "p_stop p"
  shows "length (p_started p) \<le> p_mark p + n"
  using pool.reachable_inv [OF assms(1)] pool_length.reachable_inv [OF assms(1)] assms(2)
  by (simp add: pool_inv_def stop_inv_def)

lemma pool_stop_bound_witness: "length (p_started (stopped_pool 2 ''abc'')) \<le> p_mark (stopped_pool 2 ''abc'') + 2"
  by (rule pool_stop_bound [OF stopped_pool_reachable]) (simp add: stopped_pool_def)

text \<open>
  C14. \<^verbatim>\<open>Stop\<close> returns if no thread has missed it: from a state where the flag is set and no
  thread sleeps or is about to, a schedule of the threads has at most \<open>pool_left\<close> steps, whichever thread moves in each
  of them, for every step decreases that number; and where no thread can move any more, all of them can be joined.
\<close>

theorem pool_stop_joins:
  assumes "reachable (pool_init n) pool_step p" and "p_stop p" and "\<not> missed_stop p"
    and "(threads_step ^^ k) p p'"
  shows "k + pool_left p' \<le> pool_left p \<and> (\<forall>p''. threads_step p' p'' \<longrightarrow> pool_left p'' < pool_left p') \<and>
    (joinable p' \<or> (\<exists>p''. threads_step p' p''))"
proof -
  have run: "threads_step\<^sup>*\<^sup>* p p'" using assms(4) by (rule relpowp_imp_rtranclp)
  have stop: "p_stop p'" "\<not> missed_stop p'" "pool_step\<^sup>*\<^sup>* p p'"
    using stopped_run [OF run assms(2,3)] by auto
  have "mutex_inv p'"
    using pool.steps_inv [OF stop(3)] pool.reachable_inv [OF assms(1)] by (simp add: pool_inv_def)
  with stop(1,2) have "joinable p' \<or> (\<exists>p''. threads_step p' p'')"
    using stopped_progress [of p'] by (auto simp: missed_stop_def)
  moreover have "\<forall>p''. threads_step p' p'' \<longrightarrow> pool_left p'' < pool_left p'"
    using stopped_thread_step [OF stop(1)] by (auto simp: threads_step_def)
  ultimately show ?thesis using stopped_run_length [OF assms(4,2)] by blast
qed

lemma pool_stop_joins_witness:
  "let p = stopped_pool 2 ''abc''; p' = goto 0 Exited p in
   1 + pool_left p' \<le> pool_left p \<and> (\<forall>p''. threads_step p' p'' \<longrightarrow> pool_left p'' < pool_left p') \<and>
   (joinable p' \<or> (\<exists>p''. threads_step p' p''))"
proof -
  have "thread_step 0 (stopped_pool 2 ''abc'') (goto 0 Exited (stopped_pool 2 ''abc''))"
    by (rule thread_step.loop_end) (simp_all add: stopped_pool_def ThreadPool_new_def at_def)
  then have "(threads_step ^^ 1) (stopped_pool 2 ''abc'') (goto 0 Exited (stopped_pool 2 ''abc''))"
    unfolding relpowp_1 threads_step_def by blast
  then show ?thesis
    unfolding Let_def
    by (intro pool_stop_joins [OF stopped_pool_reachable])
      (simp_all add: stopped_pool_def ThreadPool_new_def missed_stop_def)
qed

text \<open>
  C35. \<^verbatim>\<open>Stop\<close> drops what is queued: for every list of tasks there is a run in which they are
  submitted, \<^verbatim>\<open>Stop\<close> returns, and none of them has been started. (The loop tests the flag
  before it looks at the queue.)
\<close>

theorem pool_stop_drops_tasks:
  "\<exists>p. reachable (pool_init n) pool_step p \<and> joinable p \<and> p_stop p \<and>
     p_submitted p = ts \<and> p_queue p = ts \<and> p_started p = []"
proof -
  let ?e = "(stopped_pool n ts)\<lparr>p_threads := [] @ replicate n Exited\<rparr>"
  have "reachable (pool_init n) pool_step ?e"
    by (rule threads_leave [OF stopped_pool_reachable]) (simp_all add: stopped_pool_def ThreadPool_new_def)
  then show ?thesis
    by (intro exI [of _ ?e]) (simp add: stopped_pool_def ThreadPool_new_def joinable_def)
qed

text \<open>
  \<^verbatim>\<open>Stop\<close> can hang: it sets the flag and notifies without the mutex, so a thread that has
  just found the predicate false goes to sleep after the notification. There is a reachable
  state in which both have been done and one thread sleeps, no thread can move, and \<^verbatim>\<open>join\<close>
  waits for ever.
\<close>

theorem pool_stop_can_hang:
  "\<exists>p. reachable (pool_init (Suc n)) pool_step p \<and> p_stop p \<and> p_stop_notified p \<and> p_notify p = 0 \<and>
     \<not> joinable p \<and> (\<forall>p'. \<not> threads_step p p')"
proof (intro exI conjI)
  show "reachable (pool_init (Suc n)) pool_step (stop_missed n)" by (rule stop_missed_reachable)
  show "\<forall>p'. \<not> threads_step (stop_missed n) p'" by (simp add: threads_step_def stop_missed_stuck)
qed (simp_all add: stop_missed_def ThreadPool_new_def joinable_def)

end
