(* ===== verification/TcpServer.thy ===== *)
theory TcpServer
  imports Loop_Timer ThreadPool
begin

text \<open>
  \<^verbatim>\<open>Acceptor.cpp\<close> and \<^verbatim>\<open>TcpServer.cpp\<close>: the listening socket, the event loops, and the
  registry of the connections. The server keeps every connection twice, in its own map and in
  the map of the event loop that serves it.

  The callbacks that a connection makes into the server work on the connection, its loop and
  the server; \<open>'x\<close> is what belongs to the application (\<open>EchoServer\<close>), whose handlers \<open>app\<close>
  runs.
\<close>

subsection \<open>Acceptor\<close>

datatype newconnection_cb = Cb_newconnection

record acceptor =
  ac_loop :: "nat option"
  ac_servsock :: socket
  ac_acceptchannel :: channel
  ac_newconnectioncb :: "newconnection_cb option"

text \<open>
  The constructor: \<open>rcs\<close> are the results of \<^verbatim>\<open>socket\<close>, \<^verbatim>\<open>bind\<close> and \<^verbatim>\<open>listen\<close>; the option
  requests it makes are a result.
\<close>

definition Acceptor_new ::
  "epoll_ctl \<Rightarrow> (bytes \<Rightarrow> u32) \<Rightarrow> (u32 \<Rightarrow> bytes) \<Rightarrow> u16 \<Rightarrow> int \<times> int \<times> int \<Rightarrow> nat option \<Rightarrow> bytes \<Rightarrow> u16 \<Rightarrow>
   epoll \<Rightarrow> (acceptor \<times> sockopt_request list \<times> epoll) res" where
  "Acceptor_new ctl inet_addr inet_ntoa garbage rcs loop ip port ep =
     (let (sockrc, bindrc, listenrc) = rcs in
      bind_res (createnonblocking sockrc) (\<lambda>listenfd.
      let servsock = Socket_new garbage listenfd;
          acceptchannel = Channel_new Accept_channel loop (so_fd servsock);
          servaddr = InetAddress_new inet_addr ip port;
          reqs = [Socket_setkeepalive True servsock, Socket_setreuseaddr True servsock,
                  Socket_settcpnodelay True servsock, Socket_setreuseport True servsock]
      in
      bind_res (Socket_bind inet_ntoa bindrc servaddr servsock) (\<lambda>servsock.
      bind_res (Socket_listen listenrc servsock) (\<lambda>servsock.
      bind_res (Channel_enablereading ctl
          (Channel_setreadcallback Cb_acceptor_newconnection acceptchannel) ep) (\<lambda>(acceptchannel, ep).
      Inr (\<lparr>ac_loop = loop, ac_servsock = servsock, ac_acceptchannel = acceptchannel,
            ac_newconnectioncb = None\<rparr>, reqs, ep))))))"

definition Acceptor_setnewconnectioncb :: "newconnection_cb \<Rightarrow> acceptor \<Rightarrow> acceptor" where
  "Acceptor_setnewconnectioncb fn a = a\<lparr>ac_newconnectioncb := Some fn\<rparr>"

text \<open>
  \<open>accepted\<close> is what \<^verbatim>\<open>accept4\<close> gives. There is no test of the descriptor: a failed accept
  is handed on as a socket with descriptor -1.
\<close>

definition Acceptor_newconnection ::
  "(u32 \<Rightarrow> bytes) \<Rightarrow> u16 \<Rightarrow> sockaddr_in \<Rightarrow> int \<times> sockaddr_in \<Rightarrow> (socket \<Rightarrow> 's \<Rightarrow> 's res) \<Rightarrow>
   acceptor \<Rightarrow> 's \<Rightarrow> 's res" where
  "Acceptor_newconnection inet_ntoa garbage blank accepted newconnection a s =
     (let (clientfd, clientaddr) = Socket_accept accepted blank;
          clientsock = Socket_setipport (InetAddress_ip inet_ntoa clientaddr)
            (InetAddress_port clientaddr) (Socket_new garbage clientfd)
      in case ac_newconnectioncb a of
           None \<Rightarrow> Inl Bad_function_call
         | Some Cb_newconnection \<Rightarrow> newconnection clientsock s)"

subsection \<open>The server\<close>

datatype handler =
    Cb_HandleNewConnection
  | Cb_HandleClose
  | Cb_HandleError
  | Cb_HandleMessage
  | Cb_HandleSendComplete

record tcpserver =
  ts_threadnum :: int
  ts_conns :: "nat omap"
  ts_newconnectioncb :: "handler option"
  ts_closeconnectioncb :: "handler option"
  ts_errorconnectioncb :: "handler option"
  ts_onmessagecb :: "handler option"
  ts_sendcompletecb :: "handler option"
  ts_timeoutcb :: "handler option"

type_synonym 'x world = "tcpserver \<times> 'x"
type_synonym 'x app_call =
  "handler \<Rightarrow> bytes \<Rightarrow> 'x world cstate \<Rightarrow> (bytes \<times> 'x world cstate) res"

text \<open>\<^verbatim>\<open>if (cb) cb(conn, ...)\<close>\<close>

definition call_handler ::
  "'x app_call \<Rightarrow> handler option \<Rightarrow> bytes \<Rightarrow> 'x world cstate \<Rightarrow> (bytes \<times> 'x world cstate) res" where
  "call_handler app f message s = (case f of None \<Rightarrow> Inr (message, s) | Some h \<Rightarrow> app h message s)"

definition server_of :: "'x world cstate \<Rightarrow> tcpserver" where
  "server_of s = fst (snd (snd s))"

definition erase_conn :: "int \<Rightarrow> 'x world \<Rightarrow> 'x world" where
  "erase_conn fd w = ((fst w)\<lparr>ts_conns := om_erase fd (ts_conns (fst w))\<rparr>, snd w)"

definition TcpServer_closeconnection ::
  "'x app_call \<Rightarrow> 'x world cstate \<Rightarrow> 'x world cstate res" where
  "TcpServer_closeconnection app s =
     bind_res (call_handler app (ts_closeconnectioncb (server_of s)) [] s) (\<lambda>(_, c, l, w).
     Inr (c, l, erase_conn (Connection_fd c) w))"

definition TcpServer_errorconnection ::
  "'x app_call \<Rightarrow> 'x world cstate \<Rightarrow> 'x world cstate res" where
  "TcpServer_errorconnection app s =
     bind_res (call_handler app (ts_errorconnectioncb (server_of s)) [] s) (\<lambda>(_, c, l, w).
     Inr (c, l, erase_conn (Connection_fd c) w))"

definition TcpServer_onmessage ::
  "'x app_call \<Rightarrow> bytes \<Rightarrow> 'x world cstate \<Rightarrow> (bytes \<times> 'x world cstate) res" where
  "TcpServer_onmessage app message s = call_handler app (ts_onmessagecb (server_of s)) message s"

definition TcpServer_sendcomplete ::
  "'x app_call \<Rightarrow> 'x world cstate \<Rightarrow> 'x world cstate res" where
  "TcpServer_sendcomplete app s =
     bind_res (call_handler app (ts_sendcompletecb (server_of s)) [] s) (\<lambda>(_, s). Inr s)"

definition TcpServer_epolltimeout ::
  "(handler \<Rightarrow> eventloop \<times> 'x world \<Rightarrow> (eventloop \<times> 'x world) res) \<Rightarrow> eventloop \<times> 'x world \<Rightarrow>
   (eventloop \<times> 'x world) res" where
  "TcpServer_epolltimeout app s =
     (case ts_timeoutcb (fst (snd s)) of None \<Rightarrow> Inr s | Some h \<Rightarrow> app h s)"

definition TcpServer_removeconn :: "int \<Rightarrow> 'x world \<Rightarrow> 'x world res" where
  "TcpServer_removeconn fd w = Inr (erase_conn fd w)"

text \<open>The callbacks that \<^verbatim>\<open>TcpServer::newconnection\<close> binds to a connection.\<close>

fun server_call :: "'x app_call \<Rightarrow> 'x world server_call" where
  "server_call app Cb_closeconnection message s =
     map_sum id (Pair message) (TcpServer_closeconnection app s)"
| "server_call app Cb_errorconnection message s =
     map_sum id (Pair message) (TcpServer_errorconnection app s)"
| "server_call app Cb_onmessage message s = TcpServer_onmessage app message s"
| "server_call app Cb_sendcomplete message s =
     map_sum id (Pair message) (TcpServer_sendcomplete app s)"

definition TcpServer_setnewconnectioncb :: "handler \<Rightarrow> tcpserver \<Rightarrow> tcpserver" where
  "TcpServer_setnewconnectioncb fn ts = ts\<lparr>ts_newconnectioncb := Some fn\<rparr>"

definition TcpServer_setcloseconnectioncb :: "handler \<Rightarrow> tcpserver \<Rightarrow> tcpserver" where
  "TcpServer_setcloseconnectioncb fn ts = ts\<lparr>ts_closeconnectioncb := Some fn\<rparr>"

definition TcpServer_seterrorconnectioncb :: "handler \<Rightarrow> tcpserver \<Rightarrow> tcpserver" where
  "TcpServer_seterrorconnectioncb fn ts = ts\<lparr>ts_errorconnectioncb := Some fn\<rparr>"

definition TcpServer_setonmessagecb :: "handler \<Rightarrow> tcpserver \<Rightarrow> tcpserver" where
  "TcpServer_setonmessagecb fn ts = ts\<lparr>ts_onmessagecb := Some fn\<rparr>"

definition TcpServer_setsendcompletecb :: "handler \<Rightarrow> tcpserver \<Rightarrow> tcpserver" where
  "TcpServer_setsendcompletecb fn ts = ts\<lparr>ts_sendcompletecb := Some fn\<rparr>"

definition TcpServer_settimeoutcb :: "handler \<Rightarrow> tcpserver \<Rightarrow> tcpserver" where
  "TcpServer_settimeoutcb fn ts = ts\<lparr>ts_timeoutcb := Some fn\<rparr>"

subsection \<open>The whole server\<close>

text \<open>
  The server with its event loops, the threads that run them, and the connection objects that
  exist. Loop 0 is the main loop, loop \<open>Suc i\<close> is \<^verbatim>\<open>subloops_[i]\<close>.
\<close>

datatype io_task = EventLoop_run_task nat

record 'x server =
  sv_mainloop :: eventloop
  sv_subloops :: "eventloop list"
  sv_acceptor :: acceptor
  sv_tcpserver :: tcpserver
  sv_threadpool :: "io_task pool"
  sv_heap :: "nat \<rightharpoonup> connection"
  sv_next :: nat
  sv_app :: 'x

definition TcpServer_subloop ::
  "epoll_ctl \<Rightarrow> nat \<Rightarrow> int \<times> int \<times> int \<Rightarrow> eventloop res" where
  "TcpServer_subloop ctl ii fds =
     bind_res (EventLoop_new ctl (Suc ii) fds False 5 10) (\<lambda>l.
     Inr (EventLoop_settimercallback Cb_removeconn
           (EventLoop_setepolltimeoutcallback Cb_epolltimeout l)))"

text \<open>The loop of the constructor, from index \<open>ii\<close> on: \<open>fdss\<close> are the descriptors of the loops to come.\<close>

fun TcpServer_subloops ::
  "epoll_ctl \<Rightarrow> nat \<Rightarrow> (int \<times> int \<times> int) list \<Rightarrow> eventloop list \<Rightarrow> io_task pool \<Rightarrow>
   (eventloop list \<times> io_task pool) res" where
  "TcpServer_subloops ctl ii [] ls p = Inr (ls, p)"
| "TcpServer_subloops ctl ii (fds # fdss) ls p =
     bind_res (TcpServer_subloop ctl ii fds) (\<lambda>l.
     TcpServer_subloops ctl (Suc ii) fdss (ls @ [l]) (ThreadPool_addtask (EventLoop_run_task ii) p))"

definition TcpServer_new ::
  "epoll_ctl \<Rightarrow> (bytes \<Rightarrow> u32) \<Rightarrow> (u32 \<Rightarrow> bytes) \<Rightarrow> u16 \<Rightarrow> int \<times> int \<times> int \<Rightarrow> int \<times> int \<times> int \<Rightarrow>
   (int \<times> int \<times> int) list \<Rightarrow> bytes \<Rightarrow> u16 \<Rightarrow> 'x \<Rightarrow> ('x server \<times> sockopt_request list) res" where
  "TcpServer_new ctl inet_addr inet_ntoa garbage rcs mainfds fdss ip port x =
     (let threadnum = length fdss in
      bind_res (EventLoop_new ctl 0 mainfds True 30 60) (\<lambda>mainloop.
      bind_res (Acceptor_new ctl inet_addr inet_ntoa garbage rcs (Some 0) ip port (el_ep mainloop))
        (\<lambda>(acceptor, reqs, ep).
      bind_res (TcpServer_subloops ctl 0 fdss [] (ThreadPool_new threadnum)) (\<lambda>(subloops, pool).
      Inr (\<lparr>sv_mainloop = EventLoop_setepolltimeoutcallback Cb_epolltimeout
              (mainloop\<lparr>el_ep := ep\<rparr>),
            sv_subloops = subloops,
            sv_acceptor = Acceptor_setnewconnectioncb Cb_newconnection acceptor,
            sv_tcpserver = \<lparr>ts_threadnum = int threadnum, ts_conns = [], ts_newconnectioncb = None,
              ts_closeconnectioncb = None, ts_errorconnectioncb = None, ts_onmessagecb = None,
              ts_sendcompletecb = None, ts_timeoutcb = None\<rparr>,
            sv_threadpool = pool, sv_heap = Map.empty, sv_next = 0, sv_app = x\<rparr>, reqs)))))"

text \<open>
  \<^verbatim>\<open>subloops_[fd % threadnum_]\<close>: the remainder of C has the sign of the descriptor, and
  \<^verbatim>\<open>operator[]\<close> of a vector does not check its argument.
\<close>

definition subloop_index :: "int \<Rightarrow> 'x server \<Rightarrow> nat res" where
  "subloop_index fd S =
     (if ts_threadnum (sv_tcpserver S) = 0 then Inl (Undefined Division_by_zero)
      else
        (let i = fd smod ts_threadnum (sv_tcpserver S) in
         if 0 \<le> i \<and> i < int (length (sv_subloops S)) then Inr (nat i)
         else Inl (Undefined Index_out_of_range)))"

definition set_callbacks :: "connection \<Rightarrow> connection" where
  "set_callbacks c =
     Connection_setsendcompletecallback Cb_sendcomplete
      (Connection_setonmessagecallback Cb_onmessage
       (Connection_seterrorcallback Cb_errorconnection
        (Connection_setclosecallback Cb_closeconnection c)))"

definition TcpServer_newconnection ::
  "epoll_ctl \<Rightarrow> int \<Rightarrow> 'x app_call \<Rightarrow> socket \<Rightarrow> 'x server \<Rightarrow> 'x server res" where
  "TcpServer_newconnection ctl now app clientsock S =
     bind_res (subloop_index (so_fd clientsock) S) (\<lambda>i.
     let cid = sv_next S in
     bind_res (Connection_new ctl cid now (Suc i) clientsock (sv_subloops S ! i)) (\<lambda>(conn, l).
     let conn = set_callbacks (conn\<lparr>cn_owned := True\<rparr>);
         ts = sv_tcpserver S;
         ts = ts\<lparr>ts_conns := om_assign (Connection_fd conn) cid (ts_conns ts)\<rparr>;
         l = EventLoop_newconnection (Connection_fd conn) cid l
     in
     bind_res (call_handler app (ts_newconnectioncb ts) [] (conn, l, ts, sv_app S))
       (\<lambda>(_, conn, l, ts, x).
     Inr (S\<lparr>sv_subloops := (sv_subloops S)[i := l], sv_tcpserver := ts,
            sv_heap := (sv_heap S)(cid \<mapsto> conn), sv_next := Suc cid, sv_app := x\<rparr>))))"

end
