(* ===== verification/EchoServer.thy ===== *)
theory EchoServer
  imports TcpServer
begin

text \<open>
  \<^verbatim>\<open>EchoServer.cpp\<close>: the application. A request is answered by a worker thread, or by the
  thread of the event loop where there are no worker threads.
\<close>

datatype worker_task = EchoServer_OnMessage_task nat bytes

record echoserver =
  es_threadpool :: "worker_task pool"
  es_clock :: int                       \<comment> \<open>what \<^verbatim>\<open>time(0)\<close> returns\<close>

definition clock :: "echoserver world \<Rightarrow> int" where
  "clock w = es_clock (snd w)"

definition EchoServer_OnMessage ::
  "epoll_ctl \<Rightarrow> (u64 \<Rightarrow> u64) \<Rightarrow> int \<Rightarrow> bytes \<Rightarrow> 'w cstate \<Rightarrow> (bytes \<times> 'w cstate) res" where
  "EchoServer_OnMessage ctl evwrite tid message s =
     (let message = lit ''reply:'' @ message in
      bind_res (Connection_send ctl evwrite tid (Ptr (str_data message) False) (length message) s)
        (\<lambda>s. Inr (message, s)))"

text \<open>The task bound for a worker has its own copy of the message and owns the connection.\<close>

definition EchoServer_HandleMessage ::
  "epoll_ctl \<Rightarrow> (u64 \<Rightarrow> u64) \<Rightarrow> int \<Rightarrow> bytes \<Rightarrow> echoserver world cstate \<Rightarrow>
   (bytes \<times> echoserver world cstate) res" where
  "EchoServer_HandleMessage ctl evwrite tid message s =
     (let (c, l, ts, es) = s in
      if ThreadPool_size (es_threadpool es) = 0 then
        EchoServer_OnMessage ctl evwrite tid (lit ''IO thread '' @ message) s
      else
        (let message = lit ''WORK thread '' @ message;
             p = ThreadPool_addtask (EchoServer_OnMessage_task (cn_id c) message) (es_threadpool es)
         in Inr (message, c, l, ts, es\<lparr>es_threadpool := p\<rparr>)))"

text \<open>The other handlers print a line at most.\<close>

fun echo_call ::
  "epoll_ctl \<Rightarrow> (u64 \<Rightarrow> u64) \<Rightarrow> int \<Rightarrow> echoserver app_call" where
  "echo_call ctl evwrite tid Cb_HandleNewConnection message s = Inr (message, s)"
| "echo_call ctl evwrite tid Cb_HandleClose message s = Inr (message, s)"
| "echo_call ctl evwrite tid Cb_HandleError message s = Inr (message, s)"
| "echo_call ctl evwrite tid Cb_HandleMessage message s =
     EchoServer_HandleMessage ctl evwrite tid message s"
| "echo_call ctl evwrite tid Cb_HandleSendComplete message s = Inr (message, s)"

definition EchoServer_handlers :: "tcpserver \<Rightarrow> tcpserver" where
  "EchoServer_handlers ts =
     TcpServer_setsendcompletecb Cb_HandleSendComplete
      (TcpServer_setonmessagecb Cb_HandleMessage
       (TcpServer_seterrorconnectioncb Cb_HandleError
        (TcpServer_setcloseconnectioncb Cb_HandleClose
         (TcpServer_setnewconnectioncb Cb_HandleNewConnection ts))))"

definition EchoServer_new ::
  "epoll_ctl \<Rightarrow> (bytes \<Rightarrow> u32) \<Rightarrow> (u32 \<Rightarrow> bytes) \<Rightarrow> u16 \<Rightarrow> int \<times> int \<times> int \<Rightarrow> int \<times> int \<times> int \<Rightarrow>
   (int \<times> int \<times> int) list \<Rightarrow> nat \<Rightarrow> bytes \<Rightarrow> u16 \<Rightarrow> int \<Rightarrow>
   (echoserver server \<times> sockopt_request list) res" where
  "EchoServer_new ctl inet_addr inet_ntoa garbage rcs mainfds fdss workthreadnum ip port now =
     bind_res (TcpServer_new ctl inet_addr inet_ntoa garbage rcs mainfds fdss ip port
         \<lparr>es_threadpool = ThreadPool_new workthreadnum, es_clock = now\<rparr>) (\<lambda>(S, reqs).
     Inr (S\<lparr>sv_tcpserver := EchoServer_handlers (sv_tcpserver S)\<rparr>, reqs))"

abbreviation echo_server_call ::
  "epoll_ctl \<Rightarrow> (u64 \<Rightarrow> u64) \<Rightarrow> int \<Rightarrow> echoserver world server_call" where
  "echo_server_call ctl evwrite tid \<equiv> server_call (echo_call ctl evwrite tid)"

end
