(* ===== verification/Connection_Read.thy ===== *)
theory Connection_Read
  imports Connection
begin

text \<open>
  What the receiving side of a connection does with a stream of framed messages, however the
  stream is cut into the pieces that \<^verbatim>\<open>read\<close> returns and into the bursts that end with
  \<^verbatim>\<open>EAGAIN\<close>. \<open>message_sink\<close> is the contract of the callback that takes the messages.
\<close>

subsection \<open>The pieces of a burst\<close>

text \<open>The bytes a list of read results brings, and the results after which the code reads on.\<close>

fun read_bytes :: "read_result \<Rightarrow> bytes" where
  "read_bytes (Read_data d) = d"
| "read_bytes _ = []"

definition reads_bytes :: "read_result list \<Rightarrow> bytes" where
  "reads_bytes rs = concat (map read_bytes rs)"

definition reads_on :: "read_result \<Rightarrow> bool" where
  "reads_on r \<longleftrightarrow> r \<noteq> Read_eagain \<and> r \<noteq> Read_eof"

lemma reads_bytes_simps [simp]:
  "reads_bytes [] = []" "reads_bytes (r # rs) = read_bytes r @ reads_bytes rs"
  "reads_bytes (rs @ rs') = reads_bytes rs @ reads_bytes rs'"
  by (simp_all add: reads_bytes_def)

definition receive :: "bytes \<Rightarrow> connection \<Rightarrow> connection" where
  "receive d c = c\<lparr>cn_inputbuffer := (cn_inputbuffer c)\<lparr>b_buf := b_buf (cn_inputbuffer c) @ d\<rparr>\<rparr>"

lemma receive_simps [simp]:
  "cn_id (receive d c) = cn_id c"
  "cn_inputbuffer (receive d c) = (cn_inputbuffer c)\<lparr>b_buf := b_buf (cn_inputbuffer c) @ d\<rparr>"
  "cn_owned (receive d c) = cn_owned c"
  "cn_onmessagecallback (receive d c) = cn_onmessagecallback c"
  "cn_lasttime (receive d c) = cn_lasttime c"
  "receive [] c = c"
  "receive d' (receive d c) = receive (d @ d') c"
  by (simp_all add: receive_def)

text \<open>All that comes before the last result of a burst is collected in the input buffer.\<close>

lemma onmessage_reads:
  assumes "list_all reads_on rs"
  shows "Connection_onmessage ctl srv clock stale (rs @ rest) s =
    Connection_onmessage ctl srv clock stale rest (receive (reads_bytes rs) (fst s), snd s)"
  using assms
proof (induction rs arbitrary: s)
  case (Cons r rs)
  show ?case
  proof (cases r)
    case (Read_data d)
    have "Connection_onmessage ctl srv clock stale (r # rs @ rest) s =
        Connection_onmessage ctl srv clock stale (rs @ rest) (receive d (fst s), snd s)"
      by (simp add: Read_data append_region receive_def)
    with Cons show ?thesis by (simp add: Read_data)
  qed (use Cons in \<open>simp_all add: reads_on_def\<close>)
qed simp

text \<open>What \<^verbatim>\<open>EPOLLIN\<close> events bring: bursts, each with the memory behind the short buffer.\<close>

fun onmessage_bursts ::
  "epoll_ctl \<Rightarrow> 'w server_call \<Rightarrow> ('w \<Rightarrow> int) \<Rightarrow> ((nat \<Rightarrow> byte) \<times> read_result list) list \<Rightarrow>
   'w cstate \<Rightarrow> 'w cstate res option" where
  "onmessage_bursts ctl srv clock [] s = Some (Inr s)"
| "onmessage_bursts ctl srv clock ((stale, rs) # bs) s =
     (case Connection_onmessage ctl srv clock stale (rs @ [Read_eagain]) s of
        Some (Inr s') \<Rightarrow> onmessage_bursts ctl srv clock bs s'
      | r \<Rightarrow> r)"

definition bursts_bytes :: "((nat \<Rightarrow> byte) \<times> read_result list) list \<Rightarrow> bytes" where
  "bursts_bytes bs = concat (map (reads_bytes \<circ> snd) bs)"

lemma bursts_bytes_simps [simp]:
  "bursts_bytes [] = []" "bursts_bytes ((stale, rs) # bs) = reads_bytes rs @ bursts_bytes bs"
  by (simp_all add: bursts_bytes_def)

subsection \<open>The sink of the messages\<close>

text \<open>A connection that is set up: owned, with the callback for messages, and with framing.\<close>

definition conn_ready :: "connection \<Rightarrow> bool" where
  "conn_ready c \<longleftrightarrow>
     cn_owned c \<and> cn_onmessagecallback c = Some Cb_onmessage \<and> b_sep (cn_inputbuffer c) = 1"

text \<open>The connection after it has taken the messages \<open>ms\<close> off its buffer and kept \<open>p\<close>.\<close>

definition received :: "connection \<Rightarrow> bytes list \<Rightarrow> bytes \<Rightarrow> int \<Rightarrow> connection" where
  "received c ms p now = c\<lparr>cn_inputbuffer := (cn_inputbuffer c)\<lparr>b_buf := p\<rparr>,
     cn_lasttime := (if ms = [] then cn_lasttime c else now)\<rparr>"

lemma received_simps [simp]:
  "cn_id (received c ms p now) = cn_id c"
  "cn_inputbuffer (received c ms p now) = (cn_inputbuffer c)\<lparr>b_buf := p\<rparr>"
  "conn_ready (received c ms p now) \<longleftrightarrow> conn_ready c"
  "conn_ready (receive d c) \<longleftrightarrow> conn_ready c"
  "received (receive d c) ms p now = received c ms p now"
  by (simp_all add: received_def receive_def conn_ready_def)

lemma received_received [simp]:
  "received (received c ms p now) ms' p' now = received c (ms @ ms') p' now"
  by (simp add: received_def)

lemma received_nothing: "received c [] (b_buf (cn_inputbuffer c)) now = c"
  by (simp add: received_def)

text \<open>
  A header of -4: \<^verbatim>\<open>pickmessage\<close> hands over the whole buffer and removes nothing of it.
\<close>

definition stuck_header :: "(nat \<Rightarrow> byte) \<Rightarrow> buffer \<Rightarrow> bool" where
  "stuck_header stale b \<longleftrightarrow> b_sep b = 1 \<and> 4 \<le> length (b_buf b) \<and> length (b_buf b) < 2 ^ 63 \<and>
     read_int stale (b_buf b) = - 4"

lemma pick_stuck: "stuck_header stale b \<Longrightarrow> pickmessage stale ss b = Inr (True, drop 4 (b_buf b), b)"
  by (simp add: stuck_header_def pick_negative)

locale message_sink =
  fixes srv :: "'w server_call" and clock :: "'w \<Rightarrow> int"
    and ready :: "'w \<Rightarrow> bool" and take_message :: "nat \<Rightarrow> bytes \<Rightarrow> 'w \<Rightarrow> 'w"
  assumes accepts: "ready w \<Longrightarrow>
      \<exists>m'. srv Cb_onmessage m (c, l, w) = Inr (m', c, l, take_message (cn_id c) m w)"
    and ready_take: "ready w \<Longrightarrow> ready (take_message i m w)"
    and clock_take: "ready w \<Longrightarrow> clock (take_message i m w) = clock w"
begin

definition take_all :: "nat \<Rightarrow> bytes list \<Rightarrow> 'w \<Rightarrow> 'w" where
  "take_all i ms w = foldl (\<lambda>w m. take_message i m w) w ms"

lemma take_all_simps [simp]:
  "take_all i [] w = w" "take_all i (m # ms) w = take_all i ms (take_message i m w)"
  "take_all i (ms @ ms') w = take_all i ms' (take_all i ms w)"
  by (simp_all add: take_all_def)

lemma ready_take_all [simp, intro]: "ready w \<Longrightarrow> ready (take_all i ms w)"
  by (induction ms arbitrary: w) (simp_all add: ready_take)

lemma clock_take_all [simp]: "ready w \<Longrightarrow> clock (take_all i ms w) = clock w"
  by (induction ms arbitrary: w) (simp_all add: ready_take clock_take)

text \<open>The inner loop ends and hands over every complete message, in order.\<close>

lemma message_loop_stream:
  assumes "ready w" and "conn_ready c" and "stream_of frame frame_ok (b_buf (cn_inputbuffer c)) ms p"
  shows "message_loop srv clock stale message (c, l, w) =
    Some (Inr (received c ms p (clock w), l, take_all (cn_id c) ms w))"
  using assms
proof (induction ms arbitrary: c w message)
  case Nil
  then have sep: "b_sep (cn_inputbuffer c) = 1" by (simp add: conn_ready_def)
  from pick_stream [OF sep Nil.prems(3)]
  have "b_buf (cn_inputbuffer c) = p"
    and "pickmessage stale message (cn_inputbuffer c) = Inr (False, message, cn_inputbuffer c)"
    by auto
  then show ?case
    by (subst message_loop.simps) (simp add: received_def)
next
  case (Cons m ms)
  then have sep: "b_sep (cn_inputbuffer c) = 1" by (simp add: conn_ready_def)
  from pick_stream [OF sep Cons.prems(3)] obtain t
    where rest: "stream_of frame frame_ok t ms p"
      and pick: "pickmessage stale message (cn_inputbuffer c) =
        Inr (True, m, (cn_inputbuffer c)\<lparr>b_buf := t\<rparr>)"
    by auto
  let ?c = "received c [m] t (clock w)" and ?w = "take_message (cn_id c) m w"
  obtain m' where call: "srv Cb_onmessage m (?c, l, w) = Inr (m', ?c, l, ?w)"
    using accepts [OF Cons.prems(1), of m ?c l] by auto
  have "message_loop srv clock stale message (c, l, w) = message_loop srv clock stale m' (?c, l, ?w)"
    using pick call Cons.prems(2)
    by (subst message_loop.simps) (simp add: received_def call_server_def conn_ready_def Let_def)
  also have "\<dots> = Some (Inr (received ?c ms p (clock ?w), l, take_all (cn_id ?c) ms ?w))"
    using Cons.prems rest by (intro Cons.IH) (simp_all add: ready_take)
  finally show ?case
    using Cons.prems(1) by (simp add: clock_take)
qed

lemma onmessage_burst:
  assumes "ready w" and "conn_ready c" and "list_all reads_on rs"
    and "stream_of frame frame_ok (b_buf (cn_inputbuffer c) @ reads_bytes rs) ms p"
  shows "Connection_onmessage ctl srv clock stale (rs @ Read_eagain # rest) (c, l, w) =
    Some (Inr (received c ms p (clock w), l, take_all (cn_id c) ms w))"
  using assms
  by (simp add: onmessage_reads message_loop_stream [where ms = ms and p = p])

text \<open>
  Any number of bursts: the messages taken are the complete frames of all that has arrived,
  and the rest of it is what the buffer holds.
\<close>

lemma bursts_stream:
  assumes "ready w" and "conn_ready c" and "list_all (list_all reads_on \<circ> snd) bs"
    and "stream_of frame frame_ok s (take k ms) (b_buf (cn_inputbuffer c))"
    and "k \<le> length ms" and "list_all frame_ok ms"
    and "prefix (s @ bursts_bytes bs) (concat (map frame ms))"
  shows "\<exists>n p. k + n \<le> length ms \<and> stream_of frame frame_ok (s @ bursts_bytes bs) (take (k + n) ms) p \<and>
    onmessage_bursts ctl srv clock bs (c, l, w) =
      Some (Inr (received c (take n (drop k ms)) p (clock w), l,
        take_all (cn_id c) (take n (drop k ms)) w))"
  using assms
proof (induction bs arbitrary: c w s k)
  case Nil
  then show ?case
    by (intro exI [of _ 0] exI [of _ "b_buf (cn_inputbuffer c)"]) (simp add: received_nothing)
next
  case (Cons b bs)
  obtain stale rs where b: "b = (stale, rs)" by (cases b)
  let ?p = "b_buf (cn_inputbuffer c)"
  have pre: "prefix (s @ reads_bytes rs) (concat (map frame ms))"
    using Cons.prems(7) by (auto simp: b prefix_def)
  from wire.stream_of_next [OF Cons.prems(4-6) this] obtain j p'
    where j: "k + j \<le> length ms"
      and part: "stream_of frame frame_ok (?p @ reads_bytes rs) (take j (drop k ms)) p'"
    by blast
  let ?ms = "take j (drop k ms)"
  let ?c = "received c ?ms p' (clock w)" and ?w = "take_all (cn_id c) ?ms w"
  have one: "Connection_onmessage ctl srv clock stale (rs @ [Read_eagain]) (c, l, w) = Some (Inr (?c, l, ?w))"
    using Cons.prems(1-3) part by (intro onmessage_burst) (simp_all add: b)
  have "stream_of frame frame_ok (s @ reads_bytes rs) (take k ms @ ?ms) p'"
    using Cons.prems(4) part by (rule wire.stream_of_extend)
  then have whole: "stream_of frame frame_ok (s @ reads_bytes rs) (take (k + j) ms) (b_buf (cn_inputbuffer ?c))"
    by (simp add: take_add)
  have "\<exists>n p. k + j + n \<le> length ms \<and>
      stream_of frame frame_ok ((s @ reads_bytes rs) @ bursts_bytes bs) (take (k + j + n) ms) p \<and>
      onmessage_bursts ctl srv clock bs (?c, l, ?w) =
        Some (Inr (received ?c (take n (drop (k + j) ms)) p (clock ?w), l,
          take_all (cn_id ?c) (take n (drop (k + j) ms)) ?w))"
    using Cons.prems(1-3,6,7) whole j by (intro Cons.IH) (simp_all add: b)
  then obtain n p where n: "k + j + n \<le> length ms"
    and rest: "stream_of frame frame_ok ((s @ reads_bytes rs) @ bursts_bytes bs) (take (k + j + n) ms) p"
    and run: "onmessage_bursts ctl srv clock bs (?c, l, ?w) =
        Some (Inr (received ?c (take n (drop (k + j) ms)) p (clock ?w), l,
          take_all (cn_id ?c) (take n (drop (k + j) ms)) ?w))"
    by blast
  have split: "take (j + n) (drop k ms) = ?ms @ take n (drop (k + j) ms)"
    by (simp add: take_add add.commute)
  show ?case
    using n rest run one Cons.prems(1)
    by (intro exI [of _ "j + n"] exI [of _ p]) (simp add: b split add.assoc)
qed

text \<open>A stream that ends with a message: all of them are taken and nothing is left.\<close>

lemma bursts_complete:
  assumes "ready w" and "conn_ready c" and "b_buf (cn_inputbuffer c) = []"
    and "list_all (list_all reads_on \<circ> snd) bs" and "list_all frame_ok ms"
    and "bursts_bytes bs = concat (map frame ms)"
  shows "onmessage_bursts ctl srv clock bs (c, l, w) =
    Some (Inr (received c ms [] (clock w), l, take_all (cn_id c) ms w))"
proof -
  have "stream_of frame frame_ok [] (take 0 ms) (b_buf (cn_inputbuffer c))"
    using assms(3) by (simp add: stream_of_def)
  then obtain n p where part: "n \<le> length ms"
    "stream_of frame frame_ok (bursts_bytes bs) (take n ms) p"
    and run: "onmessage_bursts ctl srv clock bs (c, l, w) =
      Some (Inr (received c (take n ms) p (clock w), l, take_all (cn_id c) (take n ms) w))"
    using bursts_stream [of w c bs "[]" 0 ms ctl l] assms by auto
  have "stream_of frame frame_ok (bursts_bytes bs) ms []"
    using assms(5,6) by (simp add: stream_of_def)
  with part(2) have "take n ms = ms \<and> p = []"
    by (rule wire.unique_decoding)
  with run show ?thesis by simp
qed

end

text \<open>With such a header the inner loop does not end.\<close>

definition stuck_state ::
  "'w server_call \<Rightarrow> ('w \<Rightarrow> bool) \<Rightarrow> (nat \<Rightarrow> byte) \<Rightarrow> 'w cstate \<Rightarrow> bool" where
  "stuck_state srv ready stale s \<longleftrightarrow>
     (\<exists>clock tk. message_sink srv clock ready tk) \<and> ready (snd (snd s)) \<and> conn_ready (fst s) \<and>
     stuck_header stale (cn_inputbuffer (fst s))"

lemma message_loop_stuck:
  assumes "message_loop srv clock stale message s = Some r" and "stuck_state srv ready stale s"
  shows False
proof -
  have "\<not> stuck_state srv ready stale s"
  proof (rule message_loop.raw_induct [OF _ assms(1),
        where P = "\<lambda>srv clock stale message s r. \<not> stuck_state srv ready stale s"], rule notI)
    fix loop and srv :: "'a server_call" and clock :: "'a \<Rightarrow> int" and stale message s r
    assume IH: "\<And>srv clock stale message s r. loop srv clock stale message s = Some r \<Longrightarrow>
        \<not> stuck_state srv ready stale s"
      and run: "(case pickmessage stale message (cn_inputbuffer (fst s)) of
        Inl e \<Rightarrow> Some (Inl e)
      | Inr (found, message, b) \<Rightarrow>
          (let c = (fst s)\<lparr>cn_inputbuffer := b\<rparr> in
           if \<not> found then Some (Inr (c, snd s))
           else
             (let c = c\<lparr>cn_lasttime := clock (snd (snd s))\<rparr> in
              case call_server srv (cn_onmessagecallback c) message (c, snd s) of
                Inl e \<Rightarrow> Some (Inl e)
              | Inr (message, s) \<Rightarrow> loop srv clock stale message s))) = Some r"
      and stuck: "stuck_state srv ready stale s"
    obtain c l w where s: "s = (c, l, w)" by (cases s)
    from stuck obtain clock' tk where sink: "message_sink srv clock' ready tk" and w: "ready w"
      by (auto simp: stuck_state_def s)
    let ?c = "c\<lparr>cn_lasttime := clock w\<rparr>" and ?m = "drop 4 (b_buf (cn_inputbuffer c))"
    obtain m' where "srv Cb_onmessage ?m (?c, l, w) = Inr (m', ?c, l, tk (cn_id ?c) ?m w)"
      using message_sink.accepts [OF sink w, of ?m ?c l] by blast
    moreover have "c\<lparr>cn_inputbuffer := cn_inputbuffer c\<rparr> = c" by simp
    ultimately have "loop srv clock stale m' (?c, l, tk (cn_id c) ?m w) = Some r"
      using run stuck
      by (simp add: s stuck_state_def conn_ready_def pick_stuck call_server_def Let_def)
    moreover have "stuck_state srv ready stale (?c, l, tk (cn_id c) ?m w)"
      using stuck message_sink.ready_take [OF sink w] by (simp add: s stuck_state_def conn_ready_def)
    ultimately show False using IH by blast
  qed
  with assms(2) show False by blast
qed

lemma message_loop_diverges:
  assumes "message_sink srv clock' ready tk" and "ready w" and "conn_ready c"
    and "stuck_header stale (cn_inputbuffer c)"
  shows "message_loop srv clock stale message (c, l, w) = None"
proof (cases "message_loop srv clock stale message (c, l, w)")
  case (Some r)
  have "stuck_state srv ready stale (c, l, w)"
    using assms by (auto simp: stuck_state_def)
  with Some show ?thesis by (blast dest: message_loop_stuck)
qed

end
