(* ===== verification/Connection_Write.thy ===== *)
theory Connection_Write
  imports Connection Transition_System
begin

text \<open>
  The sending side of a connection: a reply is framed into the output buffer by a task of the
  event loop (\<^verbatim>\<open>sendinloop\<close>), \<^verbatim>\<open>EPOLLOUT\<close> is watched for as long as the buffer holds
  something (\<^verbatim>\<open>writecallback\<close>), and a connection that has been closed takes no more tasks.
\<close>

subsection \<open>The state of an open connection\<close>

definition out_events :: "bytes \<Rightarrow> u32" where
  "out_events out = (if out = [] then EPOLLIN else EPOLLIN OR EPOLLOUT)"

definition conn_out :: "connection \<Rightarrow> bytes" where
  "conn_out c = b_buf (cn_outputbuffer c)"

definition chan_open :: "bytes \<Rightarrow> channel \<Rightarrow> epoll \<Rightarrow> bool" where
  "chan_open out ch ep \<longleftrightarrow> chan_synced ch ep \<and> ch_inepoll ch \<and> ch_events ch = out_events out"

text \<open>
  Open: the channel is registered with exactly the events the connection needs, and the
  buffer frames. Closed: after \<^verbatim>\<open>Channel::remove\<close>.
\<close>

definition conn_open :: "connection \<Rightarrow> eventloop \<Rightarrow> bool" where
  "conn_open c l \<longleftrightarrow>
     chan_open (conn_out c) (cn_clientchannel c) (el_ep l) \<and> b_sep (cn_outputbuffer c) = 1"

definition conn_closed :: "connection \<Rightarrow> eventloop \<Rightarrow> bool" where
  "conn_closed c l \<longleftrightarrow> cn_disconnect c \<and> chan_removed (cn_clientchannel c) (el_ep l)"

text \<open>The connection and the loop after the output buffer has become \<open>out\<close>.\<close>

definition set_out :: "bytes \<Rightarrow> connection \<Rightarrow> connection" where
  "set_out out c = c\<lparr>cn_outputbuffer := (cn_outputbuffer c)\<lparr>b_buf := out\<rparr>,
     cn_clientchannel := chan_registered (out_events out) (cn_clientchannel c)\<rparr>"

definition watch_out :: "bytes \<Rightarrow> connection \<Rightarrow> eventloop \<Rightarrow> eventloop" where
  "watch_out out c l = l\<lparr>el_ep := epoll_registered (out_events out) (cn_clientchannel c) (el_ep l)\<rparr>"

lemma set_out_simps [simp]:
  "conn_out (set_out out c) = out"
  "cn_id (set_out out c) = cn_id c"
  "cn_owned (set_out out c) = cn_owned c"
  "cn_disconnect (set_out out c) = cn_disconnect c"
  "cn_sendcompletecallback (set_out out c) = cn_sendcompletecallback c"
  "cn_closecallback (set_out out c) = cn_closecallback c"
  "b_sep (cn_outputbuffer (set_out out c)) = b_sep (cn_outputbuffer c)"
  "ch_fd (cn_clientchannel (set_out out c)) = ch_fd (cn_clientchannel c)"
  "set_out out' (set_out out c) = set_out out' c"
  by (simp_all add: set_out_def conn_out_def chan_registered_def)

lemma watch_out_simps [simp]:
  "el_taskqueue (watch_out out c l) = el_taskqueue l"
  "el_locked (watch_out out c l) = el_locked l"
  "el_threadid (watch_out out c l) = el_threadid l"
  "el_conns (watch_out out c l) = el_conns l"
  by (simp_all add: watch_out_def)

lemma conn_open_loop: "conn_open c l \<Longrightarrow> ch_loop (cn_clientchannel c) \<noteq> None"
  by (simp add: conn_open_def chan_open_def chan_synced_def)

lemma conn_open_set_out:
  "conn_open c l \<Longrightarrow> conn_open (set_out out c) (watch_out out c l)"
  using conn_open_loop [of c l]
  by (simp add: conn_open_def chan_open_def chan_synced_def set_out_def watch_out_def conn_out_def)

text \<open>A state of the loop with the same interest list serves as well.\<close>

lemma conn_open_ep: "el_ep l' = el_ep l \<Longrightarrow> conn_open c l' \<longleftrightarrow> conn_open c l"
  by (simp add: conn_open_def)

lemma conn_open_other:
  assumes "conn_open c l" and "ch_fd (cn_clientchannel d) \<noteq> ch_fd (cn_clientchannel c)"
  shows "conn_open c (watch_out out d l)"
  using assms by (simp add: conn_open_def chan_open_def chan_synced_def watch_out_def)

text \<open>The kernel reports \<^verbatim>\<open>EPOLLOUT\<close> for the descriptor if and only if something is pending.\<close>

lemma conn_open_interest:
  assumes "conn_open c l"
  shows "\<exists>ev. ep_interest (el_ep l) (ch_fd (cn_clientchannel c)) = Some (ev, ch_this (cn_clientchannel c)) \<and>
    (ev AND EPOLLOUT \<noteq> 0 \<longleftrightarrow> conn_out c \<noteq> []) \<and> ev AND EPOLLIN \<noteq> 0"
  using assms by (auto simp: conn_open_def chan_open_def chan_synced_def out_events_def)

lemma out_events_or [simp]: "out_events out OR EPOLLOUT = EPOLLIN OR EPOLLOUT"
  by (simp add: out_events_def)

lemma out_events_andnot [simp]: "out_events out AND NOT EPOLLOUT = EPOLLIN"
  by (simp add: out_events_def)

subsection \<open>The operations on an open connection\<close>

context epoll_reliable
begin

lemma sendinloop_open:
  assumes "conn_open c l"
  shows "task_sendinloop ctl (m @ 0 # junk) (length m) (c, l, w) =
    Inr (set_out (conn_out c @ frame m) c, watch_out (conn_out c @ frame m) c l, w)"
  using assms
  by (simp add: task_sendinloop_def Connection_sendinloop_def peek_first_def appendwithsep_frame
      on_channel_def enable_disable_synced conn_open_def chan_open_def free_def set_out_def
      watch_out_def conn_out_def out_events_def Let_def)

text \<open>
  \<^verbatim>\<open>sendinloop\<close> run by \<^verbatim>\<open>send\<close> in the thread of the loop, with the data of a string: the
  reply is queued, and then memory is freed that does not come from \<^verbatim>\<open>malloc\<close>.
\<close>

lemma sendinloop_string:
  assumes "conn_open c l"
  shows "Connection_sendinloop ctl (Ptr (m @ 0 # junk) False) (length m) (c, l, w) =
    Inl (Undefined Invalid_free)"
  using assms
  by (simp add: Connection_sendinloop_def peek_first_def appendwithsep_frame
      on_channel_def enable_disable_synced conn_open_def chan_open_def free_def Let_def)

lemma writecallback_partial:
  assumes "conn_open c l" and "conn_out c \<noteq> []" and "n < int (length (conn_out c))"
  shows "Connection_writecallback ctl srv n (c, l, w) =
    Inr (c\<lparr>cn_outputbuffer := (cn_outputbuffer c)\<lparr>b_buf := drop (nat n) (conn_out c)\<rparr>\<rparr>, l, w)"
proof (cases "0 < n")
  case True
  have "nat n < length (conn_out c)" using True assms(3) by linarith
  with True assms(2) show ?thesis
    by (simp add: Connection_writecallback_def Buffer_erase_def str_erase_def Buffer_size_def
        conn_out_def Let_def)
next
  case False
  with assms(2) show ?thesis
    by (cases "cn_outputbuffer c") (auto simp: Connection_writecallback_def Buffer_size_def conn_out_def Let_def)
qed

lemma partial_set_out:
  assumes "conn_open c l" and "conn_out c \<noteq> []" and "n < int (length (conn_out c))"
  shows "c\<lparr>cn_outputbuffer := (cn_outputbuffer c)\<lparr>b_buf := drop (nat n) (conn_out c)\<rparr>\<rparr> =
      set_out (drop (nat n) (conn_out c)) c"
    and "watch_out (drop (nat n) (conn_out c)) c l = l"
proof -
  let ?ch = "cn_clientchannel c"
  have some: "drop (nat n) (conn_out c) \<noteq> []" "conn_out c \<noteq> []"
  proof -
    have "0 < length (conn_out c)" using assms(2) by simp
    with assms(3) have "nat n < length (conn_out c)" by linarith
    then show "drop (nat n) (conn_out c) \<noteq> []" by simp
  qed (fact assms(2))
  with assms(1) have "chan_registered (out_events (drop (nat n) (conn_out c))) ?ch = ?ch"
    and "epoll_registered (out_events (drop (nat n) (conn_out c))) ?ch (el_ep l) = el_ep l"
    by (simp_all add: conn_open_def chan_open_def chan_synced_def out_events_def
        chan_registered_def epoll_registered_def fun_upd_idem)
  then show "c\<lparr>cn_outputbuffer := (cn_outputbuffer c)\<lparr>b_buf := drop (nat n) (conn_out c)\<rparr>\<rparr> =
      set_out (drop (nat n) (conn_out c)) c"
    and "watch_out (drop (nat n) (conn_out c)) c l = l"
    by (simp_all add: set_out_def watch_out_def)
qed

lemma writecallback_all:
  assumes "conn_open c l" and "n = int (length (conn_out c))" and "conn_out c \<noteq> []"
  shows "Connection_writecallback ctl srv n (c, l, w) =
    bind_res (call_server srv (cn_sendcompletecallback c) [] (set_out [] c, watch_out [] c l, w))
      (\<lambda>(_, s). Inr s)"
  using assms
  by (simp add: Connection_writecallback_def Buffer_erase_def str_erase_def Buffer_size_def
      on_channel_def enable_disable_synced conn_open_def chan_open_def set_out_def watch_out_def
      conn_out_def out_events_def Let_def)

text \<open>Closing: the channel is gone from epoll before the server hears of it.\<close>

lemma closecallback_open:
  assumes "conn_open c l" and "cn_owned c" and "cn_closecallback c = Some cb"
  shows "\<exists>c' l'. Connection_closecallback ctl srv (c, l, w) =
      bind_res (srv cb [] (c', l', w)) (\<lambda>(_, s). Inr s) \<and>
    conn_closed c' l' \<and> cn_id c' = cn_id c \<and> cn_clientsock c' = cn_clientsock c \<and>
    cn_outputbuffer c' = cn_outputbuffer c \<and> el_conns l' = el_conns l \<and>
    el_taskqueue l' = el_taskqueue l \<and> el_locked l' = el_locked l"
proof -
  let ?ch = "chan_registered 0 (cn_clientchannel c)"
    and ?ep = "(el_ep l)\<lparr>ep_interest := (ep_interest (el_ep l))(ch_fd (cn_clientchannel c) := None)\<rparr>"
  let ?c = "c\<lparr>cn_disconnect := True, cn_clientchannel := ?ch\<rparr>" and ?l = "l\<lparr>el_ep := ?ep\<rparr>"
  have "Connection_closecallback ctl srv (c, l, w) = bind_res (srv cb [] (?c, ?l, w)) (\<lambda>(_, s). Inr s)"
    using assms
    by (simp add: Connection_closecallback_def on_channel_def remove_synced conn_open_def
        chan_open_def call_server_def Let_def)
  moreover have "conn_closed ?c ?l"
    using conn_open_loop [OF assms(1)] by (simp add: conn_closed_def chan_removed_def)
  ultimately show ?thesis by (intro exI [of _ ?c] exI [of _ ?l]) simp
qed

end

context epoll_kernel
begin

text \<open>A reply for a closed connection ends the process: \<^verbatim>\<open>EPOLL_CTL_MOD\<close> fails.\<close>

lemma sendinloop_closed:
  assumes "conn_closed c l" and "b_sep (cn_outputbuffer c) = 1"
  shows "task_sendinloop ctl (m @ 0 # junk) (length m) (c, l, w) = Inl Exit_failure"
  using assms
  by (simp add: task_sendinloop_def Connection_sendinloop_def peek_first_def appendwithsep_frame
      on_channel_def enablewriting_removed conn_closed_def Let_def)

end

subsection \<open>send from another thread\<close>

definition nul_free :: "bytes \<Rightarrow> bool" where
  "nul_free m \<longleftrightarrow> 0 \<notin> set m"

lemma strdup_nul_free:
  assumes "nul_free m"
  shows "strdup (Ptr (str_data m) k) = Inr (Ptr (str_data m) True)"
proof -
  have "takeWhile (\<lambda>b. b \<noteq> 0) (m @ [0]) = m"
    using assms by (subst takeWhile_append2) (auto simp: nul_free_def)
  then show ?thesis by (simp add: strdup_def str_data_def)
qed

definition reply_task :: "nat \<times> bytes \<Rightarrow> task" where
  "reply_task p = Task_sendinloop (fst p) (str_data (snd p)) (length (snd p))"

lemma send_other_thread:
  assumes "\<not> cn_disconnect c" and "el_threadid l \<noteq> Some tid" and "nul_free m"
  shows "Connection_send ctl evwrite tid (Ptr (str_data m) k) (length m) (c, l, w) =
    Inr (c, EventLoop_queueinloop evwrite (reply_task (cn_id c, m)) l, w)"
  using assms
  by (simp add: Connection_send_def EventLoop_isinloopthread_def strdup_nul_free reply_task_def)

text \<open>
  A message with a NUL before its last byte: the copy ends with the NUL, the size does not
  change, and the task reads past the end of the copy.
\<close>

lemma strdup_nul:
  assumes "\<not> nul_free (butlast m)"
  shows "\<exists>copy. strdup (Ptr (str_data m) k) = Inr (Ptr copy True) \<and> length copy < length m \<and> copy \<noteq> []"
proof -
  have "m \<noteq> []" using assms by (auto simp: nul_free_def)
  then have m: "m = butlast m @ [last m]" by simp
  have "length (takeWhile (\<lambda>b. b \<noteq> 0) xs) < length xs" if "\<not> nul_free xs" for xs
    using that by (induction xs) (auto simp: nul_free_def)
  from this [OF assms] have "length (takeWhile (\<lambda>b. b \<noteq> 0) (butlast m)) + 1 < length m"
    by simp
  moreover have "takeWhile (\<lambda>b. b \<noteq> 0) (butlast m @ [last m, 0]) = takeWhile (\<lambda>b. b \<noteq> 0) (butlast m)"
    using assms by (intro takeWhile_append1) (auto simp: nul_free_def)
  moreover have "str_data m = butlast m @ [last m, 0]"
    unfolding str_data_def by (subst m) simp
  ultimately show ?thesis
    using \<open>m \<noteq> []\<close> by (simp add: strdup_def)
qed

lemma sendinloop_short_copy:
  assumes "length copy < n" and "copy \<noteq> []" and "b_sep (cn_outputbuffer c) = 1"
  shows "task_sendinloop ctl copy n (c, l, w) = Inl (Undefined Out_of_bounds_read)"
  using assms
  by (simp add: task_sendinloop_def Connection_sendinloop_def peek_first_def Buffer_appendwithsep_def
      str_append_def)

subsection \<open>The stream of replies\<close>

text \<open>
  A connection together with the bytes the kernel has taken from it and the replies that
  have been queued so far. \<open>reply\<close> is a task of the loop, \<open>writable\<close> an \<^verbatim>\<open>EPOLLOUT\<close> event, which
  the kernel reports if it is watched for, and a \<^verbatim>\<open>send\<close> that takes at most what it is given
  (a negative number is an error).
\<close>

type_synonym 'w out_state = "'w cstate \<times> bytes \<times> bytes list"

inductive out_step :: "epoll_ctl \<Rightarrow> 'w server_call \<Rightarrow> 'w out_state \<Rightarrow> 'w out_state \<Rightarrow> bool"
  for ctl srv where
  reply: "task_sendinloop ctl (str_data m) (length m) s = Inr s' \<Longrightarrow>
    out_step ctl srv (s, sent, ms) (s', sent, ms @ [m])"
| writable: "ep_interest (el_ep l) (ch_fd (cn_clientchannel c)) = Some (ev, ptr) \<Longrightarrow>
    ev AND EPOLLOUT \<noteq> 0 \<Longrightarrow> n \<le> int (length (conn_out c)) \<Longrightarrow>
    Connection_writecallback ctl srv n (c, l, w) = Inr s' \<Longrightarrow>
    out_step ctl srv ((c, l, w), sent, ms) (s', sent @ take (nat n) (conn_out c), ms)"

inductive_cases out_step_cases: "out_step ctl srv x y"

text \<open>The writes of a peer that takes some bytes each time, until there is nothing to write.\<close>

fun write_all :: "epoll_ctl \<Rightarrow> 'w server_call \<Rightarrow> int list \<Rightarrow> 'w cstate \<Rightarrow> bytes \<Rightarrow> ('w cstate \<times> bytes) res" where
  "write_all ctl srv [] s sent = Inr (s, sent)"
| "write_all ctl srv (n # ns) s sent =
     (let out = conn_out (fst s); k = min n (int (length out)) in
      if out = [] then Inr (s, sent)
      else bind_res (Connection_writecallback ctl srv k s) (\<lambda>s'.
        write_all ctl srv ns s' (sent @ take (nat k) out)))"

text \<open>What the sending side relies on: the callback for a completed send changes nothing of the connection.\<close>

locale reply_stream = epoll_reliable ctl for ctl +
  fixes srv :: "'w server_call" and ready :: "'w \<Rightarrow> bool"
  assumes completes: "ready w \<Longrightarrow>
    \<exists>m' w'. srv Cb_sendcomplete m (c, l, w) = Inr (m', c, l, w') \<and> ready w'"
begin

definition sender :: "'w cstate \<Rightarrow> bool" where
  "sender s \<longleftrightarrow> conn_open (fst s) (fst (snd s)) \<and> ready (snd (snd s)) \<and>
     cn_owned (fst s) \<and> cn_sendcompletecallback (fst s) = Some Cb_sendcomplete"

definition out_inv :: "'w out_state \<Rightarrow> bool" where
  "out_inv x \<longleftrightarrow> sender (fst x) \<and>
     fst (snd x) @ conn_out (fst (fst x)) = concat (map frame (snd (snd x)))"

definition out_init :: "'w out_state \<Rightarrow> bool" where
  "out_init x \<longleftrightarrow> sender (fst x) \<and> conn_out (fst (fst x)) = [] \<and> snd x = ([], [])"

lemma sender_reply:
  assumes "sender (c, l, w)"
  shows "\<exists>s'. task_sendinloop ctl (str_data m) (length m) (c, l, w) = Inr s' \<and> sender s' \<and>
    conn_out (fst s') = conn_out c @ frame m"
  using assms conn_open_set_out [of c l "conn_out c @ frame m"]
  by (intro exI [of _ "(set_out (conn_out c @ frame m) c, watch_out (conn_out c @ frame m) c l, w)"])
    (simp add: sender_def str_data_def sendinloop_open)

lemma sender_write:
  assumes "sender (c, l, w)" and "conn_out c \<noteq> []" and "n \<le> int (length (conn_out c))"
  shows "\<exists>s'. Connection_writecallback ctl srv n (c, l, w) = Inr s' \<and> sender s' \<and>
    conn_out (fst s') = drop (nat n) (conn_out c)"
proof (cases "n = int (length (conn_out c))")
  case False
  with assms have "Connection_writecallback ctl srv n (c, l, w) =
      Inr (set_out (drop (nat n) (conn_out c)) c, l, w)"
    using writecallback_partial [of c l n] partial_set_out(1) [of c l n] by (simp add: sender_def)
  moreover have "conn_open (set_out (drop (nat n) (conn_out c)) c) l"
    using conn_open_set_out [of c l "drop (nat n) (conn_out c)"] partial_set_out(2) [of c l n] assms False
    by (simp add: sender_def)
  ultimately show ?thesis
    using assms(1) by (simp add: sender_def)
next
  case True
  obtain m' w' where "srv Cb_sendcomplete [] (set_out [] c, watch_out [] c l, w) =
      Inr (m', set_out [] c, watch_out [] c l, w')" and "ready w'"
    using assms(1) completes [of w "[]" "set_out [] c" "watch_out [] c l"] by (auto simp: sender_def)
  with assms True conn_open_set_out [of c l "[]"] show ?thesis
    using writecallback_all [of c l n srv w] by (simp add: sender_def call_server_def)
qed

lemma sender_pending:
  assumes "sender (c, l, w)"
    and "ep_interest (el_ep l) (ch_fd (cn_clientchannel c)) = Some (ev, ptr)"
  shows "ev AND EPOLLOUT \<noteq> 0 \<longleftrightarrow> conn_out c \<noteq> []"
  using conn_open_interest [of c l] assms by (auto simp: sender_def)

lemma out_step_inv:
  assumes "out_inv x" and "out_step ctl srv x y"
  shows "out_inv y"
  using assms(2)
proof (cases rule: out_step.cases)
  case (reply m s s' sent ms)
  obtain c l w where s: "s = (c, l, w)" by (cases s)
  have "sender (c, l, w)" and "sent @ conn_out c = concat (map frame ms)"
    using assms(1) reply(1) by (simp_all add: out_inv_def s)
  with sender_reply [OF this(1), of m] reply(2,3) show ?thesis
    by (auto simp: out_inv_def s simp flip: append_assoc)
next
  case (writable l c ev ptr n w s' sent ms)
  have send: "sender (c, l, w)" and "sent @ conn_out c = concat (map frame ms)"
    using assms(1) writable(1) by (simp_all add: out_inv_def)
  with sender_pending [OF send writable(3)] sender_write [OF send, of n] writable(2,4-6)
  show ?thesis
    by (auto simp: out_inv_def)
qed

sublocale invariant_system out_init "out_step ctl srv" out_inv
proof
  show "out_inv x" if "out_init x" for x
    using that by (simp add: out_init_def out_inv_def)
qed (rule out_step_inv)

lemma replies_inv: "reachable out_init (out_step ctl srv) x \<Longrightarrow> out_inv x"
  by (rule reachable_inv)

text \<open>Everything is written by as many writes as there are bytes.\<close>

lemma write_all_drains:
  assumes "sender (c, l, w)" and "list_all (\<lambda>n. 1 \<le> n) ns" and "length (conn_out c) \<le> length ns"
  shows "\<exists>s'. write_all ctl srv ns (c, l, w) sent = Inr (s', sent @ conn_out c) \<and> sender s' \<and>
    conn_out (fst s') = []"
  using assms
proof (induction ns arbitrary: c l w sent)
  case Nil
  then show ?case by (auto intro!: exI [of _ "(c, l, w)"])
next
  case (Cons n ns)
  show ?case
  proof (cases "conn_out c = []")
    case True
    with Cons.prems(1) show ?thesis by (auto intro!: exI [of _ "(c, l, w)"])
  next
    case False
    let ?k = "min n (int (length (conn_out c)))"
    obtain s' where step: "Connection_writecallback ctl srv ?k (c, l, w) = Inr s'" "sender s'"
      "conn_out (fst s') = drop (nat ?k) (conn_out c)"
      using sender_write [OF Cons.prems(1) False, of ?k] by auto
    have "1 \<le> nat ?k"
      using Cons.prems(2) False by (simp add: Suc_le_eq)
    then have "length (conn_out (fst s')) \<le> length ns"
      using Cons.prems(3) step(3) by simp
    then have "\<exists>s''. write_all ctl srv ns s' (sent @ take (nat ?k) (conn_out c)) =
        Inr (s'', (sent @ take (nat ?k) (conn_out c)) @ conn_out (fst s')) \<and> sender s'' \<and>
        conn_out (fst s'') = []"
      using Cons.IH [of "fst s'" "fst (snd s')" "snd (snd s')" "sent @ take (nat ?k) (conn_out c)"]
        step(2) Cons.prems(2) by simp
    then obtain s'' where "write_all ctl srv ns s' (sent @ take (nat ?k) (conn_out c)) =
        Inr (s'', (sent @ take (nat ?k) (conn_out c)) @ conn_out (fst s'))"
      "sender s''" "conn_out (fst s'') = []"
      by blast
    with step False show ?thesis by (simp add: Let_def)
  qed
qed

end

end
