(* ===== verification/Loop_Tasks.thy ===== *)
theory Loop_Tasks
  imports Connection_Write
begin

text \<open>
  The tasks of an event loop: \<^verbatim>\<open>queueinloop\<close> appends them, \<^verbatim>\<open>handlewakeup\<close> runs them. The only
  ones are replies, \<^verbatim>\<open>Connection::sendinloop\<close> bound to the raw pointer of a connection, so a
  task finds its connection in the heap, or not.
\<close>

type_synonym heap = "nat \<rightharpoonup> connection"

fun loop_exec :: "epoll_ctl \<Rightarrow> task \<Rightarrow> eventloop \<times> heap \<Rightarrow> (eventloop \<times> heap) res" where
  "loop_exec ctl (Task_sendinloop cid copy n) (l, heap) =
     (case heap cid of
        None \<Rightarrow> Inl (Undefined Use_after_free)
      | Some c \<Rightarrow>
          bind_res (task_sendinloop ctl copy n (c, l, ())) (\<lambda>(c, l, _).
          Inr (l, heap(cid \<mapsto> c))))"

subsection \<open>Tasks leave the queue alone\<close>

lemma sendinloop_queue:
  "Connection_sendinloop ctl data n (c, l\<lparr>el_taskqueue := q\<rparr>, w) =
    map_sum id (\<lambda>(c, l, w). (c, l\<lparr>el_taskqueue := q\<rparr>, w)) (Connection_sendinloop ctl data n (c, l, w))"
proof -
  have chan: "on_channel op (c, l\<lparr>el_taskqueue := q\<rparr>, w) =
      map_sum id (\<lambda>(c, l, w). (c, l\<lparr>el_taskqueue := q\<rparr>, w)) (on_channel op (c, l, w))" for op c
    by (cases "op (cn_clientchannel c) (el_ep l)") (auto simp: on_channel_def)
  have bind: "bind_res (map_sum id g r) f = bind_res r (\<lambda>x. f (g x))" for g :: "'x \<Rightarrow> 'y" and r and f
    by (cases r) simp_all
  have out: "map_sum id g (bind_res r f) = bind_res r (\<lambda>x. map_sum id g (f x))"
    for g :: "'x \<Rightarrow> 'y" and r :: "'z res" and f
    by (cases r) simp_all
  show ?thesis
    by (simp add: Connection_sendinloop_def chan bind out)
qed

lemma loop_exec_queue:
  "loop_exec ctl t (l\<lparr>el_taskqueue := q\<rparr>, heap) =
    map_sum id (\<lambda>(l, heap). (l\<lparr>el_taskqueue := q\<rparr>, heap)) (loop_exec ctl t (l, heap))"
proof (cases t)
  case (Task_sendinloop cid copy n)
  show ?thesis
  proof (cases "heap cid")
    case (Some c)
    show ?thesis
      by (cases "Connection_sendinloop ctl (Ptr copy True) n (c, l, ())")
        (auto simp: Task_sendinloop Some task_sendinloop_def sendinloop_queue)
  qed (simp add: Task_sendinloop)
qed

interpretation loop_tasks: queue_blind "loop_exec ctl" for ctl
proof
  have q: "with_queue q = (\<lambda>(l, heap). (l\<lparr>el_taskqueue := q\<rparr>, heap))" for q
    by (simp add: fun_eq_iff with_queue_def)
  show "loop_exec ctl t (with_queue q s) = map_sum id (with_queue q) (loop_exec ctl t s)" for t q s
    by (cases s) (simp only: q prod.case loop_exec_queue)
qed

subsection \<open>Replies of many connections\<close>

text \<open>The connections of a loop are open and have different descriptors.\<close>

definition heap_open :: "heap \<Rightarrow> eventloop \<Rightarrow> bool" where
  "heap_open heap l \<longleftrightarrow>
     (\<forall>i c. heap i = Some c \<longrightarrow> conn_open c l) \<and>
     (\<forall>i j c d. heap i = Some c \<longrightarrow> heap j = Some d \<longrightarrow> i \<noteq> j \<longrightarrow>
        ch_fd (cn_clientchannel c) \<noteq> ch_fd (cn_clientchannel d))"

lemma heap_open_set_out:
  assumes "heap_open heap l" and "heap i = Some c"
  shows "heap_open (heap(i \<mapsto> set_out out c)) (watch_out out c l)"
proof -
  have "conn_open d (watch_out out c l)" if "heap j = Some d" "j \<noteq> i" for j d
    using assms that by (intro conn_open_other) (auto simp: heap_open_def)
  moreover have "conn_open (set_out out c) (watch_out out c l)"
    using assms by (intro conn_open_set_out) (auto simp: heap_open_def)
  ultimately show ?thesis
    using assms by (auto simp: heap_open_def)
qed

lemma heap_open_ep: "el_ep l' = el_ep l \<Longrightarrow> heap_open heap l' \<longleftrightarrow> heap_open heap l"
  by (simp add: heap_open_def conn_open_def)

text \<open>The output buffer of connection \<open>i\<close> after the replies \<open>rs\<close> to various connections.\<close>

definition replies_to :: "nat \<Rightarrow> (nat \<times> bytes) list \<Rightarrow> bytes list" where
  "replies_to i rs = map snd (filter (\<lambda>r. fst r = i) rs)"

lemma replies_to_simps [simp]:
  "replies_to i [] = []"
  "replies_to i ((j, m) # rs) = (if j = i then m # replies_to i rs else replies_to i rs)"
  by (simp_all add: replies_to_def)

text \<open>A reply changes nothing of the connection but the output buffer and the watched events.\<close>

definition same_conn :: "connection \<Rightarrow> connection \<Rightarrow> bool" where
  "same_conn c d \<longleftrightarrow> d\<lparr>cn_outputbuffer := cn_outputbuffer c, cn_clientchannel := cn_clientchannel c\<rparr> = c"

lemma same_conn_refl [simp]: "same_conn c c"
  by (simp add: same_conn_def)

lemma same_conn_set_out:
  assumes "same_conn (set_out out c) d"
  shows "same_conn c d"
proof -
  have "c = (set_out out c)\<lparr>cn_outputbuffer := cn_outputbuffer c, cn_clientchannel := cn_clientchannel c\<rparr>"
    by (simp add: set_out_def)
  also have "\<dots> = d\<lparr>cn_outputbuffer := cn_outputbuffer c, cn_clientchannel := cn_clientchannel c\<rparr>"
    by (subst assms [unfolded same_conn_def, symmetric]) simp
  finally show ?thesis by (simp add: same_conn_def)
qed

lemma same_connD:
  assumes "same_conn c d"
  shows "cn_id d = cn_id c" "cn_owned d = cn_owned c" "cn_disconnect d = cn_disconnect c"
    "cn_sendcompletecallback d = cn_sendcompletecallback c" "cn_inputbuffer d = cn_inputbuffer c"
    "cn_onmessagecallback d = cn_onmessagecallback c" "cn_closecallback d = cn_closecallback c"
    "cn_lasttime d = cn_lasttime c" "cn_clientsock d = cn_clientsock c"
  by (subst assms [unfolded same_conn_def, symmetric], simp)+

definition replied :: "heap \<Rightarrow> heap \<Rightarrow> (nat \<times> bytes) list \<Rightarrow> bool" where
  "replied heap heap' rs \<longleftrightarrow> dom heap' = dom heap \<and>
     (\<forall>i c. heap i = Some c \<longrightarrow> (\<exists>c'. heap' i = Some c' \<and> same_conn c c' \<and>
        conn_out c' = conn_out c @ concat (map frame (replies_to i rs))))"

lemma replied_Cons:
  assumes "heap i = Some c" and "replied (heap(i \<mapsto> set_out (conn_out c @ frame m) c)) heap' rs"
  shows "replied heap heap' ((i, m) # rs)"
proof -
  let ?heap = "heap(i \<mapsto> set_out (conn_out c @ frame m) c)"
  have "\<exists>d'. heap' j = Some d' \<and> same_conn d d' \<and>
      conn_out d' = conn_out d @ concat (map frame (replies_to j ((i, m) # rs)))"
    if "heap j = Some d" for j d
  proof (cases "j = i")
    case True
    have "?heap i = Some (set_out (conn_out c @ frame m) c)" by simp
    with assms(2) obtain d' where "heap' i = Some d'" "same_conn (set_out (conn_out c @ frame m) c) d'"
      "conn_out d' = conn_out (set_out (conn_out c @ frame m) c) @ concat (map frame (replies_to i rs))"
      unfolding replied_def by blast
    with True assms(1) that show ?thesis by (auto intro: same_conn_set_out)
  next
    case False
    with that have "?heap j = Some d" by simp
    with assms(2) False show ?thesis unfolding replied_def by simp
  qed
  moreover have "dom heap' = dom heap"
    using assms by (auto simp: replied_def)
  ultimately show ?thesis unfolding replied_def by blast
qed

context epoll_reliable
begin

lemma exec_replies:
  assumes "heap_open heap l" and "\<forall>r\<in>set rs. fst r \<in> dom heap"
  shows "\<exists>l' heap'. exec_all (loop_exec ctl) (map reply_task rs) (l, heap) = Inr (l', heap') \<and>
    heap_open heap' l' \<and> replied heap heap' rs \<and> el_locked l' = el_locked l"
  using assms
proof (induction rs arbitrary: l heap)
  case Nil
  then show ?case by (auto simp: replied_def)
next
  case (Cons r rs)
  obtain i m where r: "r = (i, m)" by (cases r)
  obtain c where c: "heap i = Some c" using Cons.prems(2) r by auto
  let ?out = "conn_out c @ frame m"
  let ?heap = "heap(i \<mapsto> set_out ?out c)" and ?l = "watch_out ?out c l"
  have "conn_open c l" using Cons.prems(1) c by (auto simp: heap_open_def)
  then have one: "loop_exec ctl (reply_task r) (l, heap) = Inr (?l, ?heap)"
    by (simp add: r reply_task_def c str_data_def sendinloop_open)
  have "heap_open ?heap ?l"
    using Cons.prems(1) c by (rule heap_open_set_out)
  moreover have "\<forall>r\<in>set rs. fst r \<in> dom ?heap"
    using Cons.prems(2) by auto
  ultimately obtain l' heap' where rest:
    "exec_all (loop_exec ctl) (map reply_task rs) (?l, ?heap) = Inr (l', heap')"
    "heap_open heap' l'" "replied ?heap heap' rs" "el_locked l' = el_locked ?l"
    using Cons.IH by blast
  have "replied heap heap' (r # rs)"
    unfolding r using c rest(3) by (rule replied_Cons)
  with one rest show ?case by simp
qed

lemma handlewakeup_replies:
  assumes "heap_open heap l" and "\<not> el_locked l"
    and "el_taskqueue l = map reply_task rs" and "\<forall>r\<in>set rs. fst r \<in> dom heap"
  shows "\<exists>l' heap'. EventLoop_handlewakeup evread (loop_exec ctl) (l, heap) = Some (Inr (l', heap')) \<and>
    heap_open heap' l' \<and> replied heap heap' rs \<and> el_taskqueue l' = [] \<and> \<not> el_locked l'"
proof -
  let ?l = "l\<lparr>el_wakecount := evread (el_wakecount l), el_locked := True\<rparr>"
  have "heap_open heap ?l"
    using assms(1) heap_open_ep [of ?l l] by simp
  from exec_replies [OF this assms(4)] obtain l' heap' where
    run: "exec_all (loop_exec ctl) (map reply_task rs) (?l, heap) = Inr (l', heap')"
    "heap_open heap' l'" "replied heap heap' rs"
    by blast
  have "heap_open heap' (l'\<lparr>el_taskqueue := [], el_locked := False\<rparr>)"
    using run(2) heap_open_ep [of "l'\<lparr>el_taskqueue := [], el_locked := False\<rparr>" l'] by simp
  with run assms(2,3) show ?thesis
    by (simp add: loop_tasks.handlewakeup_runs)
qed

end

text \<open>A reply that is still queued when the connection has been closed, or freed.\<close>

context epoll_kernel
begin

lemma handlewakeup_closed:
  assumes "\<not> el_locked l" and "el_taskqueue l = reply_task (i, m) # q" and "heap i = Some c"
    and "conn_closed c l" and "b_sep (cn_outputbuffer c) = 1"
  shows "EventLoop_handlewakeup evread (loop_exec ctl) (l, heap) = Some (Inl Exit_failure)"
proof -
  let ?l = "l\<lparr>el_wakecount := evread (el_wakecount l), el_locked := True\<rparr>"
  have "conn_closed c ?l" using assms(4) by (simp add: conn_closed_def)
  from sendinloop_closed [OF this assms(5), of m "[]" "()"] assms(1-3) show ?thesis
    by (simp add: loop_tasks.handlewakeup_runs reply_task_def str_data_def)
qed

end

lemma handlewakeup_freed:
  assumes "\<not> el_locked l" and "el_taskqueue l = reply_task (i, m) # q" and "heap i = None"
  shows "EventLoop_handlewakeup evread (loop_exec ctl) (l, heap) = Some (Inl (Undefined Use_after_free))"
  using assms by (simp add: loop_tasks.handlewakeup_runs reply_task_def)

end
