(* ===== verification/Echo_Service.thy ===== *)
theory Echo_Service
  imports EchoServer Connection_Read Loop_Tasks
begin

text \<open>
  The echo server as a user of the connection: its handlers keep the contracts that
  \<open>Connection_Read\<close> and \<open>Connection_Write\<close> ask for, and one round of requests and replies
  passes through all the queues of the program.
\<close>

subsection \<open>The handlers as a sink of messages and a source of replies\<close>

definition echo_ready :: "echoserver world \<Rightarrow> bool" where
  "echo_ready w \<longleftrightarrow>
     ts_onmessagecb (fst w) = Some Cb_HandleMessage \<and>
     ts_sendcompletecb (fst w) = Some Cb_HandleSendComplete \<and>
     ThreadPool_size (es_threadpool (snd w)) \<noteq> 0"

definition request_task :: "nat \<Rightarrow> bytes \<Rightarrow> worker_task" where
  "request_task cid m = EchoServer_OnMessage_task cid (lit ''WORK thread '' @ m)"

definition echo_take :: "nat \<Rightarrow> bytes \<Rightarrow> echoserver world \<Rightarrow> echoserver world" where
  "echo_take cid m w =
     (fst w, (snd w)\<lparr>es_threadpool := ThreadPool_addtask (request_task cid m) (es_threadpool (snd w))\<rparr>)"

lemma size_addtask [simp]: "ThreadPool_size (ThreadPool_addtask t p) = ThreadPool_size p"
  by (simp add: ThreadPool_size_def)

interpretation echo_sink: message_sink "echo_server_call ctl evwrite tid" clock echo_ready echo_take
  for ctl evwrite tid
proof
  show "\<exists>m'. echo_server_call ctl evwrite tid Cb_onmessage m (c, l, w) =
      Inr (m', c, l, echo_take (cn_id c) m w)" if "echo_ready w" for w m c l
    using that
    by (cases w)
      (simp add: echo_ready_def echo_take_def request_task_def TcpServer_onmessage_def server_of_def
        call_handler_def EchoServer_HandleMessage_def Let_def)
  show "echo_ready (echo_take i m w)" if "echo_ready w" for w i m
    using that by (simp add: echo_ready_def echo_take_def)
  show "clock (echo_take i m w) = clock w" if "echo_ready w" for w i m
    by (simp add: clock_def echo_take_def)
qed

lemma echo_reply_stream:
  assumes "epoll_reliable ctl"
  shows "reply_stream ctl (echo_server_call ctl evwrite tid) echo_ready"
proof -
  have "\<exists>m' w'. echo_server_call ctl evwrite tid Cb_sendcomplete m (c, l, w) = Inr (m', c, l, w') \<and>
      echo_ready w'" if "echo_ready w" for w m c l
    using that
    by (cases w) (auto simp: TcpServer_sendcomplete_def server_of_def call_handler_def echo_ready_def)
  with assms show ?thesis
    by (simp add: reply_stream_def reply_stream_axioms_def)
qed

interpretation echo_replies: reply_stream interest_ctl "echo_server_call interest_ctl evwrite tid" echo_ready
  for evwrite tid
  by (rule echo_reply_stream) (rule linux_epoll.epoll_reliable_axioms)

text \<open>All messages are in the queue of the workers, each with the connection it came from.\<close>

lemma take_all_queue:
  "p_queue (es_threadpool (snd (echo_sink.take_all i ms w))) =
     p_queue (es_threadpool (snd w)) @ map (request_task i) ms"
  "fst (echo_sink.take_all i ms w) = fst w"
  by (induction ms arbitrary: w) (simp_all add: echo_take_def)

subsection \<open>The workers\<close>

text \<open>
  A worker runs \<^verbatim>\<open>EchoServer::OnMessage\<close>: the task owns the connection, so the object exists.
  \<open>tid\<close> is the thread of the worker.
\<close>

fun worker_exec :: "epoll_ctl \<Rightarrow> (u64 \<Rightarrow> u64) \<Rightarrow> int \<Rightarrow> worker_task \<Rightarrow> 'w cstate \<Rightarrow> 'w cstate res" where
  "worker_exec ctl evwrite tid (EchoServer_OnMessage_task cid m) s =
     map_sum id snd (EchoServer_OnMessage ctl evwrite tid m s)"

definition echo_reply :: "bytes \<Rightarrow> bytes" where
  "echo_reply m = lit ''reply:'' @ lit ''WORK thread '' @ m"

lemma nul_free_reply: "nul_free m \<Longrightarrow> nul_free (echo_reply m)"
  by (simp add: nul_free_def echo_reply_def lit_def)

lemma worker_exec_reply:
  assumes "\<not> cn_disconnect c" and "el_threadid l \<noteq> Some tid" and "nul_free m"
  shows "worker_exec ctl evwrite tid (request_task cid m) (c, l, w) =
    Inr (c, EventLoop_queueinloop evwrite (reply_task (cn_id c, echo_reply m)) l, w)"
  using send_other_thread [OF assms(1,2) nul_free_reply [OF assms(3)], of ctl evwrite False w]
  by (simp add: request_task_def EchoServer_OnMessage_def echo_reply_def Let_def)

lemma queueinloop_simps [simp]:
  "el_taskqueue (EventLoop_queueinloop evwrite t l) = el_taskqueue l @ [t]"
  "el_ep (EventLoop_queueinloop evwrite t l) = el_ep l"
  "el_threadid (EventLoop_queueinloop evwrite t l) = el_threadid l"
  "el_locked (EventLoop_queueinloop evwrite t l) = el_locked l"
  by (simp_all add: EventLoop_queueinloop_def EventLoop_wakeup_def)

lemma workers_queue_replies:
  assumes "\<not> cn_disconnect c" and "el_threadid l \<noteq> Some tid" and "list_all nul_free ms"
  shows "\<exists>l'. exec_all (worker_exec ctl evwrite tid) (map (request_task cid) ms) (c, l, w) = Inr (c, l', w) \<and>
    el_taskqueue l' = el_taskqueue l @ map (\<lambda>m. reply_task (cn_id c, echo_reply m)) ms \<and>
    el_ep l' = el_ep l \<and> el_locked l' = el_locked l \<and> el_threadid l' = el_threadid l"
  using assms
proof (induction ms arbitrary: l)
  case (Cons m ms)
  let ?l = "EventLoop_queueinloop evwrite (reply_task (cn_id c, echo_reply m)) l"
  from Cons.IH [of ?l] Cons.prems obtain l' where
    "exec_all (worker_exec ctl evwrite tid) (map (request_task cid) ms) (c, ?l, w) = Inr (c, l', w)"
    "el_taskqueue l' = el_taskqueue ?l @ map (\<lambda>m. reply_task (cn_id c, echo_reply m)) ms"
    "el_ep l' = el_ep ?l" "el_locked l' = el_locked ?l" "el_threadid l' = el_threadid ?l"
    by auto
  with Cons.prems show ?case by (simp add: worker_exec_reply)
qed simp

subsection \<open>One round\<close>

text \<open>
  Requests arrive in bursts \<open>bs\<close>, one worker takes all of them, the loop is woken and runs
  the replies, and the peer takes the output in the pieces \<open>ns\<close>. The result is what has been
  sent.
\<close>

definition empty_queue :: "echoserver world \<Rightarrow> echoserver world" where
  "empty_queue w = (fst w, (snd w)\<lparr>es_threadpool := (es_threadpool (snd w))\<lparr>p_queue := []\<rparr>\<rparr>)"

lemma empty_queue_simps [simp]:
  "fst (empty_queue w) = fst w" "p_queue (es_threadpool (snd (empty_queue w))) = []"
  "echo_ready (empty_queue w) \<longleftrightarrow> echo_ready w"
  by (simp_all add: empty_queue_def echo_ready_def ThreadPool_size_def)

definition echo_round ::
  "epoll_ctl \<Rightarrow> (u64 \<Rightarrow> u64) \<Rightarrow> (u64 \<Rightarrow> u64) \<Rightarrow> int \<Rightarrow> int \<Rightarrow> ((nat \<Rightarrow> byte) \<times> read_result list) list \<Rightarrow>
   int list \<Rightarrow> echoserver world cstate \<Rightarrow> (echoserver world cstate \<times> bytes) res option" where
  "echo_round ctl evread evwrite iotid worktid bs ns s =
     (case onmessage_bursts ctl (echo_server_call ctl evwrite iotid) clock bs s of
        None \<Rightarrow> None
      | Some (Inl e) \<Rightarrow> Some (Inl e)
      | Some (Inr (c, l, w)) \<Rightarrow>
     (case exec_all (worker_exec ctl evwrite worktid) (p_queue (es_threadpool (snd w))) (c, l, empty_queue w) of
        Inl e \<Rightarrow> Some (Inl e)
      | Inr (c, l, w) \<Rightarrow>
     (case EventLoop_handlewakeup evread (loop_exec ctl) (l, [cn_id c \<mapsto> c]) of
        None \<Rightarrow> None
      | Some (Inl e) \<Rightarrow> Some (Inl e)
      | Some (Inr (l, heap)) \<Rightarrow>
     (case heap (cn_id c) of
        None \<Rightarrow> Some (Inl (Undefined Use_after_free))
      | Some c \<Rightarrow> Some (write_all ctl (echo_server_call ctl evwrite iotid) ns (c, l, w) [])))))"

text \<open>The workers' replies, run by the loop, for a connection that is alone in its loop.\<close>

lemma received_other [simp]:
  "conn_out (received c ms p now) = conn_out c"
  "conn_open (received c ms p now) l \<longleftrightarrow> conn_open c l"
  "cn_disconnect (received c ms p now) = cn_disconnect c"
  "cn_owned (received c ms p now) = cn_owned c"
  "cn_sendcompletecallback (received c ms p now) = cn_sendcompletecallback c"
  by (simp_all add: received_def conn_out_def conn_open_def)

lemma replies_to_self: "replies_to i (map (Pair i) ms) = ms"
  by (induction ms) simp_all

context epoll_reliable
begin

lemma wakeup_one:
  assumes "conn_open c l" and "\<not> el_locked l" and "el_taskqueue l = map (\<lambda>m. reply_task (i, m)) ms"
  shows "\<exists>l' c'. EventLoop_handlewakeup evread (loop_exec ctl) (l, [i \<mapsto> c]) = Some (Inr (l', [i \<mapsto> c'])) \<and>
    conn_open c' l' \<and> same_conn c c' \<and> conn_out c' = conn_out c @ concat (map frame ms)"
proof -
  have "heap_open [i \<mapsto> c] l"
    using assms(1) by (auto simp: heap_open_def split: if_splits)
  moreover have "el_taskqueue l = map reply_task (map (Pair i) ms)"
    using assms(3) by simp
  ultimately obtain l' heap' where
    run: "EventLoop_handlewakeup evread (loop_exec ctl) (l, [i \<mapsto> c]) = Some (Inr (l', heap'))"
    and "heap_open heap' l'" and rep: "replied [i \<mapsto> c] heap' (map (Pair i) ms)"
    using handlewakeup_replies [of "[i \<mapsto> c]" l "map (Pair i) ms" evread] assms(2) by auto
  have "[i \<mapsto> c] i = Some c" by simp
  with rep obtain c' where c': "heap' i = Some c'" "same_conn c c'"
    "conn_out c' = conn_out c @ concat (map frame ms)"
    unfolding replied_def replies_to_self by (metis replies_to_self)
  have "dom heap' = {i}" using rep by (simp add: replied_def)
  with c'(1) have "heap' = [i \<mapsto> c']"
    by (auto simp: fun_eq_iff dom_def split: if_splits)
  with run c' \<open>heap_open heap' l'\<close> show ?thesis by (auto simp: heap_open_def)
qed

end

text \<open>What a round leaves alone: everything of the loop but epoll, and of the connection but the output.\<close>

definition same_loop :: "eventloop \<Rightarrow> eventloop \<Rightarrow> bool" where
  "same_loop l l' \<longleftrightarrow> l'\<lparr>el_ep := el_ep l\<rparr> = l"

lemma same_loop_refl [simp]: "same_loop l l"
  by (simp add: same_loop_def)

lemma same_loop_trans: "same_loop l l' \<Longrightarrow> same_loop l' l'' \<Longrightarrow> same_loop l l''"
  by (metis same_loop_def eventloop.surjective eventloop.update_convs(5))

lemma same_loop_ep [simp]: "same_loop l (l\<lparr>el_ep := ep\<rparr>)"
  by (simp add: same_loop_def)

lemma same_loopD:
  assumes "same_loop l l'"
  shows "el_threadid l' = el_threadid l" "el_taskqueue l' = el_taskqueue l" "el_locked l' = el_locked l"
  by (subst assms [unfolded same_loop_def, symmetric], simp)+

lemma sendinloop_same_loop:
  "Connection_sendinloop ctl data n (c, l, w) = Inr (c', l', w') \<Longrightarrow> same_loop l l'"
  by (auto simp: Connection_sendinloop_def bind_res_eq_Inr on_channel_def)

lemma exec_all_same_loop:
  "exec_all (loop_exec ctl) ts (l, heap) = Inr (l', heap') \<Longrightarrow> same_loop l l'"
proof (induction ts arbitrary: l heap)
  case (Cons t ts)
  obtain l1 heap1 where one: "loop_exec ctl t (l, heap) = Inr (l1, heap1)"
    and rest: "exec_all (loop_exec ctl) ts (l1, heap1) = Inr (l', heap')"
    using Cons.prems by (auto simp: bind_res_eq_Inr)
  from one have "same_loop l l1"
    by (cases t) (auto simp: task_sendinloop_def bind_res_eq_Inr split: option.splits dest: sendinloop_same_loop)
  then show ?case using Cons.IH [OF rest] by (rule same_loop_trans)
qed simp

lemma handlewakeup_loop:
  assumes "EventLoop_handlewakeup evread (loop_exec ctl) (l, heap) = Some (Inr (l', heap'))"
  shows "el_threadid l' = el_threadid l \<and> el_taskqueue l' = [] \<and> \<not> el_locked l'"
proof -
  have free: "\<not> el_locked l" using assms by (auto simp: EventLoop_handlewakeup_def Let_def split: if_splits)
  let ?l = "l\<lparr>el_wakecount := evread (el_wakecount l), el_locked := True\<rparr>"
  obtain l1 where "exec_all (loop_exec ctl) (el_taskqueue l) (?l, heap) = Inr (l1, heap')"
    and "l' = l1\<lparr>el_taskqueue := [], el_locked := False\<rparr>"
    using assms free
    by (cases "exec_all (loop_exec ctl) (el_taskqueue l) (?l, heap)") (auto simp: loop_tasks.handlewakeup_runs)
  with same_loopD(1) [OF exec_all_same_loop [OF this(1)]] show ?thesis by simp
qed

lemma same_conn_trans: "same_conn c d \<Longrightarrow> same_conn d e \<Longrightarrow> same_conn c e"
  by (metis same_conn_def connection.surjective connection.update_convs(4,6))

lemma writecallback_same:
  assumes "Connection_writecallback ctl (echo_server_call ctl evwrite tid) n (c, l, w) = Inr (c', l', w')"
    and "ts_sendcompletecb (fst w) = Some Cb_HandleSendComplete" and "cn_sendcompletecallback c = Some Cb_sendcomplete"
  shows "same_conn c c' \<and> same_loop l l' \<and> w' = w"
  using assms
  by (cases w)
    (auto simp: Connection_writecallback_def bind_res_eq_Inr Let_def on_channel_def call_server_def
      TcpServer_sendcomplete_def server_of_def call_handler_def same_conn_def split: if_splits)

lemma write_all_same:
  assumes "write_all ctl (echo_server_call ctl evwrite tid) ns (c, l, w) sent = Inr ((c', l', w'), sent')"
    and "ts_sendcompletecb (fst w) = Some Cb_HandleSendComplete" and "cn_sendcompletecallback c = Some Cb_sendcomplete"
  shows "same_conn c c' \<and> same_loop l l' \<and> w' = w"
  using assms
proof (induction ns arbitrary: c l sent)
  case (Cons n ns)
  show ?case
  proof (cases "conn_out c = []")
    case False
    let ?k = "min n (int (length (conn_out c)))"
    obtain c1 l1 w1 where one: "Connection_writecallback ctl (echo_server_call ctl evwrite tid) ?k (c, l, w) = Inr (c1, l1, w1)"
      and rest: "write_all ctl (echo_server_call ctl evwrite tid) ns (c1, l1, w1) (sent @ take (nat ?k) (conn_out c)) =
        Inr ((c', l', w'), sent')"
      using Cons.prems(1) False by (auto simp: Let_def bind_res_eq_Inr)
    note same = writecallback_same [OF one Cons.prems(2,3)]
    then have "cn_sendcompletecallback c1 = Some Cb_sendcomplete"
      using Cons.prems(3) same_connD(4) [of c c1] by simp
    with Cons.IH [of c1 l1 "sent @ take (nat ?k) (conn_out c)"] rest same Cons.prems(2) show ?thesis
      by (auto intro: same_conn_trans same_loop_trans)
  qed (use Cons.prems in simp)
qed simp

text \<open>The state between two rounds; \<open>worktid\<close> is the thread of the worker.\<close>

definition service_idle :: "int \<Rightarrow> echoserver world cstate \<Rightarrow> bool" where
  "service_idle worktid s \<longleftrightarrow>
     (case s of (c, l, w) \<Rightarrow>
        conn_open c l \<and> conn_ready c \<and> cn_sendcompletecallback c = Some Cb_sendcomplete \<and> \<not> cn_disconnect c \<and>
        b_buf (cn_inputbuffer c) = [] \<and> conn_out c = [] \<and> el_taskqueue l = [] \<and> \<not> el_locked l \<and>
        el_threadid l \<noteq> Some worktid \<and> echo_ready w \<and> p_queue (es_threadpool (snd w)) = [])"

lemma echo_round_idle:
  assumes rel: "epoll_reliable ctl" and idle: "service_idle worktid s"
    and ms: "list_all frame_ok ms" "list_all nul_free ms"
    and bs: "list_all (list_all reads_on \<circ> snd) bs" "bursts_bytes bs = concat (map frame ms)"
    and ns: "list_all (\<lambda>n. 1 \<le> n) ns" "length (concat (map (frame \<circ> echo_reply) ms)) \<le> length ns"
  shows "\<exists>s'. echo_round ctl evread evwrite iotid worktid bs ns s =
      Some (Inr (s', concat (map (frame \<circ> echo_reply) ms))) \<and> service_idle worktid s'"
proof -
  obtain c l w where s: "s = (c, l, w)" by (cases s)
  note idle = idle [unfolded service_idle_def s prod.case]
  let ?srv = "echo_server_call ctl evwrite iotid"
  let ?c = "received c ms [] (clock w)" and ?w1 = "echo_sink.take_all (cn_id c) ms w"
  let ?w = "empty_queue ?w1"
  note replies = echo_reply_stream [OF rel, of evwrite iotid]
  have read: "onmessage_bursts ctl ?srv clock bs (c, l, w) = Some (Inr (?c, l, ?w1))"
    using idle ms bs by (intro echo_sink.bursts_complete) simp_all
  have queue: "p_queue (es_threadpool (snd ?w1)) = map (request_task (cn_id c)) ms"
    using idle by (simp add: take_all_queue)
  obtain l1 where work: "exec_all (worker_exec ctl evwrite worktid) (map (request_task (cn_id c)) ms) (?c, l, ?w) =
      Inr (?c, l1, ?w)"
    and l1: "el_taskqueue l1 = map (\<lambda>m. reply_task (cn_id c, m)) (map echo_reply ms)"
      "el_ep l1 = el_ep l" "\<not> el_locked l1" "el_threadid l1 = el_threadid l"
    using workers_queue_replies [of ?c l worktid ms ctl evwrite "cn_id c" ?w] idle ms by (auto simp: comp_def)
  have "conn_open ?c l1" using idle conn_open_ep [OF l1(2), of ?c] by simp
  from epoll_reliable.wakeup_one [OF rel this l1(3,1), of evread] obtain l2 c2 where
    wake: "EventLoop_handlewakeup evread (loop_exec ctl) (l1, [cn_id c \<mapsto> ?c]) = Some (Inr (l2, [cn_id c \<mapsto> c2]))"
    and c2: "conn_open c2 l2" "same_conn ?c c2" "conn_out c2 = concat (map (frame \<circ> echo_reply) ms)"
    using idle by auto
  have ready: "echo_ready ?w" using idle by (simp add: echo_sink.ready_take_all)
  have "reply_stream.sender echo_ready (c2, l2, ?w)"
    using c2(1) same_connD [OF c2(2)] idle ready by (simp add: reply_stream.sender_def [OF replies] conn_ready_def)
  from reply_stream.write_all_drains [OF replies this ns(1), of "[]"] ns(2) c2(3)
  obtain c3 l3 w3 where sent: "write_all ctl ?srv ns (c2, l2, ?w) [] = Inr ((c3, l3, w3), conn_out c2)"
    and send: "reply_stream.sender echo_ready (c3, l3, w3)" and out: "conn_out c3 = []"
    by auto
  have "ts_sendcompletecb (fst ?w) = Some Cb_HandleSendComplete" using ready by (simp add: echo_ready_def)
  from write_all_same [OF sent this] same_connD(4) [OF c2(2)] idle
  have same: "same_conn c2 c3" "same_loop l2 l3" "w3 = ?w" by simp_all
  have "service_idle worktid (c3, l3, w3)"
    using send out ready idle handlewakeup_loop [OF wake] l1(4) same(3) same_loopD [OF same(2)]
      same_connD [OF same_conn_trans [OF c2(2) same(1)]]
    by (simp add: service_idle_def reply_stream.sender_def [OF replies] conn_ready_def received_def)
  then show ?thesis
    using read queue work wake c2(3) sent by (intro exI [of _ "(c3, l3, w3)"]) (simp add: s echo_round_def)
qed

end
