(* ===== verification/Event_Dispatch.thy ===== *)
theory Event_Dispatch
  imports Echo_Service
begin

text \<open>
  \<^verbatim>\<open>EventLoop::run\<close>: waiting for events and calling the handlers of the reported channels, on
  the state of the whole server. A handler works on the object its channel belongs to; the
  objects of connections live as long as somebody shares their ownership.
\<close>

subsection \<open>The objects\<close>

text \<open>Loop 0 is the main loop, loop \<open>Suc i\<close> is \<^verbatim>\<open>subloops_[i]\<close>.\<close>

definition get_loop :: "nat \<Rightarrow> 'x server \<Rightarrow> eventloop option" where
  "get_loop lid S =
     (case lid of
        0 \<Rightarrow> Some (sv_mainloop S)
      | Suc i \<Rightarrow> if i < length (sv_subloops S) then Some (sv_subloops S ! i) else None)"

definition set_loop :: "nat \<Rightarrow> eventloop \<Rightarrow> 'x server \<Rightarrow> 'x server" where
  "set_loop lid l S =
     (case lid of
        0 \<Rightarrow> S\<lparr>sv_mainloop := l\<rparr>
      | Suc i \<Rightarrow> S\<lparr>sv_subloops := (sv_subloops S)[i := l]\<rparr>)"

definition chan_deref :: "chan_ptr \<Rightarrow> 'x server \<Rightarrow> channel option" where
  "chan_deref p S =
     (case p of
        Accept_channel \<Rightarrow> Some (ac_acceptchannel (sv_acceptor S))
      | Wake_channel lid \<Rightarrow> map_option el_wakechannel (get_loop lid S)
      | Timer_channel lid \<Rightarrow> map_option el_timerchannel (get_loop lid S)
      | Client_channel cid \<Rightarrow> map_option cn_clientchannel (sv_heap S cid))"

definition chan_put :: "chan_ptr \<Rightarrow> channel \<Rightarrow> 'x server \<Rightarrow> 'x server" where
  "chan_put p ch S =
     (case p of
        Accept_channel \<Rightarrow> S\<lparr>sv_acceptor := (sv_acceptor S)\<lparr>ac_acceptchannel := ch\<rparr>\<rparr>
      | Wake_channel lid \<Rightarrow>
          (case get_loop lid S of None \<Rightarrow> S | Some l \<Rightarrow> set_loop lid (l\<lparr>el_wakechannel := ch\<rparr>) S)
      | Timer_channel lid \<Rightarrow>
          (case get_loop lid S of None \<Rightarrow> S | Some l \<Rightarrow> set_loop lid (l\<lparr>el_timerchannel := ch\<rparr>) S)
      | Client_channel cid \<Rightarrow>
          (case sv_heap S cid of None \<Rightarrow> S
           | Some c \<Rightarrow> S\<lparr>sv_heap := (sv_heap S)(cid \<mapsto> c\<lparr>cn_clientchannel := ch\<rparr>)\<rparr>))"

lemma get_set_loop [simp]:
  "get_loop lid S \<noteq> None \<Longrightarrow> get_loop lid' (set_loop lid l S) = (if lid' = lid then Some l else get_loop lid' S)"
  by (auto simp: get_loop_def set_loop_def nth_list_update split: nat.splits if_splits)

lemma set_loop_simps [simp]:
  "sv_heap (set_loop lid l S) = sv_heap S"
  "sv_acceptor (set_loop lid l S) = sv_acceptor S"
  "sv_tcpserver (set_loop lid l S) = sv_tcpserver S"
  "sv_app (set_loop lid l S) = sv_app S"
  "sv_next (set_loop lid l S) = sv_next S"
  "length (sv_subloops (set_loop lid l S)) = length (sv_subloops S)"
  by (simp_all add: set_loop_def split: nat.splits)

lemma get_loop_fields [simp]:
  "get_loop lid (S\<lparr>sv_heap := h\<rparr>) = get_loop lid S"
  "get_loop lid (S\<lparr>sv_tcpserver := ts\<rparr>) = get_loop lid S"
  "get_loop lid (S\<lparr>sv_app := x\<rparr>) = get_loop lid S"
  by (simp_all add: get_loop_def split: nat.splits)

interpretation server_channels: channel_store chan_deref chan_put
proof
  show "chan_deref q (chan_put p ch S) = (if q = p then Some ch else chan_deref q S)"
    if "chan_deref p S \<noteq> None" for p q :: chan_ptr and ch and S :: "'a server"
    using that
    by (auto simp: chan_deref_def chan_put_def split: chan_ptr.splits option.splits)
      (auto simp: get_loop_def split: nat.splits)
qed

subsection \<open>Lifetime\<close>

text \<open>
  A connection is owned by the map of the server, by the map of a loop, and by the tasks of
  the workers (\<open>app_owns\<close>). When a handler is done and nobody owns an object any more, it has
  been destroyed: \<^verbatim>\<open>Socket::~Socket\<close> closes the descriptor, and the kernel takes a closed
  descriptor out of every epoll instance.
\<close>

definition owners :: "('x \<Rightarrow> nat list) \<Rightarrow> 'x server \<Rightarrow> nat list" where
  "owners app_owns S =
     map snd (ts_conns (sv_tcpserver S)) @
     concat (map (map snd \<circ> el_conns) (sv_mainloop S # sv_subloops S)) @ app_owns (sv_app S)"

definition Socket_close :: "int list \<Rightarrow> eventloop \<Rightarrow> eventloop" where
  "Socket_close fds l =
     l\<lparr>el_ep := (el_ep l)\<lparr>ep_interest := (\<lambda>fd. if fd \<in> set fds then None else ep_interest (el_ep l) fd)\<rparr>\<rparr>"

definition orphans :: "('x \<Rightarrow> nat list) \<Rightarrow> 'x server \<Rightarrow> connection list" where
  "orphans app_owns S =
     List.map_filter (\<lambda>cid. if cid \<in> set (owners app_owns S) then None else sv_heap S cid) [0..<sv_next S]"

definition release :: "('x \<Rightarrow> nat list) \<Rightarrow> 'x server \<Rightarrow> 'x server" where
  "release app_owns S =
     (let fds = map Connection_fd (orphans app_owns S) in
      S\<lparr>sv_heap := sv_heap S |` set (owners app_owns S),
        sv_mainloop := Socket_close fds (sv_mainloop S),
        sv_subloops := map (Socket_close fds) (sv_subloops S)\<rparr>)"

subsection \<open>Handlers\<close>

text \<open>
  What the handlers take from outside: the system calls, the handlers of the application
  (\<open>env_app\<close>, for the calling thread), the clock, and who owns connections in its state.
\<close>

record 'x env =
  env_ctl :: epoll_ctl
  env_evread :: "u64 \<Rightarrow> u64"
  env_evwrite :: "u64 \<Rightarrow> u64"
  env_inet_ntoa :: "u32 \<Rightarrow> bytes"
  env_garbage :: u16
  env_blank :: sockaddr_in
  env_app :: "int \<Rightarrow> 'x app_call"
  env_timeout :: "handler \<Rightarrow> eventloop \<times> 'x world \<Rightarrow> (eventloop \<times> 'x world) res"
  env_clock :: "'x world \<Rightarrow> int"
  env_owns :: "'x \<Rightarrow> nat list"

text \<open>What the system calls of one handler give; a handler uses what belongs to it.\<close>

record io_input =
  in_reads :: "read_result list"
  in_stale :: "nat \<Rightarrow> byte"
  in_writen :: int
  in_accept :: "int \<times> sockaddr_in"
  in_now :: int

text \<open>A member function of the connection with the given number, on its loop and the server.\<close>

definition on_connection ::
  "('x world cstate \<Rightarrow> 'x world cstate res option) \<Rightarrow> nat \<Rightarrow> 'x server \<Rightarrow> 'x server res option" where
  "on_connection f cid S =
     (case sv_heap S cid of
        None \<Rightarrow> Some (Inl (Undefined Use_after_free))
      | Some c \<Rightarrow>
     (case get_loop (cn_loop c) S of
        None \<Rightarrow> Some (Inl (Undefined Use_after_free))
      | Some l \<Rightarrow>
     (case f (c, l, sv_tcpserver S, sv_app S) of
        None \<Rightarrow> None
      | Some (Inl e) \<Rightarrow> Some (Inl e)
      | Some (Inr (c', l', ts, x)) \<Rightarrow>
          Some (Inr (set_loop (cn_loop c) l'
            (S\<lparr>sv_heap := (sv_heap S)(cid \<mapsto> c'), sv_tcpserver := ts, sv_app := x\<rparr>))))))"

definition on_wakeup :: "'x env \<Rightarrow> nat \<Rightarrow> 'x server \<Rightarrow> 'x server res option" where
  "on_wakeup env lid S =
     (case get_loop lid S of
        None \<Rightarrow> Some (Inl (Undefined Use_after_free))
      | Some l \<Rightarrow>
     (case EventLoop_handlewakeup (env_evread env) (loop_exec (env_ctl env)) (l, sv_heap S) of
        None \<Rightarrow> None
      | Some (Inl e) \<Rightarrow> Some (Inl e)
      | Some (Inr (l', heap)) \<Rightarrow> Some (Inr (set_loop lid l' (S\<lparr>sv_heap := heap\<rparr>)))))"

definition on_timer :: "io_input \<Rightarrow> nat \<Rightarrow> 'x server \<Rightarrow> 'x server res option" where
  "on_timer inp lid S =
     (case get_loop lid S of
        None \<Rightarrow> Some (Inl (Undefined Use_after_free))
      | Some l \<Rightarrow>
     (case EventLoop_handletimer (sv_heap S) TcpServer_removeconn (in_now inp) l (sv_tcpserver S, sv_app S) of
        Inl e \<Rightarrow> Some (Inl e)
      | Inr (l', ts, x) \<Rightarrow> Some (Inr (set_loop lid l' (S\<lparr>sv_tcpserver := ts, sv_app := x\<rparr>)))))"

text \<open>The object a channel belongs to, for the callbacks bound to it.\<close>

fun owner_of :: "chan_ptr \<Rightarrow> nat" where
  "owner_of Accept_channel = 0"
| "owner_of (Wake_channel lid) = lid"
| "owner_of (Timer_channel lid) = lid"
| "owner_of (Client_channel cid) = cid"

fun run_callback :: "'x env \<Rightarrow> int \<Rightarrow> io_input \<Rightarrow> callback \<Rightarrow> nat \<Rightarrow> 'x server \<Rightarrow> 'x server res option" where
  "run_callback env tid inp Cb_acceptor_newconnection n S =
     Some (Acceptor_newconnection (env_inet_ntoa env) (env_garbage env) (env_blank env) (in_accept inp)
       (TcpServer_newconnection (env_ctl env) (in_now inp) (env_app env tid)) (sv_acceptor S) S)"
| "run_callback env tid inp Cb_handlewakeup n S = on_wakeup env n S"
| "run_callback env tid inp Cb_handletimer n S = on_timer inp n S"
| "run_callback env tid inp Cb_connection_onmessage n S =
     on_connection (Connection_onmessage (env_ctl env) (server_call (env_app env tid)) (env_clock env)
       (in_stale inp) (in_reads inp)) n S"
| "run_callback env tid inp Cb_connection_close n S =
     on_connection (\<lambda>s. Some (Connection_closecallback (env_ctl env) (server_call (env_app env tid)) s)) n S"
| "run_callback env tid inp Cb_connection_error n S =
     on_connection (\<lambda>s. Some (Connection_errorcallback (env_ctl env) (server_call (env_app env tid)) s)) n S"
| "run_callback env tid inp Cb_connection_write n S =
     on_connection (\<lambda>s. Some (Connection_writecallback (env_ctl env) (server_call (env_app env tid)) (in_writen inp) s)) n S"

subsection \<open>The loop\<close>

text \<open>\<^verbatim>\<open>for (auto &ch : channels) ch->handleevent();\<close>\<close>

fun run_channels :: "'x env \<Rightarrow> int \<Rightarrow> (chan_ptr \<times> io_input) list \<Rightarrow> 'x server \<Rightarrow> 'x server res option" where
  "run_channels env tid [] S = Some (Inr S)"
| "run_channels env tid ((p, inp) # ps) S =
     (case chan_deref p S of
        None \<Rightarrow> Some (Inl (Undefined Use_after_free))
      | Some ch \<Rightarrow>
     (case Channel_handleevent ch of
        Inl e \<Rightarrow> Some (Inl e)
      | Inr cb \<Rightarrow>
     (case run_callback env tid inp cb (owner_of p) S of
        None \<Rightarrow> None
      | Some (Inl e) \<Rightarrow> Some (Inl e)
      | Some (Inr S') \<Rightarrow> run_channels env tid ps (release (env_owns env) S'))))"

text \<open>
  One turn of the loop: what \<^verbatim>\<open>epoll_wait\<close> returns and, by their position among the events, the
  inputs of the handlers are the argument.
\<close>

type_synonym turn_input = "wait_result \<times> (nat \<Rightarrow> io_input)"

definition EventLoop_turn :: "'x env \<Rightarrow> nat \<Rightarrow> int \<Rightarrow> turn_input \<Rightarrow> 'x server \<Rightarrow> 'x server res option" where
  "EventLoop_turn env lid tid turn S =
     (case get_loop lid S of
        None \<Rightarrow> Some (Inl (Undefined Use_after_free))
      | Some l \<Rightarrow>
     (case Epoll_loop chan_deref chan_put (fst turn) S of
        Inl e \<Rightarrow> Some (Inl e)
      | Inr (channels, S) \<Rightarrow>
     (if channels = [] then
        (case el_epolltimeoutcallback l of
           None \<Rightarrow> Some (Inl Bad_function_call)
         | Some Cb_epolltimeout \<Rightarrow>
        (case TcpServer_epolltimeout (env_timeout env) (l, sv_tcpserver S, sv_app S) of
           Inl e \<Rightarrow> Some (Inl e)
         | Inr (l, ts, x) \<Rightarrow> Some (Inr (set_loop lid l (S\<lparr>sv_tcpserver := ts, sv_app := x\<rparr>)))))
      else run_channels env tid (zip channels (map (snd turn) [0..<length channels])) S)))"

text \<open>
  \<^verbatim>\<open>while (stop_ == false)\<close>, for the turns that are given; where they are used up the thread is
  still in \<^verbatim>\<open>epoll_wait\<close>, the value \<open>None\<close>.
\<close>

fun EventLoop_cycle ::
  "'x env \<Rightarrow> nat \<Rightarrow> int \<Rightarrow> turn_input list \<Rightarrow> 'x server \<Rightarrow> 'x server res option" where
  "EventLoop_cycle env lid tid turns S =
     (case get_loop lid S of
        None \<Rightarrow> Some (Inl (Undefined Use_after_free))
      | Some l \<Rightarrow>
      if el_stop l then Some (Inr S)
      else
        (case turns of
           [] \<Rightarrow> None
         | turn # turns' \<Rightarrow>
        (case EventLoop_turn env lid tid turn S of
           None \<Rightarrow> None
         | Some (Inl e) \<Rightarrow> Some (Inl e)
         | Some (Inr S) \<Rightarrow> EventLoop_cycle env lid tid turns' S)))"

declare EventLoop_cycle.simps [simp del]

definition EventLoop_run ::
  "'x env \<Rightarrow> nat \<Rightarrow> int \<Rightarrow> turn_input list \<Rightarrow> 'x server \<Rightarrow> 'x server res option" where
  "EventLoop_run env lid tid turns S =
     (case get_loop lid S of
        None \<Rightarrow> Some (Inl (Undefined Use_after_free))
      | Some l \<Rightarrow> EventLoop_cycle env lid tid turns (set_loop lid (l\<lparr>el_threadid := Some tid\<rparr>) S))"

text \<open>\<^verbatim>\<open>TcpServer::start_run\<close>\<close>

definition TcpServer_start_run ::
  "'x env \<Rightarrow> int \<Rightarrow> turn_input list \<Rightarrow> 'x server \<Rightarrow> 'x server res option" where
  "TcpServer_start_run env tid turns S = EventLoop_run env 0 tid turns S"

end
