(* ===== verification/Handler_Relation.thy ===== *)
theory Handler_Relation
  imports Event_Dispatch
begin

text \<open>
  The member functions of a connection that read, close and report errors change the input buffer,
  the time stamp, the flag \<^verbatim>\<open>disconnect_\<close> and the channel, and call into the server. What holds
  of each of these changes, and of the calls, holds of the whole functions.
\<close>

lemma pickmessage_sep: "pickmessage stale ss b = Inr (found, m, b') \<Longrightarrow> b_sep b' = b_sep b"
  by (auto simp: pickmessage_def Let_def bind_res_eq_Inr split: if_splits)

lemma Buffer_append_sep: "Buffer_append data n b = Inr b' \<Longrightarrow> b_sep b' = b_sep b"
  by (auto simp: Buffer_append_def bind_res_eq_Inr)

locale handler_relation =
  fixes ctl :: epoll_ctl and srv :: "'w server_call" and R :: "'w cstate \<Rightarrow> 'w cstate \<Rightarrow> bool"
  assumes refl: "R s s"
    and trans: "R s s' \<Longrightarrow> R s' s'' \<Longrightarrow> R s s''"
    and input: "b_sep b = b_sep (cn_inputbuffer c) \<Longrightarrow> R (c, l, w) (c\<lparr>cn_inputbuffer := b\<rparr>, l, w)"
    and take: "b_sep b = b_sep (cn_inputbuffer c) \<Longrightarrow> R (c, l, w) (c\<lparr>cn_inputbuffer := b, cn_lasttime := t\<rparr>, l, w)"
    and disconnect: "R (c, l, w) (c\<lparr>cn_disconnect := True\<rparr>, l, w)"
    and remove: "on_channel (Channel_remove ctl) s = Inr s' \<Longrightarrow> R s s'"
    and call: "call_server srv f m s = Inr (m', s') \<Longrightarrow> R s s'"
begin

lemma close_rel:
  assumes "bind_res (on_channel (Channel_remove ctl) (c\<lparr>cn_disconnect := True\<rparr>, l, w)) (\<lambda>s.
    bind_res (call_server srv (f (fst s)) m s) (\<lambda>(_, s). Inr s)) = Inr s'"
  shows "R (c, l, w) s'"
proof -
  obtain s1 m' where "on_channel (Channel_remove ctl) (c\<lparr>cn_disconnect := True\<rparr>, l, w) = Inr s1"
    and "call_server srv (f (fst s1)) m s1 = Inr (m', s')"
    using assms by (auto simp: bind_res_eq_Inr)
  then show ?thesis by (blast intro: trans disconnect remove call)
qed

lemma closecallback_rel: "Connection_closecallback ctl srv s = Inr s' \<Longrightarrow> R s s'"
  by (cases s) (simp add: Connection_closecallback_def close_rel)

lemma errorcallback_rel: "Connection_errorcallback ctl srv s = Inr s' \<Longrightarrow> R s s'"
  by (cases s) (simp add: Connection_errorcallback_def close_rel)

lemma message_loop_rel:
  assumes "message_loop srv clk stale message s = Some (Inr s')"
  shows "R s s'"
proof -
  have "srv' = srv \<longrightarrow> r = Inr s' \<longrightarrow> R s s'"
    if "message_loop srv' clk stale message s = Some r" for srv' :: "'w server_call" and clk stale message s r
  proof (rule message_loop.raw_induct [OF _ that,
        where P = "\<lambda>srv' clk stale message s r. srv' = srv \<longrightarrow> r = Inr s' \<longrightarrow> R s s'"], intro impI)
    fix loop and srv' :: "'w server_call" and clk :: "'w \<Rightarrow> int" and stale message s r
    assume IH: "\<And>srv' clk stale message s r. loop srv' clk stale message s = Some r \<Longrightarrow>
        srv' = srv \<longrightarrow> r = Inr s' \<longrightarrow> R s s'"
      and run: "(case pickmessage stale message (cn_inputbuffer (fst s)) of
        Inl e \<Rightarrow> Some (Inl e)
      | Inr (found, message, b) \<Rightarrow>
          (let c = (fst s)\<lparr>cn_inputbuffer := b\<rparr> in
           if \<not> found then Some (Inr (c, snd s))
           else
             (let c = c\<lparr>cn_lasttime := clk (snd (snd s))\<rparr> in
              case call_server srv' (cn_onmessagecallback c) message (c, snd s) of
                Inl e \<Rightarrow> Some (Inl e)
              | Inr (message, s) \<Rightarrow> loop srv' clk stale message s))) = Some r"
      and srv: "srv' = srv" and r: "r = Inr s'"
    obtain c l w where s: "s = (c, l, w)" by (cases s)
    obtain found m b where pick: "pickmessage stale message (cn_inputbuffer c) = Inr (found, m, b)"
      using run r by (auto simp: s split: sum.splits)
    note sep = pickmessage_sep [OF pick]
    show "R s s'"
    proof (cases found)
      case False
      with run r pick input [OF sep] show ?thesis by (auto simp: s)
    next
      case True
      let ?s = "(c\<lparr>cn_inputbuffer := b, cn_lasttime := clk w\<rparr>, l, w)"
      obtain m1 s1 where "call_server srv (cn_onmessagecallback c) m ?s = Inr (m1, s1)"
        and "loop srv clk stale m1 s1 = Some r"
        using run r pick True by (auto simp: s srv Let_def split: sum.splits)
      then have "R ?s s1" and "R s1 s'" using IH r by (blast intro: call)+
      with take [OF sep] show ?thesis unfolding s by (blast intro: trans)
    qed
  qed
  with assms show ?thesis by blast
qed

lemma onmessage_rel: "Connection_onmessage ctl srv clk stale rs s = Some (Inr s') \<Longrightarrow> R s s'"
proof (induction rs arbitrary: s)
  case (Cons r rs)
  show ?case
  proof (cases r)
    case (Read_data data)
    obtain c l w where s: "s = (c, l, w)" by (cases s)
    obtain b where b: "Buffer_append (Some (data @ replicate (1024 - length data) 0)) (length data) (cn_inputbuffer c) = Inr b"
      and "Connection_onmessage ctl srv clk stale rs (c\<lparr>cn_inputbuffer := b\<rparr>, l, w) = Some (Inr s')"
      using Cons.prems by (auto simp: Read_data s split: sum.splits)
    from Cons.IH [OF this(2)] input [OF Buffer_append_sep [OF b]] show ?thesis
      unfolding s by (blast intro: trans)
  qed (use Cons in \<open>auto intro: message_loop_rel closecallback_rel\<close>)
qed simp

end

end
