(* ===== verification/Object_Safety.thy ===== *)
theory Object_Safety
  imports Handler_Relation
begin

text \<open>
  What the member functions of a connection may change: the object stays the same one, its
  event loop watches nothing new but the channel of the connection, and the maps lose entries
  at most. It holds for every behaviour of the system calls. \<open>safe_app\<close> is the contract that
  the handlers of an application keep to for it.
\<close>

subsection \<open>What a handler may change\<close>

text \<open>The interest list changes at the descriptor of the channel only, to the channel or to nothing.\<close>

definition interest_local :: "int \<Rightarrow> chan_ptr \<Rightarrow> epoll \<Rightarrow> epoll \<Rightarrow> bool" where
  "interest_local fd p ep ep' \<longleftrightarrow>
     (\<forall>f e. ep_interest ep' f = Some e \<longrightarrow> ep_interest ep f = Some e \<or> f = fd \<and> snd e = p)"

lemma interest_local_refl [simp]: "interest_local fd p ep ep"
  by (simp add: interest_local_def)

lemma interest_local_trans:
  "interest_local fd p ep ep' \<Longrightarrow> interest_local fd p ep' ep'' \<Longrightarrow> interest_local fd p ep ep''"
  unfolding interest_local_def by blast

lemma handleevent_fields [simp]:
  "Channel_handleevent (ch\<lparr>ch_inepoll := b\<rparr>) = Channel_handleevent ch"
  "Channel_handleevent (ch\<lparr>ch_events := ev\<rparr>) = Channel_handleevent ch"
  by (simp_all add: Channel_handleevent_def)

definition chan_local :: "(channel \<Rightarrow> epoll \<Rightarrow> (channel \<times> epoll) res) \<Rightarrow> bool" where
  "chan_local op \<longleftrightarrow>
     (\<forall>ch ep ch' ep'. op ch ep = Inr (ch', ep') \<longrightarrow> ch_this ch' = ch_this ch \<and> ch_fd ch' = ch_fd ch \<and>
        Channel_handleevent ch' = Channel_handleevent ch \<and> interest_local (ch_fd ch) (ch_this ch) ep ep')"

lemma chan_localD:
  "chan_local op \<Longrightarrow> op ch ep = Inr (ch', ep') \<Longrightarrow>
    ch_this ch' = ch_this ch \<and> ch_fd ch' = ch_fd ch \<and> Channel_handleevent ch' = Channel_handleevent ch \<and>
    interest_local (ch_fd ch) (ch_this ch) ep ep'"
  by (simp add: chan_local_def)

context epoll_kernel
begin

lemma chan_local_update:
  assumes "\<And>ch. ch_this (f ch) = ch_this ch \<and> ch_fd (f ch) = ch_fd ch \<and> Channel_handleevent (f ch) = Channel_handleevent ch"
  shows "chan_local (\<lambda>ch. Channel_update ctl (f ch))"
  using assms
  by (auto simp: chan_local_def Channel_update_def EventLoop_updatechannel_def interest_local_def
      split: option.splits if_splits dest!: update_effect)

lemma chan_local_ops:
  "chan_local (Channel_enablewriting ctl)" "chan_local (Channel_disablewriting ctl)"
  "chan_local (Channel_disableall ctl)"
  unfolding Channel_enablewriting_def Channel_disablewriting_def Channel_disableall_def
  by (rule chan_local_update, simp)+

lemma chan_local_enablereading: "chan_local (Channel_enablereading ctl)"
proof -
  have "chan_local (\<lambda>ch. Channel_update ctl (ch\<lparr>ch_events := ch_events ch OR EPOLLIN\<rparr>))"
    by (rule chan_local_update) simp
  then show ?thesis
    by (auto simp: chan_local_def Channel_enablereading_def Let_def split: if_splits)
qed

lemma chan_local_remove: "chan_local (Channel_remove ctl)"
  unfolding chan_local_def
proof (intro allI impI)
  fix ch ep ch' ep'
  assume "Channel_remove ctl ch ep = Inr (ch', ep')"
  then obtain ep1 where all: "Channel_disableall ctl ch ep = Inr (ch', ep1)"
    and rem: "Epoll_removechannel ctl ch' ep1 = Inr ep'"
    by (auto simp: Channel_remove_def EventLoop_removechannel_def bind_res_eq_Inr)
  have "interest_local (ch_fd ch) (ch_this ch) ep1 ep'"
    using remove_effect [OF rem] by (auto simp: interest_local_def split: if_splits)
  with chan_localD [OF chan_local_ops(3) all]
  show "ch_this ch' = ch_this ch \<and> ch_fd ch' = ch_fd ch \<and> Channel_handleevent ch' = Channel_handleevent ch \<and>
      interest_local (ch_fd ch) (ch_this ch) ep ep'"
    by (auto intro: interest_local_trans)
qed

end

text \<open>
  A member function of a connection: the identity of the object and its descriptor stay, the
  maps lose entries at most, and the application may come to own the connection.
\<close>

definition conn_step :: "connection \<Rightarrow> eventloop \<Rightarrow> connection \<Rightarrow> eventloop \<Rightarrow> bool" where
  "conn_step c l c' l' \<longleftrightarrow>
     cn_id c' = cn_id c \<and> cn_loop c' = cn_loop c \<and> cn_clientsock c' = cn_clientsock c \<and>
     ch_this (cn_clientchannel c') = ch_this (cn_clientchannel c) \<and>
     ch_fd (cn_clientchannel c') = ch_fd (cn_clientchannel c) \<and>
     Channel_handleevent (cn_clientchannel c') = Channel_handleevent (cn_clientchannel c) \<and>
     interest_local (ch_fd (cn_clientchannel c)) (ch_this (cn_clientchannel c)) (el_ep l) (el_ep l') \<and>
     el_conns l' = el_conns l \<and> el_stop l' = el_stop l \<and>
     el_wakechannel l' = el_wakechannel l \<and> el_timerchannel l' = el_timerchannel l"

definition safe_step :: "('x \<Rightarrow> nat list) \<Rightarrow> 'x world cstate \<Rightarrow> 'x world cstate \<Rightarrow> bool" where
  "safe_step owns s s' \<longleftrightarrow>
     (case (s, s') of ((c, l, ts, x), (c', l', ts', x')) \<Rightarrow>
        conn_step c l c' l' \<and> set (ts_conns ts') \<subseteq> set (ts_conns ts) \<and>
        set (owns x') \<subseteq> insert (cn_id c) (set (owns x)))"

lemma conn_step_refl [simp]: "conn_step c l c l"
  by (simp add: conn_step_def)

lemma conn_step_trans: "conn_step c l c' l' \<Longrightarrow> conn_step c' l' c'' l'' \<Longrightarrow> conn_step c l c'' l''"
  by (auto simp: conn_step_def intro: interest_local_trans)

lemma safe_step_refl [simp]: "safe_step owns s s"
  by (auto simp: safe_step_def split: prod.splits)

lemma safe_step_trans:
  assumes "safe_step owns s s'" and "safe_step owns s' s''"
  shows "safe_step owns s s''"
proof -
  obtain c l ts x c' l' ts' x' c'' l'' ts'' x''
    where s: "s = (c, l, ts, x)" "s' = (c', l', ts', x')" "s'' = (c'', l'', ts'', x'')"
    by (cases s; cases s'; cases s'')
  from assms have "conn_step c l c'' l''" by (auto simp: s safe_step_def intro: conn_step_trans)
  moreover have "cn_id c' = cn_id c" using assms(1) by (simp add: s safe_step_def conn_step_def)
  ultimately show ?thesis using assms unfolding s safe_step_def by auto
qed

text \<open>Changes of the other members of a connection.\<close>

lemma conn_step_fields [simp]:
  "conn_step c l (c\<lparr>cn_inputbuffer := b\<rparr>) l"
  "conn_step c l (c\<lparr>cn_outputbuffer := b\<rparr>) l"
  "conn_step c l (c\<lparr>cn_disconnect := d\<rparr>) l"
  "conn_step c l (c\<lparr>cn_inputbuffer := b, cn_lasttime := t\<rparr>) l"
  by (simp_all add: conn_step_def)

lemma safe_step_fields [simp]:
  "safe_step owns (c, l, w) (c\<lparr>cn_inputbuffer := b\<rparr>, l, w)"
  "safe_step owns (c, l, w) (c\<lparr>cn_outputbuffer := b\<rparr>, l, w)"
  "safe_step owns (c, l, w) (c\<lparr>cn_disconnect := d\<rparr>, l, w)"
  "safe_step owns (c, l, w) (c\<lparr>cn_inputbuffer := b, cn_lasttime := t\<rparr>, l, w)"
  by (auto simp: safe_step_def split: prod.splits)

lemma on_channel_step:
  assumes "chan_local op" and "on_channel op (c, l, w) = Inr (c', l', w')"
  shows "conn_step c l c' l' \<and> w' = w"
  using assms(2) by (auto simp: on_channel_def bind_res_eq_Inr conn_step_def dest: chan_localD [OF assms(1)])

lemma on_channel_safe:
  assumes "chan_local op" and "on_channel op s = Inr s'"
  shows "safe_step owns s s'"
  using assms(2) by (cases s; cases s') (auto simp: safe_step_def dest: on_channel_step [OF assms(1)])

context epoll_kernel
begin

lemma sendinloop_step:
  assumes "Connection_sendinloop ctl data n (c, l, w) = Inr (c', l', w')"
  shows "conn_step c l c' l' \<and> w' = w"
proof -
  obtain b where "on_channel (Channel_enablewriting ctl) (c\<lparr>cn_outputbuffer := b\<rparr>, l, w) = Inr (c', l', w')"
    using assms by (auto simp: Connection_sendinloop_def bind_res_eq_Inr)
  from on_channel_step [OF chan_local_ops(1) this] show ?thesis
    by (auto intro: conn_step_trans [OF conn_step_fields(2)])
qed

lemma sendinloop_safe:
  assumes "Connection_sendinloop ctl data n s = Inr s'"
  shows "safe_step owns s s'"
  using assms by (cases s; cases s') (auto simp: safe_step_def dest: sendinloop_step)

text \<open>\<^verbatim>\<open>send\<close> from any thread.\<close>

lemma send_safe:
  assumes "Connection_send ctl evwrite tid data n s = Inr s'"
  shows "safe_step owns s s'"
  using assms
  by (cases s)
    (auto simp: Connection_send_def bind_res_eq_Inr safe_step_def conn_step_def EventLoop_queueinloop_def
      EventLoop_wakeup_def split: if_splits dest!: sendinloop_step)

end

subsection \<open>The member functions\<close>

text \<open>An application whose handlers are such functions.\<close>

locale safe_app = epoll_kernel ctl for ctl +
  fixes app :: "'x app_call" and owns :: "'x \<Rightarrow> nat list"
  assumes app_safe: "app h m s = Inr (m', s') \<Longrightarrow> safe_step owns s s'"
begin

lemma call_handler_safe: "call_handler app f m s = Inr (m', s') \<Longrightarrow> safe_step owns s s'"
  by (auto simp: call_handler_def split: option.splits dest: app_safe)

lemma erase_conn_safe: "safe_step owns (c, l, w) (c, l, erase_conn fd w)"
  using om_erase_subset [of fd "ts_conns (fst w)"]
  by (cases w) (auto simp: safe_step_def erase_conn_def)

lemma server_call_safe:
  assumes "server_call app cb m s = Inr (m', s')"
  shows "safe_step owns s s'"
  using assms
  by (cases cb; cases s)
    (auto simp: TcpServer_closeconnection_def TcpServer_errorconnection_def TcpServer_onmessage_def
      TcpServer_sendcomplete_def bind_res_eq_Inr map_sum_def split: sum.splits
      dest!: call_handler_safe intro: safe_step_trans erase_conn_safe)

lemma call_server_safe:
  assumes "call_server (server_call app) f m s = Inr (m', s')"
  shows "safe_step owns s s'"
  using assms by (auto simp: call_server_def split: if_splits option.splits dest: server_call_safe)

text \<open>The common end of the callbacks: a change of the channel, then a call into the server.\<close>

lemma then_call_server:
  "safe_step owns s s1 \<Longrightarrow> call_server (server_call app) f m s1 = Inr (m', s') \<Longrightarrow> safe_step owns s s'"
  by (rule safe_step_trans [OF _ call_server_safe])

lemma then_channel:
  "safe_step owns s s1 \<Longrightarrow> chan_local op \<Longrightarrow> on_channel op s1 = Inr s' \<Longrightarrow> safe_step owns s s'"
  by (rule safe_step_trans [OF _ on_channel_safe])

lemma channel_then_call:
  assumes "safe_step owns s s0" and "chan_local op"
    and "bind_res (on_channel op s0) (\<lambda>s. bind_res (call_server (server_call app) (f (fst s)) m s)
      (\<lambda>(_, s). Inr s)) = Inr s'"
  shows "safe_step owns s s'"
proof -
  obtain s1 m' where op: "on_channel op s0 = Inr s1"
    and call: "call_server (server_call app) (f (fst s1)) m s1 = Inr (m', s')"
    using assms(3) by (auto simp: bind_res_eq_Inr)
  from then_channel [OF assms(1,2) op] call show ?thesis by (rule then_call_server)
qed

lemma writecallback_safe:
  assumes "Connection_writecallback ctl (server_call app) n s = Inr s'"
  shows "safe_step owns s s'"
proof -
  obtain c l ts x where s: "s = (c, l, ts, x)" by (cases s)
  let ?erased = "if 0 < n then Buffer_erase 0 (nat n) (cn_outputbuffer c) else Inr (cn_outputbuffer c)"
  obtain b where b: "?erased = Inr b"
    using assms unfolding Connection_writecallback_def s by (cases ?erased) simp_all
  show ?thesis
    using assms
    unfolding Connection_writecallback_def s prod.case Let_def b bind_res.simps
    by (auto split: if_splits intro: channel_then_call [OF safe_step_fields(2) chan_local_ops(2)])
qed

sublocale handlers: handler_relation ctl "server_call app" "safe_step owns"
proof
  show "safe_step owns s s''" if "safe_step owns s s'" "safe_step owns s' s''" for s s' s''
    using that by (rule safe_step_trans)
  show "safe_step owns s s'" if "on_channel (Channel_remove ctl) s = Inr s'" for s s'
    using chan_local_remove that by (rule on_channel_safe)
qed (simp_all add: call_server_safe)

lemmas closecallback_safe = handlers.closecallback_rel
  and errorcallback_safe = handlers.errorcallback_rel
  and onmessage_safe = handlers.onmessage_rel

end

end
