(* ===== verification/Server_Lifecycle.thy ===== *)
theory Server_Lifecycle
  imports Echo_Service
begin

text \<open>
  The life of the objects of the server: the event loops that the constructors set up, a
  connection from \<^verbatim>\<open>accept\<close> to the registry, and its end.
\<close>

subsection \<open>The event loops\<close>

text \<open>What the constructor of an event loop establishes.\<close>

definition loop_started :: "nat \<Rightarrow> bool \<Rightarrow> int \<Rightarrow> int \<Rightarrow> int \<times> int \<times> int \<Rightarrow> eventloop \<Rightarrow> bool" where
  "loop_started lid mainloop timetvl timeout fds l \<longleftrightarrow>
     el_id l = lid \<and> el_mainloop l = mainloop \<and> el_timetvl l = timetvl \<and> el_timeout l = timeout \<and>
     el_timerset l = timeout \<and> el_taskqueue l = [] \<and> \<not> el_locked l \<and> el_conns l = [] \<and> \<not> el_stop l \<and>
     (case fds of (epfd, wakefd, timerfd) \<Rightarrow>
        ep_fd (el_ep l) = epfd \<and>
        ep_interest (el_ep l) = [wakefd \<mapsto> (EPOLLIN, Wake_channel lid), timerfd \<mapsto> (EPOLLIN, Timer_channel lid)] \<and>
        ch_readcallback (el_wakechannel l) = Some Cb_handlewakeup \<and>
        ch_readcallback (el_timerchannel l) = Some Cb_handletimer \<and>
        chan_synced (el_wakechannel l) (el_ep l) \<and> chan_synced (el_timerchannel l) (el_ep l))"

text \<open>Descriptors as the kernel gives them out.\<close>

definition fds_ok :: "int \<times> int \<times> int \<Rightarrow> bool" where
  "fds_ok fds \<longleftrightarrow> (case fds of (epfd, wakefd, timerfd) \<Rightarrow> epfd \<noteq> - 1 \<and> wakefd \<noteq> timerfd)"

context epoll_reliable
begin

lemma EventLoop_new_started:
  assumes "fds_ok fds"
  shows "\<exists>l. EventLoop_new ctl lid fds mainloop timetvl timeout = Inr l \<and>
    loop_started lid mainloop timetvl timeout fds l"
proof -
  obtain e w t where fds: "fds = (e, w, t)" by (cases fds)
  let ?wake = "Channel_setreadcallback Cb_handlewakeup (Channel_new (Wake_channel lid) (Some lid) w)"
    and ?timer = "Channel_setreadcallback Cb_handletimer (Channel_new (Timer_channel lid) (Some lid) t)"
    and ?ep = "\<lparr>ep_fd = e, ep_interest = Map.empty\<rparr>"
  have wake: "chan_synced ?wake ?ep"
    by (simp add: chan_synced_def Channel_new_def Channel_setreadcallback_def)
  have timer: "chan_synced ?timer (epoll_registered EPOLLIN ?wake ?ep)"
    using assms by (simp add: fds fds_ok_def chan_synced_def Channel_new_def Channel_setreadcallback_def)
  have "ch_events ?wake = 0" "ch_events ?timer = 0"
    by (simp_all add: Channel_new_def Channel_setreadcallback_def)
  with assms enable_disable_synced(1) [OF wake] enable_disable_synced(1) [OF timer] show ?thesis
    by (auto simp: EventLoop_new_def fds fds_ok_def createtimerfd_def Epoll_new_def loop_started_def
        chan_synced_def Channel_new_def Channel_setreadcallback_def)
qed

lemma TcpServer_subloop_started:
  assumes "fds_ok fds"
  shows "\<exists>l. TcpServer_subloop ctl i fds = Inr l \<and> loop_started (Suc i) False 5 10 fds l \<and>
    el_timercallback l = Some Cb_removeconn"
proof -
  obtain l where "EventLoop_new ctl (Suc i) fds False 5 10 = Inr l"
    and "loop_started (Suc i) False 5 10 fds l"
    using EventLoop_new_started [OF assms] by blast
  then show ?thesis
    by (cases fds)
      (simp add: TcpServer_subloop_def loop_started_def EventLoop_settimercallback_def
        EventLoop_setepolltimeoutcallback_def)
qed

lemma TcpServer_subloops_started:
  assumes "list_all fds_ok fdss"
  shows "\<exists>ls' p'. TcpServer_subloops ctl i fdss ls p = Inr (ls @ ls', p') \<and>
    list_all2 (\<lambda>fds l. \<exists>lid. loop_started (Suc lid) False 5 10 fds l \<and> el_timercallback l = Some Cb_removeconn) fdss ls' \<and>
    map el_id ls' = map Suc [i..<i + length fdss] \<and>
    p_queue p' = p_queue p @ map EventLoop_run_task [i..<i + length fdss] \<and>
    ThreadPool_size p' = ThreadPool_size p"
  using assms
proof (induction fdss arbitrary: i ls p)
  case (Cons fds fdss)
  obtain l where l: "TcpServer_subloop ctl i fds = Inr l" "loop_started (Suc i) False 5 10 fds l"
    "el_timercallback l = Some Cb_removeconn"
    using TcpServer_subloop_started [of fds i] Cons.prems by auto
  obtain ls' p' where
    "TcpServer_subloops ctl (Suc i) fdss (ls @ [l]) (ThreadPool_addtask (EventLoop_run_task i) p) =
      Inr ((ls @ [l]) @ ls', p')"
    "list_all2 (\<lambda>fds l. \<exists>lid. loop_started (Suc lid) False 5 10 fds l \<and> el_timercallback l = Some Cb_removeconn) fdss ls'"
    "map el_id ls' = map Suc [Suc i..<Suc i + length fdss]"
    "p_queue p' = p_queue (ThreadPool_addtask (EventLoop_run_task i) p) @
      map EventLoop_run_task [Suc i..<Suc i + length fdss]"
    "ThreadPool_size p' = ThreadPool_size (ThreadPool_addtask (EventLoop_run_task i) p)"
    using Cons.IH [of "Suc i" "ls @ [l]" "ThreadPool_addtask (EventLoop_run_task i) p"] Cons.prems by auto
  moreover have "el_id l = Suc i" using l(2) by (cases fds) (simp add: loop_started_def)
  moreover have "[i..<i + length (fds # fdss)] = i # [Suc i..<Suc i + length fdss]"
    by (simp add: upt_conv_Cons del: upt_Suc)
  ultimately show ?case
    using l by (intro exI [of _ "l # ls'"] exI [of _ p']) (auto simp del: upt_Suc list.size add_Suc)
qed simp

end

subsection \<open>A new connection\<close>

text \<open>Every descriptor is assigned to a loop that exists.\<close>

definition server_loops_ok :: "'x server \<Rightarrow> bool" where
  "server_loops_ok S \<longleftrightarrow>
     ts_threadnum (sv_tcpserver S) = int (length (sv_subloops S)) \<and> sv_subloops S \<noteq> []"

lemma smod_nonneg: "0 \<le> a \<Longrightarrow> 0 < b \<Longrightarrow> a smod b = a mod (b :: int)"
  by (cases "a = 0") (simp_all add: signed_modulo_int_def)

lemma subloop_index_in_range:
  assumes "server_loops_ok S" and "0 \<le> fd"
  shows "subloop_index fd S = Inr (nat fd mod length (sv_subloops S)) \<and>
    nat fd mod length (sv_subloops S) < length (sv_subloops S)"
proof -
  let ?n = "length (sv_subloops S)"
  have n: "0 < int ?n" using assms(1) by (simp add: server_loops_ok_def)
  then have "fd smod int ?n = fd mod int ?n" using assms(2) by (simp add: smod_nonneg)
  moreover have "nat (fd mod int ?n) = nat fd mod ?n"
    using assms(2) by (simp add: nat_mod_distrib)
  moreover have "0 \<le> fd mod int ?n" "fd mod int ?n < int ?n" using n by simp_all
  ultimately show ?thesis
    using assms(1) n by (simp add: subloop_index_def server_loops_ok_def Let_def)
qed

lemma subloop_index_negative:
  assumes "server_loops_ok S" and "2 \<le> length (sv_subloops S)"
  shows "subloop_index (- 1) S = Inl (Undefined Index_out_of_range)"
proof -
  have "- 1 smod int (length (sv_subloops S)) = - 1"
    using assms(2) by (simp add: signed_modulo_int_def)
  with assms show ?thesis
    by (simp add: subloop_index_def server_loops_ok_def Let_def)
qed

definition callbacks_set :: "connection \<Rightarrow> bool" where
  "callbacks_set c \<longleftrightarrow> cn_owned c \<and>
     cn_closecallback c = Some Cb_closeconnection \<and> cn_errorcallback c = Some Cb_errorconnection \<and>
     cn_onmessagecallback c = Some Cb_onmessage \<and> cn_sendcompletecallback c = Some Cb_sendcomplete"

lemmas connection_setter_defs =
  Connection_setclosecallback_def Connection_seterrorcallback_def
  Connection_setonmessagecallback_def Connection_setsendcompletecallback_def

lemmas channel_setter_defs =
  Channel_setreadcallback_def Channel_setwritecallback_def Channel_setclosecallback_def
  Channel_seterrorcallback_def

context epoll_reliable
begin

lemma Connection_new_open:
  assumes "ep_interest (el_ep l) (so_fd sock) = None"
  shows "\<exists>c l'. Connection_new ctl cid now lid sock l = Inr (c, l') \<and>
    conn_open (set_callbacks (c\<lparr>cn_owned := True\<rparr>)) l' \<and> conn_ready (set_callbacks (c\<lparr>cn_owned := True\<rparr>)) \<and>
    callbacks_set (set_callbacks (c\<lparr>cn_owned := True\<rparr>)) \<and> \<not> cn_owned c \<and>
    cn_id c = cid \<and> cn_clientsock c = sock \<and> b_buf (cn_inputbuffer c) = [] \<and> conn_out c = [] \<and>
    \<not> cn_disconnect c \<and> b_sep (cn_inputbuffer c) = 1 \<and>
    l' = l\<lparr>el_ep := (el_ep l)\<lparr>ep_interest := (ep_interest (el_ep l))(so_fd sock \<mapsto> (EPOLLIN, Client_channel cid))\<rparr>\<rparr>"
proof -
  let ?ch = "Channel_setwritecallback Cb_connection_write
    (Channel_seterrorcallback Cb_connection_error (Channel_setclosecallback Cb_connection_close
      (Channel_setreadcallback Cb_connection_onmessage (Channel_new (Client_channel cid) (Some lid) (so_fd sock)))))"
  have sync: "chan_synced ?ch (el_ep l)" and "ch_events ?ch = 0" and loop: "ch_loop ?ch \<noteq> None"
    using assms by (simp_all add: chan_synced_def channel_setter_defs Channel_new_def)
  then have "Channel_enablereading ctl ?ch (el_ep l) =
      Inr (chan_registered EPOLLIN ?ch, epoll_registered EPOLLIN ?ch (el_ep l))"
    by (simp add: enable_disable_synced)
  moreover have "chan_synced (chan_registered EPOLLIN ?ch) (epoll_registered EPOLLIN ?ch (el_ep l))"
    using loop by (rule chan_synced_registered)
  ultimately show ?thesis
    by (simp add: Connection_new_def Let_def set_callbacks_def connection_setter_defs conn_open_def
        chan_open_def conn_out_def Buffer_new_def out_events_def conn_ready_def callbacks_set_def epoll_registered_def
        channel_setter_defs Channel_new_def)
qed

end

subsection \<open>The timer and the registry of the server\<close>

text \<open>\<^verbatim>\<open>TcpServer::removeconn\<close> for several descriptors.\<close>

definition erase_conns :: "int list \<Rightarrow> 'x world \<Rightarrow> 'x world" where
  "erase_conns fds w = foldl (\<lambda>w fd. erase_conn fd w) w fds"

lemma erase_conns_simps [simp]:
  "erase_conns [] w = w" "erase_conns (fd # fds) w = erase_conns fds (erase_conn fd w)"
  by (simp_all add: erase_conns_def)

lemma call_all_removeconn: "call_all TcpServer_removeconn fds w = Inr (erase_conns fds w)"
  by (induction fds arbitrary: w) (simp_all add: TcpServer_removeconn_def)

lemma erase_conns_lookup:
  "om_ok (ts_conns (fst w)) \<Longrightarrow>
    map_of (ts_conns (fst (erase_conns fds w))) = map_of (ts_conns (fst w)) |` (- set fds)"
proof (induction fds arbitrary: w)
  case (Cons fd fds)
  then show ?case
    by (auto simp: erase_conn_def conn_map.lookup_erase conn_map.ok_erase restrict_map_def fun_eq_iff)
qed (simp add: restrict_map_def fun_eq_iff)

text \<open>The timer of a loop of the server, where the objects of all its connections exist.\<close>

lemma handletimer_registry:
  assumes "\<not> el_mainloop l" and "el_timercallback l = Some Cb_removeconn"
    and "\<forall>e\<in>set (el_conns l). heap (snd e) \<noteq> None" and "om_ok (el_conns l)"
  shows "EventLoop_handletimer heap TcpServer_removeconn now l w =
    (let P = expired heap now (el_timeout l) in
     if odd (trailing P (el_conns l)) then Inl (Undefined Iterator_past_end)
     else Inr (l\<lparr>el_timerset := el_timetvl l,
         el_conns := filter (\<lambda>e. e \<notin> set (erased P (el_conns l))) (el_conns l)\<rparr>,
       erase_conns (map fst (passed P (el_conns l))) w))"
proof -
  have call: "call_timer (Some Cb_removeconn) TcpServer_removeconn = (TcpServer_removeconn :: int \<Rightarrow> 'a world \<Rightarrow> 'a world res)"
    by (simp add: call_timer_def fun_eq_iff)
  let ?P = "expired heap now (el_timeout l)"
  have "foldl (\<lambda>m e. om_erase (fst e) m) (el_conns l) (erased ?P (el_conns l)) =
      filter (\<lambda>e. e \<notin> set (erased ?P (el_conns l))) (el_conns l)"
    using assms(4) erased_subset by (rule om_erase_entries)
  moreover have "timer_walk heap TcpServer_removeconn now (el_timeout l) (el_conns l) (el_conns l) w =
    (let P = ?P in
     if odd (trailing P (el_conns l)) then Inl (Undefined Iterator_past_end)
     else map_sum id (Pair (foldl (\<lambda>m e. om_erase (fst e) m) (el_conns l) (erased P (el_conns l))))
       (call_all TcpServer_removeconn (map fst (passed P (el_conns l))) w))"
    using assms(3) by (rule timer_walk_outcome) (simp add: TcpServer_removeconn_def)
  ultimately show ?thesis
    using assms(1,2) by (simp add: EventLoop_handletimer_def call call_all_removeconn Let_def)
qed

lemma not_expired_kept:
  "e \<in> set es \<Longrightarrow> \<not> P e \<Longrightarrow> e \<in> set (filter (\<lambda>e. e \<notin> set (erased P es)) es)"
  using erased_P by fastforce

end
