(* ===== verification/Object_Lifetime.thy ===== *)
theory Object_Lifetime
  imports Object_Safety Server_Lifecycle
begin

text \<open>
  Which objects exist: every channel in an interest list belongs to an object that exists, and
  so does every connection in a map or a task of a worker. The constructors establish it, and
  every step of every thread keeps it.
\<close>

subsection \<open>The invariant\<close>

definition loops :: "'x server \<Rightarrow> eventloop list" where
  "loops S = sv_mainloop S # sv_subloops S"

definition heap_wf :: "'x server \<Rightarrow> bool" where
  "heap_wf S \<longleftrightarrow> (\<forall>cid c. sv_heap S cid = Some c \<longrightarrow> cid < sv_next S \<and> cn_id c = cid \<and>
     ch_this (cn_clientchannel c) = Client_channel cid \<and> ch_fd (cn_clientchannel c) = Connection_fd c)"

definition entry_live :: "'x server \<Rightarrow> int \<Rightarrow> chan_ptr \<Rightarrow> bool" where
  "entry_live S fd p \<longleftrightarrow>
     (case p of
        Client_channel cid \<Rightarrow> \<exists>c. sv_heap S cid = Some c \<and> Connection_fd c = fd
      | _ \<Rightarrow> chan_deref p S \<noteq> None)"

definition watched :: "eventloop \<Rightarrow> int \<Rightarrow> chan_ptr \<Rightarrow> bool" where
  "watched l fd p \<longleftrightarrow> (\<exists>ev. ep_interest (el_ep l) fd = Some (ev, p))"

definition interest_live :: "'x server \<Rightarrow> bool" where
  "interest_live S \<longleftrightarrow> (\<forall>l\<in>set (loops S). \<forall>fd p. watched l fd p \<longrightarrow> entry_live S fd p)"

definition objects_ok :: "('x \<Rightarrow> nat list) \<Rightarrow> 'x server \<Rightarrow> bool" where
  "objects_ok app_owns S \<longleftrightarrow>
     heap_wf S \<and> interest_live S \<and> set (owners app_owns S) \<subseteq> dom (sv_heap S)"

lemma set_owners:
  "set (owners app_owns S) =
    snd ` set (ts_conns (sv_tcpserver S)) \<union> (\<Union>l\<in>set (loops S). snd ` set (el_conns l)) \<union> set (app_owns (sv_app S))"
  by (auto simp: owners_def loops_def)

lemma loop_owners: "l \<in> set (loops S) \<Longrightarrow> e \<in> set (el_conns l) \<Longrightarrow> snd e \<in> set (owners app_owns S)"
  by (auto simp: set_owners)

lemma owners_subset:
  assumes "\<And>e. e \<in> set (ts_conns (sv_tcpserver S)) \<Longrightarrow> snd e \<in> A"
    and "\<And>l e. l \<in> set (loops S) \<Longrightarrow> e \<in> set (el_conns l) \<Longrightarrow> snd e \<in> A"
    and "set (app_owns (sv_app S)) \<subseteq> A"
  shows "set (owners app_owns S) \<subseteq> A"
  using assms by (fastforce simp: set_owners)

lemma server_owners:
  "e \<in> set (ts_conns (sv_tcpserver S)) \<Longrightarrow> snd e \<in> set (owners app_owns S)"
  "set (app_owns (sv_app S)) \<subseteq> set (owners app_owns S)"
  by (auto simp: set_owners)

lemma entry_live_deref: "entry_live S fd p \<Longrightarrow> chan_deref p S \<noteq> None"
  by (auto simp: entry_live_def chan_deref_def split: chan_ptr.splits)

lemma objects_ok_fresh:
  assumes "objects_ok app_owns S"
  shows "sv_heap S (sv_next S) = None"
proof (cases "sv_heap S (sv_next S)")
  case (Some c)
  with assms have "sv_next S < sv_next S" unfolding objects_ok_def heap_wf_def by blast
  then show ?thesis by simp
qed

text \<open>
  A step that keeps the objects and loops, watches what was watched or belongs to an object,
  and owns what was owned or exists.
\<close>

definition identity :: "connection \<Rightarrow> nat \<times> socket \<times> chan_ptr \<times> int" where
  "identity c = (cn_id c, cn_clientsock c, ch_this (cn_clientchannel c), ch_fd (cn_clientchannel c))"

definition identities_kept :: "heap \<Rightarrow> heap \<Rightarrow> bool" where
  "identities_kept h h' \<longleftrightarrow> (\<forall>cid. map_option identity (h' cid) = map_option identity (h cid))"

text \<open>A descriptor and the channel of the connection it belongs to.\<close>

definition registered :: "heap \<Rightarrow> int \<Rightarrow> chan_ptr \<Rightarrow> bool" where
  "registered h fd p \<longleftrightarrow>
     (\<exists>cid c. h cid = Some c \<and> p = ch_this (cn_clientchannel c) \<and> fd = ch_fd (cn_clientchannel c))"

lemma identities_kept_refl [simp]: "identities_kept h h"
  by (simp add: identities_kept_def)

lemma identities_kept_trans: "identities_kept h h' \<Longrightarrow> identities_kept h' h'' \<Longrightarrow> identities_kept h h''"
  by (simp add: identities_kept_def)

lemma identities_kept_upd: "h cid = Some c \<Longrightarrow> identity c' = identity c \<Longrightarrow> identities_kept h (h(cid \<mapsto> c'))"
  by (simp add: identities_kept_def)

lemma identities_kept_some:
  assumes "identities_kept h h'"
  shows "h cid = Some c \<Longrightarrow> \<exists>c'. h' cid = Some c' \<and> identity c' = identity c"
    and "h' cid = Some c' \<Longrightarrow> \<exists>c. h cid = Some c \<and> identity c' = identity c"
  using assms [unfolded identities_kept_def, rule_format, of cid] by (cases "h cid"; auto)+

lemma identities_kept_dom: "identities_kept h h' \<Longrightarrow> dom h' = dom h"
  by (auto dest: identities_kept_some)

lemma identities_kept_registered: "identities_kept h h' \<Longrightarrow> registered h' fd p \<Longrightarrow> registered h fd p"
  by (force simp: registered_def identity_def dest: identities_kept_some(2))

lemma identities_kept_wf:
  assumes "heap_wf S" and "identities_kept (sv_heap S) (sv_heap S')" and "sv_next S' = sv_next S"
  shows "heap_wf S'"
  using assms(1,3)
  by (force simp: heap_wf_def identity_def Connection_fd_def dest: identities_kept_some(2) [OF assms(2)])

text \<open>What is live stays live while the connections and the number of loops stay.\<close>

lemma entry_live_mono:
  assumes "entry_live S fd p" and "length (sv_subloops S') = length (sv_subloops S)"
    and "\<And>cid c. sv_heap S cid = Some c \<Longrightarrow> \<exists>c'. sv_heap S' cid = Some c' \<and> Connection_fd c' = Connection_fd c"
  shows "entry_live S' fd p"
  using assms(1) assms(2) assms(3)
  by (force simp: entry_live_def chan_deref_def get_loop_def split: chan_ptr.splits nat.splits if_splits)

lemma entry_live_kept:
  assumes "entry_live S fd p" and "identities_kept (sv_heap S) (sv_heap S')"
    and "length (sv_subloops S') = length (sv_subloops S)"
  shows "entry_live S' fd p"
  using assms(1,3)
  by (rule entry_live_mono)
    (auto simp: identity_def Connection_fd_def dest: identities_kept_some(1) [OF assms(2)])

lemma objects_ok_step:
  assumes ok: "objects_ok app_owns S"
    and kept: "identities_kept (sv_heap S) (sv_heap S')" "sv_next S' = sv_next S"
      "length (sv_subloops S') = length (sv_subloops S)"
    and watch: "\<And>l' fd p. l' \<in> set (loops S') \<Longrightarrow> watched l' fd p \<Longrightarrow>
      (\<exists>l\<in>set (loops S). watched l fd p) \<or> registered (sv_heap S) fd p"
    and own: "set (owners app_owns S') \<subseteq> set (owners app_owns S) \<union> dom (sv_heap S)"
  shows "objects_ok app_owns S'"
proof -
  have "entry_live S' fd p" if "l' \<in> set (loops S')" and "watched l' fd p" for l' fd p
  proof -
    from watch [OF that] ok have "entry_live S fd p"
      by (auto simp: objects_ok_def interest_live_def heap_wf_def entry_live_def [of S] registered_def)
    then show ?thesis using kept(1,3) by (rule entry_live_kept)
  qed
  moreover have "dom (sv_heap S') = dom (sv_heap S)"
    using kept(1) by (rule identities_kept_dom)
  ultimately show ?thesis
    using ok kept own identities_kept_wf [of S S'] by (auto simp: objects_ok_def interest_live_def)
qed

lemma get_loop_nth: "get_loop lid S = Some l \<longleftrightarrow> lid < length (loops S) \<and> loops S ! lid = l"
  by (auto simp: get_loop_def loops_def split: nat.splits)

lemma loops_set_loop: "loops (set_loop lid l S) = (loops S)[lid := l]"
  by (simp add: loops_def set_loop_def split: nat.splits)

lemma get_loop_mem: "get_loop lid S = Some l \<Longrightarrow> l \<in> set (loops S)"
  by (auto simp: get_loop_def loops_def split: nat.splits if_splits)

lemma set_loop_mem: "l' \<in> set (loops (set_loop lid l S)) \<Longrightarrow> l' = l \<or> l' \<in> set (loops S)"
  by (auto simp: set_loop_def loops_def split: nat.splits dest: set_update_subset_insert [THEN subsetD])

lemma length_set_loop: "length (sv_subloops (set_loop lid l S)) = length (sv_subloops S)"
  by simp

lemma conn_step_identity: "conn_step c l c' l' \<Longrightarrow> identity c' = identity c"
  by (simp add: conn_step_def identity_def)

lemma conn_step_watched:
  assumes "conn_step c l c' l'" and "watched l' fd p"
  shows "watched l fd p \<or> p = ch_this (cn_clientchannel c) \<and> fd = ch_fd (cn_clientchannel c)"
  using assms by (auto simp: conn_step_def watched_def interest_local_def)

subsection \<open>The handlers keep it\<close>

lemma on_connection_ok:
  assumes ok: "objects_ok app_owns S" and f: "\<And>s s'. f s = Some (Inr s') \<Longrightarrow> safe_step app_owns s s'"
    and run: "on_connection f cid S = Some (Inr S')"
  shows "objects_ok app_owns S'"
proof -
  obtain c l c' l' ts x where c: "sv_heap S cid = Some c" and l: "get_loop (cn_loop c) S = Some l"
    and call: "f (c, l, sv_tcpserver S, sv_app S) = Some (Inr (c', l', ts, x))"
    and S': "S' = set_loop (cn_loop c) l' (S\<lparr>sv_heap := (sv_heap S)(cid \<mapsto> c'), sv_tcpserver := ts, sv_app := x\<rparr>)"
    using run by (auto simp: on_connection_def split: option.splits sum.splits)
  from f [OF call] have step: "conn_step c l c' l'" and ts: "set (ts_conns ts) \<subseteq> set (ts_conns (sv_tcpserver S))"
    and x: "set (app_owns x) \<subseteq> insert (cn_id c) (set (app_owns (sv_app S)))"
    by (simp_all add: safe_step_def)
  have mem: "l1 = l' \<or> l1 \<in> set (loops S)" if "l1 \<in> set (loops S')" for l1
    using set_loop_mem [OF that [unfolded S']] by (simp add: loops_def)
  have "cn_id c = cid" using ok c by (simp add: objects_ok_def heap_wf_def)
  show ?thesis
    using ok
  proof (rule objects_ok_step)
    show "identities_kept (sv_heap S) (sv_heap S')"
      using c conn_step_identity [OF step] by (simp add: S' identities_kept_upd)
    show "(\<exists>l\<in>set (loops S). watched l fd p) \<or> registered (sv_heap S) fd p"
      if "l1 \<in> set (loops S')" and "watched l1 fd p" for l1 fd p
      using mem [OF that(1)] that(2) conn_step_watched [OF step] get_loop_mem [OF l] c
      unfolding registered_def by blast
    have conns: "el_conns l' = el_conns l" using step by (simp add: conn_step_def)
    have "snd e \<in> set (owners app_owns S)" if "l1 \<in> set (loops S')" "e \<in> set (el_conns l1)" for l1 e
      using mem [OF that(1)] that(2) conns loop_owners [OF get_loop_mem [OF l]] loop_owners [of l1 S]
      by metis
    moreover have "snd e \<in> set (owners app_owns S)" if "e \<in> set (ts_conns ts)" for e
      using that ts by (intro server_owners) blast
    moreover have "set (app_owns x) \<subseteq> set (owners app_owns S) \<union> dom (sv_heap S)"
      using x c \<open>cn_id c = cid\<close> server_owners(2) [of app_owns S] by auto
    ultimately show "set (owners app_owns S') \<subseteq> set (owners app_owns S) \<union> dom (sv_heap S)"
      by (intro owners_subset) (auto simp: S')
  qed (simp_all add: S')
qed

text \<open>The callback that the events stored in the channel of a connection call for stays the same.\<close>

definition dispatch_kept :: "heap \<Rightarrow> heap \<Rightarrow> bool" where
  "dispatch_kept h h' \<longleftrightarrow> (\<forall>cid.
     map_option (\<lambda>c. Channel_handleevent (cn_clientchannel c)) (h' cid) =
     map_option (\<lambda>c. Channel_handleevent (cn_clientchannel c)) (h cid))"

text \<open>The tasks of a loop, on the connections of the whole server.\<close>

definition tasks_step :: "eventloop \<Rightarrow> heap \<Rightarrow> eventloop \<Rightarrow> heap \<Rightarrow> bool" where
  "tasks_step l h l' h' \<longleftrightarrow> identities_kept h h' \<and> dispatch_kept h h' \<and> el_conns l' = el_conns l \<and> el_stop l' = el_stop l \<and>
     el_wakechannel l' = el_wakechannel l \<and> el_timerchannel l' = el_timerchannel l \<and>
     (\<forall>fd p. watched l' fd p \<longrightarrow> watched l fd p \<or> registered h fd p)"

lemma tasks_step_refl [simp]: "tasks_step l h l h"
  by (simp add: tasks_step_def dispatch_kept_def)

lemma tasks_step_trans: "tasks_step l h l' h' \<Longrightarrow> tasks_step l' h' l'' h'' \<Longrightarrow> tasks_step l h l'' h''"
  unfolding tasks_step_def dispatch_kept_def by (metis identities_kept_trans identities_kept_registered)

context epoll_kernel
begin

lemma loop_exec_step:
  assumes "loop_exec ctl t (l, h) = Inr (l', h')"
  shows "tasks_step l h l' h'"
proof -
  obtain cid copy n where t: "t = Task_sendinloop cid copy n" by (cases t)
  obtain c c' where c: "h cid = Some c" and h': "h' = h(cid \<mapsto> c')"
    and send: "Connection_sendinloop ctl (Ptr copy True) n (c, l, ()) = Inr (c', l', ())"
    using assms by (auto simp: t task_sendinloop_def bind_res_eq_Inr split: option.splits)
  have step: "conn_step c l c' l'" using sendinloop_step [OF send] by simp
  then show ?thesis
    using c conn_step_identity [OF step] conn_step_watched [OF step]
    by (auto simp: tasks_step_def h' dispatch_kept_def identities_kept_upd conn_step_def registered_def)
qed

lemma exec_all_step:
  "exec_all (loop_exec ctl) ts (l, h) = Inr (l', h') \<Longrightarrow> tasks_step l h l' h'"
proof (induction ts arbitrary: l h)
  case (Cons t ts)
  obtain l1 h1 where "loop_exec ctl t (l, h) = Inr (l1, h1)"
    "exec_all (loop_exec ctl) ts (l1, h1) = Inr (l', h')"
    using Cons.prems by (auto simp: bind_res_eq_Inr)
  then show ?case using Cons.IH by (blast intro: tasks_step_trans dest: loop_exec_step)
qed simp

lemma handlewakeup_step:
  assumes "EventLoop_handlewakeup evread (loop_exec ctl) (l, h) = Some (Inr (l', h'))"
  shows "tasks_step l h l' h'"
proof -
  have "\<not> el_locked l" using assms by (auto simp: EventLoop_handlewakeup_def Let_def split: if_splits)
  let ?l = "l\<lparr>el_wakecount := evread (el_wakecount l), el_locked := True\<rparr>"
  obtain l1 where "exec_all (loop_exec ctl) (el_taskqueue l) (?l, h) = Inr (l1, h')"
    and l': "l' = l1\<lparr>el_taskqueue := [], el_locked := False\<rparr>"
    using assms \<open>\<not> el_locked l\<close>
    by (cases "exec_all (loop_exec ctl) (el_taskqueue l) (?l, h)") (auto simp: loop_tasks.handlewakeup_runs)
  from exec_all_step [OF this(1)] show ?thesis
    by (simp add: tasks_step_def l' watched_def)
qed

lemma on_wakeup_ok:
  assumes ok: "objects_ok app_owns S" and env: "env_ctl env = ctl" and run: "on_wakeup env lid S = Some (Inr S')"
  shows "objects_ok app_owns S'"
proof -
  obtain l l' h where l: "get_loop lid S = Some l"
    and wake: "EventLoop_handlewakeup (env_evread env) (loop_exec ctl) (l, sv_heap S) = Some (Inr (l', h))"
    and S': "S' = set_loop lid l' (S\<lparr>sv_heap := h\<rparr>)"
    using run env by (auto simp: on_wakeup_def split: option.splits sum.splits)
  have step: "tasks_step l (sv_heap S) l' h" using wake by (rule handlewakeup_step)
  have mem: "l1 = l' \<or> l1 \<in> set (loops S)" if "l1 \<in> set (loops S')" for l1
    using set_loop_mem [OF that [unfolded S']] by (simp add: loops_def)
  show ?thesis
    using ok
  proof (rule objects_ok_step)
    show "(\<exists>l\<in>set (loops S). watched l fd p) \<or> registered (sv_heap S) fd p"
      if "l1 \<in> set (loops S')" and "watched l1 fd p" for l1 fd p
      using mem [OF that(1)] that(2) step get_loop_mem [OF l] unfolding tasks_step_def by blast
    have conns: "el_conns l' = el_conns l" using step by (simp add: tasks_step_def)
    have "snd e \<in> set (owners app_owns S)" if "l1 \<in> set (loops S')" "e \<in> set (el_conns l1)" for l1 e
      using mem [OF that(1)] that(2) conns loop_owners [OF get_loop_mem [OF l]] loop_owners [of l1 S]
      by metis
    then show "set (owners app_owns S') \<subseteq> set (owners app_owns S) \<union> dom (sv_heap S)"
      using server_owners [where S = S and app_owns = app_owns] unfolding S'
      by (intro owners_subset UnI1 subset_trans [OF _ Un_upper1]) simp_all
  qed (use step in \<open>simp_all add: S' tasks_step_def\<close>)
qed

end

text \<open>The timer of a loop: its map and the map of the server lose entries.\<close>

lemma conns_only: "ts'\<lparr>ts_conns := a\<rparr> = ts\<lparr>ts_conns := a\<rparr> \<Longrightarrow> ts'\<lparr>ts_conns := ts_conns ts\<rparr> = ts"
  by (cases ts; cases ts') simp

lemma timer_walk_erases:
  assumes "timer_walk h (call_timer f TcpServer_removeconn) now timeout conns es w = Inr (conns', ts', x')"
  shows "set conns' \<subseteq> set conns \<and> set (ts_conns ts') \<subseteq> set (ts_conns (fst w)) \<and>
    ts'\<lparr>ts_conns := ts_conns (fst w)\<rparr> = fst w \<and> x' = snd w"
  using assms
proof (induction h "call_timer f TcpServer_removeconn :: int \<Rightarrow> 'a world \<Rightarrow> 'a world res" now timeout conns es w
    rule: timer_walk.induct)
  case (2 h now timeout conns fd cid aa w)
  have erase: "set (ts_conns (fst (erase_conn k w))) \<subseteq> set (ts_conns (fst w))" for k
    using om_erase_subset [of k "ts_conns (fst w)"] by (simp add: erase_conn_def)
  have call: "call_timer f TcpServer_removeconn k w = Inr w' \<Longrightarrow> w' = erase_conn k w" for k w'
    by (auto simp: call_timer_def TcpServer_removeconn_def split: option.splits timer_cb.splits)
  show ?case
  proof (cases "expired h now timeout (fd, cid)")
    case True
    then obtain c fd' cid' aa' w1 where c: "h cid = Some c" "Connection_timeout now timeout c"
      and aa: "aa = (fd', cid') # aa'" and w1: "call_timer f TcpServer_removeconn fd' w = Inr w1"
      and rest: "timer_walk h (call_timer f TcpServer_removeconn) now timeout (om_erase fd conns) aa' w1 =
        Inr (conns', ts', x')"
      using "2.prems" by (auto simp: expired_def bind_res_eq_Inr split: list.splits)
    from "2.hyps"(1) [OF c(1) c(2) refl aa refl w1 rest] call [OF w1] erase [of fd'] om_erase_subset [of fd conns]
    show ?thesis by (auto simp: erase_conn_def dest: conns_only)
  next
    case False
    with "2.prems" obtain c where c: "h cid = Some c" "\<not> Connection_timeout now timeout c"
      by (auto simp: expired_def split: option.splits)
    with "2.hyps"(2) [OF c] "2.prems" show ?thesis by simp
  qed
qed simp

lemma on_timer_ok:
  assumes ok: "objects_ok app_owns S" and run: "on_timer inp lid S = Some (Inr S')"
  shows "objects_ok app_owns S'"
proof -
  obtain l l' ts x where l: "get_loop lid S = Some l"
    and timer: "EventLoop_handletimer (sv_heap S) TcpServer_removeconn (in_now inp) l (sv_tcpserver S, sv_app S) =
      Inr (l', ts, x)"
    and S': "S' = set_loop lid l' (S\<lparr>sv_tcpserver := ts, sv_app := x\<rparr>)"
    using run by (auto simp: on_timer_def split: option.splits sum.splits)
  have conns: "set (el_conns l') \<subseteq> set (el_conns l)" "el_ep l' = el_ep l"
    and ts: "set (ts_conns ts) \<subseteq> set (ts_conns (sv_tcpserver S))" and x: "x = sv_app S"
    using timer
    by (auto simp: EventLoop_handletimer_def Let_def bind_res_eq_Inr split: if_splits dest!: timer_walk_erases)
  have mem: "l1 = l' \<or> l1 \<in> set (loops S)" if "l1 \<in> set (loops S')" for l1
    using set_loop_mem [OF that [unfolded S']] by (simp add: loops_def)
  show ?thesis
    using ok
  proof (rule objects_ok_step)
    show "(\<exists>l\<in>set (loops S). watched l fd p) \<or> registered (sv_heap S) fd p"
      if "l1 \<in> set (loops S')" and "watched l1 fd p" for l1 fd p
      using mem [OF that(1)] that(2) conns(2) get_loop_mem [OF l] unfolding watched_def by metis
    have "snd e \<in> set (owners app_owns S)" if "l1 \<in> set (loops S')" "e \<in> set (el_conns l1)" for l1 e
      using mem [OF that(1)] that(2) conns(1) loop_owners [OF get_loop_mem [OF l]] loop_owners [of l1 S]
      by blast
    moreover have "snd e \<in> set (owners app_owns S)" if "e \<in> set (ts_conns ts)" for e
      using that ts by (intro server_owners) blast
    ultimately show "set (owners app_owns S') \<subseteq> set (owners app_owns S) \<union> dom (sv_heap S)"
      using server_owners(2) [of app_owns S] unfolding S'
      by (intro owners_subset UnI1 subset_trans [OF _ Un_upper1]) (simp_all add: x)
  qed (simp_all add: S')
qed

text \<open>The destructors.\<close>

lemma release_ok:
  assumes "objects_ok app_owns S"
  shows "objects_ok app_owns (release app_owns S)"
proof -
  let ?S = "release app_owns S" and ?live = "set (owners app_owns S)"
  let ?fds = "map Connection_fd (orphans app_owns S)"
  have heap: "sv_heap ?S = sv_heap S |` ?live" and len: "length (sv_subloops ?S) = length (sv_subloops S)"
    and nxt: "sv_next ?S = sv_next S"
    by (simp_all add: release_def Let_def)
  have loops: "loops ?S = map (Socket_close ?fds) (loops S)"
    by (simp add: release_def Let_def loops_def)
  have owners: "set (owners app_owns ?S) = ?live"
    unfolding set_owners loops by (simp add: release_def Let_def Socket_close_def)
  have "entry_live ?S fd p" if "l' \<in> set (loops ?S)" and w: "watched l' fd p" for l' fd p
  proof -
    obtain l where l: "l \<in> set (loops S)" and l': "l' = Socket_close ?fds l"
      using \<open>l' \<in> set (loops ?S)\<close> by (auto simp: loops)
    have open_fd: "fd \<notin> set ?fds" and "watched l fd p"
      using w by (auto simp: l' watched_def Socket_close_def split: if_splits)
    with assms l have live: "entry_live S fd p" by (simp add: objects_ok_def interest_live_def)
    show ?thesis
    proof (cases p)
      case (Client_channel cid)
      with live obtain c where c: "sv_heap S cid = Some c" "Connection_fd c = fd"
        by (auto simp: entry_live_def)
      then have "cid < sv_next S" using assms by (simp add: objects_ok_def heap_wf_def)
      with c open_fd have "cid \<in> ?live"
        by (force simp: orphans_def List.map_filter_def)
      with c show ?thesis by (simp add: Client_channel entry_live_def heap)
    qed (use live len in \<open>auto simp: entry_live_def chan_deref_def get_loop_def split: nat.splits if_splits\<close>)
  qed
  moreover have "heap_wf ?S"
    using assms by (auto simp: objects_ok_def heap_wf_def heap nxt restrict_map_def split: if_splits)
  moreover have "?live \<subseteq> dom (sv_heap ?S)"
    using assms by (auto simp: objects_ok_def heap)
  ultimately show ?thesis
    by (simp add: objects_ok_def interest_live_def owners)
qed

subsection \<open>A new connection\<close>

context epoll_kernel
begin

lemma Connection_new_step:
  assumes "Connection_new ctl cid now lid sock l = Inr (c, l')"
  shows "cn_id c = cid \<and> ch_this (cn_clientchannel c) = Client_channel cid \<and>
    ch_fd (cn_clientchannel c) = so_fd sock \<and> cn_clientsock c = sock \<and> el_conns l' = el_conns l \<and> el_stop l' = el_stop l \<and>
    el_wakechannel l' = el_wakechannel l \<and> el_timerchannel l' = el_timerchannel l \<and> interest_local (so_fd sock) (Client_channel cid) (el_ep l) (el_ep l')"
  using assms
  by (auto simp: Connection_new_def Let_def bind_res_eq_Inr channel_setter_defs Channel_new_def
      dest: chan_localD [OF chan_local_enablereading])

end

lemma set_callbacks_identity [simp]:
  "identity (set_callbacks (c\<lparr>cn_owned := b\<rparr>)) = identity c"
  by (simp add: identity_def set_callbacks_def connection_setter_defs)

context safe_app
begin

text \<open>What \<^verbatim>\<open>TcpServer::newconnection\<close> does to the objects, the loop and the maps.\<close>

lemma newconnection_effect:
  assumes run: "TcpServer_newconnection ctl now app sock S = Inr S'"
  obtains i l' c' ts x where "i < length (sv_subloops S)"
    and "S' = S\<lparr>sv_subloops := (sv_subloops S)[i := l'], sv_tcpserver := ts,
      sv_heap := (sv_heap S)(sv_next S \<mapsto> c'), sv_next := Suc (sv_next S), sv_app := x\<rparr>"
    and "identity c' = (sv_next S, sock, Client_channel (sv_next S), so_fd sock)"
    and "interest_local (so_fd sock) (Client_channel (sv_next S)) (el_ep (sv_subloops S ! i)) (el_ep l')"
    and "el_conns l' = om_assign (so_fd sock) (sv_next S) (el_conns (sv_subloops S ! i))"
    and "el_stop l' = el_stop (sv_subloops S ! i)"
    and "el_wakechannel l' = el_wakechannel (sv_subloops S ! i)" "el_timerchannel l' = el_timerchannel (sv_subloops S ! i)"
    and "set (ts_conns ts) \<subseteq> set (om_assign (so_fd sock) (sv_next S) (ts_conns (sv_tcpserver S)))"
    and "set (owns x) \<subseteq> insert (sv_next S) (set (owns (sv_app S)))"
proof -
  let ?cid = "sv_next S"
  obtain i where i: "subloop_index (so_fd sock) S = Inr i"
    using run by (cases "subloop_index (so_fd sock) S") (auto simp: TcpServer_newconnection_def)
  obtain c l where new: "Connection_new ctl ?cid now (Suc i) sock (sv_subloops S ! i) = Inr (c, l)"
    using run i by (auto simp: TcpServer_newconnection_def Let_def bind_res_eq_Inr)
  let ?c = "set_callbacks (c\<lparr>cn_owned := True\<rparr>)" and ?l = "EventLoop_newconnection (so_fd sock) ?cid l"
    and ?ts = "(sv_tcpserver S)\<lparr>ts_conns := om_assign (so_fd sock) ?cid (ts_conns (sv_tcpserver S))\<rparr>"
  note c = Connection_new_step [OF new]
  have "Connection_fd ?c = so_fd sock"
    using c by (simp add: Connection_fd_def set_callbacks_def connection_setter_defs)
  then obtain m c' l' ts x where
    call: "call_handler app (ts_newconnectioncb (sv_tcpserver S)) [] (?c, ?l, ?ts, sv_app S) = Inr (m, c', l', ts, x)"
    and S': "S' = S\<lparr>sv_subloops := (sv_subloops S)[i := l'], sv_tcpserver := ts,
      sv_heap := (sv_heap S)(?cid \<mapsto> c'), sv_next := Suc ?cid, sv_app := x\<rparr>"
    using run i new by (fastforce simp: TcpServer_newconnection_def Let_def bind_res_eq_Inr)
  from call_handler_safe [OF call] have step: "conn_step ?c ?l c' l'"
    and ts: "set (ts_conns ts) \<subseteq> set (ts_conns ?ts)"
    and x: "set (owns x) \<subseteq> insert (cn_id ?c) (set (owns (sv_app S)))"
    by (simp_all add: safe_step_def)
  have id: "identity ?c = (?cid, sock, Client_channel ?cid, so_fd sock)"
    using c by (simp add: identity_def [of c])
  with conn_step_identity [OF step] have id': "identity c' = (?cid, sock, Client_channel ?cid, so_fd sock)" by simp
  have "interest_local (so_fd sock) (Client_channel ?cid) (el_ep l) (el_ep l')"
    using step id by (simp add: conn_step_def identity_def EventLoop_newconnection_def)
  then have local: "interest_local (so_fd sock) (Client_channel ?cid) (el_ep (sv_subloops S ! i)) (el_ep l')"
    using c by (blast intro: interest_local_trans)
  have conns: "el_conns l' = om_assign (so_fd sock) ?cid (el_conns (sv_subloops S ! i))"
    using step c by (simp add: conn_step_def EventLoop_newconnection_def)
  have stop: "el_stop l' = el_stop (sv_subloops S ! i)"
    using step c by (simp add: conn_step_def EventLoop_newconnection_def)
  have chans: "el_wakechannel l' = el_wakechannel (sv_subloops S ! i)" "el_timerchannel l' = el_timerchannel (sv_subloops S ! i)"
    using step c by (simp_all add: conn_step_def EventLoop_newconnection_def)
  have i: "i < length (sv_subloops S)"
    using i by (auto simp: subloop_index_def Let_def split: if_splits)
  have ts': "set (ts_conns ts) \<subseteq> set (om_assign (so_fd sock) ?cid (ts_conns (sv_tcpserver S)))"
    using ts by simp
  have "set (owns x) \<subseteq> insert ?cid (set (owns (sv_app S)))"
    using x id by (simp add: identity_def)
  then show thesis by (rule that [OF i S' id' local conns stop chans ts'])
qed

text \<open>An object is added on one loop, and only its own descriptor is registered there.\<close>

lemma interest_live_added:
  assumes old: "interest_live S" "l \<in> set (loops S)" and "interest_local fd p (el_ep l) (el_ep l')"
    and new: "\<And>k. k \<in> set (loops S') \<Longrightarrow> k = l' \<or> k \<in> set (loops S)" "entry_live S' fd p"
    and mono: "\<And>fd p. entry_live S fd p \<Longrightarrow> entry_live S' fd p"
  shows "interest_live S'"
  unfolding interest_live_def
proof (intro ballI allI impI)
  fix k fd' p' assume "k \<in> set (loops S')" and w: "watched k fd' p'"
  then consider "k = l'" | "k \<in> set (loops S)" using new(1) by blast
  then show "entry_live S' fd' p'"
  proof cases
    case 1
    with w assms(3) have "watched l fd' p' \<or> fd' = fd \<and> p' = p"
      by (auto simp: watched_def interest_local_def)
    then show ?thesis using old mono new(2) by (auto simp: interest_live_def)
  qed (use w mono old(1) in \<open>auto simp: interest_live_def\<close>)
qed

text \<open>The maps and the application own at most one connection more, which exists.\<close>

lemma owners_added:
  assumes old: "set (owners owns S) \<subseteq> dom (sv_heap S)" "l \<in> set (loops S)" and dom: "dom (sv_heap S') = insert cid (dom (sv_heap S))"
    and ts: "set (ts_conns (sv_tcpserver S')) \<subseteq> set (om_assign fd cid (ts_conns (sv_tcpserver S)))"
    and x: "set (owns (sv_app S')) \<subseteq> insert cid (set (owns (sv_app S)))"
    and loops: "\<And>k. k \<in> set (loops S') \<Longrightarrow> k = l' \<or> k \<in> set (loops S)" and l': "el_conns l' = om_assign fd cid (el_conns l)"
  shows "set (owners owns S') \<subseteq> dom (sv_heap S')"
proof (rule owners_subset)
  have owned: "k \<in> dom (sv_heap S)" if "k \<in> set (owners owns S)" for k
    using old(1) that by blast
  show "snd e \<in> dom (sv_heap S')" if "e \<in> set (ts_conns (sv_tcpserver S'))" for e
  proof -
    have "e = (fd, cid) \<or> e \<in> set (ts_conns (sv_tcpserver S))"
      using that ts om_assign_subset [of fd cid "ts_conns (sv_tcpserver S)"] by auto
    then show ?thesis
      using owned [OF server_owners(1)] unfolding dom by (metis insert_iff snd_conv)
  qed
  show "set (owns (sv_app S')) \<subseteq> dom (sv_heap S')"
    using x server_owners(2) [of owns S] owned unfolding dom by auto
  show "snd e \<in> dom (sv_heap S')" if "k \<in> set (loops S')" "e \<in> set (el_conns k)" for k e
    using loops [OF that(1)] that(2) om_assign_subset [of fd cid "el_conns l"]
      owned [OF loop_owners [OF old(2)]] owned [OF loop_owners [of k S]]
    unfolding dom l' by (metis l' insert_iff snd_conv subsetD)
qed

lemma newconnection_ok:
  assumes ok: "objects_ok owns S" and run: "TcpServer_newconnection ctl now app sock S = Inr S'"
  shows "objects_ok owns S'"
proof -
  let ?cid = "sv_next S"
  from run obtain i l' c' ts x where i: "i < length (sv_subloops S)"
    and S': "S' = S\<lparr>sv_subloops := (sv_subloops S)[i := l'], sv_tcpserver := ts,
      sv_heap := (sv_heap S)(?cid \<mapsto> c'), sv_next := Suc ?cid, sv_app := x\<rparr>"
    and id: "identity c' = (?cid, sock, Client_channel ?cid, so_fd sock)"
    and local: "interest_local (so_fd sock) (Client_channel ?cid) (el_ep (sv_subloops S ! i)) (el_ep l')"
    and conns: "el_conns l' = om_assign (so_fd sock) ?cid (el_conns (sv_subloops S ! i))"
    and ts: "set (ts_conns ts) \<subseteq> set (om_assign (so_fd sock) ?cid (ts_conns (sv_tcpserver S)))"
    and x: "set (owns x) \<subseteq> insert ?cid (set (owns (sv_app S)))"
    by (rule newconnection_effect)
  have c': "cn_id c' = ?cid" "ch_this (cn_clientchannel c') = Client_channel ?cid"
    "ch_fd (cn_clientchannel c') = so_fd sock" "Connection_fd c' = so_fd sock"
    using id by (simp_all add: identity_def Connection_fd_def)
  have fresh: "sv_heap S ?cid = None"
    using ok by (rule objects_ok_fresh)
  have live: "entry_live S' fd p" if "entry_live S fd p" for fd p
    using that by (rule entry_live_mono) (use fresh in \<open>auto simp: S'\<close>)
  have mem: "k = l' \<or> k \<in> set (loops S)" if "k \<in> set (loops S')" for k
    using that by (auto simp: S' loops_def dest: set_update_subset_insert [THEN subsetD])
  have old: "sv_subloops S ! i \<in> set (loops S)" using i by (simp add: loops_def)
  have "heap_wf S'"
    using ok c' by (auto simp: objects_ok_def heap_wf_def S' less_Suc_eq)
  moreover have "interest_live S'"
    by (rule interest_live_added [OF _ old local mem _ live])
      (use ok c' in \<open>simp_all add: objects_ok_def entry_live_def S'\<close>)
  moreover have "set (owners owns S') \<subseteq> dom (sv_heap S')"
    by (rule owners_added [OF _ old _ _ _ mem conns]) (use ok ts x in \<open>simp_all add: objects_ok_def S'\<close>)
  ultimately show ?thesis by (simp add: objects_ok_def)
qed

end

subsection \<open>Waiting and dispatching\<close>

lemma set_loop_ok:
  assumes ok: "objects_ok app_owns S" and l: "get_loop lid S = Some l"
    and same: "el_ep l' = el_ep l" "el_conns l' = el_conns l"
  shows "objects_ok app_owns (set_loop lid l' S)"
  using ok
proof (rule objects_ok_step)
  let ?S = "set_loop lid l' S"
  show "(\<exists>l\<in>set (loops S). watched l fd p) \<or> registered (sv_heap S) fd p"
    if "l1 \<in> set (loops ?S)" and "watched l1 fd p" for l1 fd p
    using set_loop_mem [OF that(1)] that(2) same(1) get_loop_mem [OF l] unfolding watched_def by metis
  have "snd e \<in> set (owners app_owns S)" if "l1 \<in> set (loops ?S)" "e \<in> set (el_conns l1)" for l1 e
    using set_loop_mem [OF that(1)] that(2) same(2) loop_owners [OF get_loop_mem [OF l]] loop_owners [of l1 S]
    by metis
  then show "set (owners app_owns ?S) \<subseteq> set (owners app_owns S) \<union> dom (sv_heap S)"
    using server_owners [where S = S and app_owns = app_owns]
    by (intro owners_subset UnI1 subset_trans [OF _ Un_upper1]) simp_all
qed simp_all

lemma heap_upd_ok:
  assumes "objects_ok app_owns S" and "identities_kept (sv_heap S) h"
  shows "objects_ok app_owns (S\<lparr>sv_heap := h\<rparr>)"
  using assms(1) by (rule objects_ok_step) (use assms(2) in \<open>auto simp: loops_def owners_def\<close>)

lemma acceptor_ok: "objects_ok app_owns S \<Longrightarrow> objects_ok app_owns (S\<lparr>sv_acceptor := a\<rparr>)"
  by (erule objects_ok_step) (auto simp: loops_def owners_def)

lemma setrevents_ok:
  assumes "objects_ok app_owns S" and "chan_deref p S = Some ch"
  shows "objects_ok app_owns (chan_put p (Channel_setrevents ev ch) S)"
  using assms
  by (cases p)
    (auto simp: chan_deref_def chan_put_def identity_def Channel_setrevents_def
      intro!: acceptor_ok heap_upd_ok set_loop_ok identities_kept_upd)

lemma collect_ok:
  "Epoll_collect chan_deref chan_put evs S = Inr (ps, S') \<Longrightarrow> objects_ok app_owns S \<Longrightarrow> objects_ok app_owns S'"
proof (induction evs arbitrary: S ps)
  case (Cons e evs)
  obtain ev p where e: "e = (ev, p)" by (cases e)
  then obtain ch ps' where ch: "chan_deref p S = Some ch"
    and rest: "Epoll_collect chan_deref chan_put evs (chan_put p (Channel_setrevents ev ch) S) = Inr (ps', S')"
    using Cons.prems(1) by (auto simp: bind_res_eq_Inr split: option.splits)
  from rest setrevents_ok [OF Cons.prems(2) ch] show ?case by (rule Cons.IH)
qed simp

lemma Epoll_loop_ok:
  "Epoll_loop chan_deref chan_put r S = Inr (ps, S') \<Longrightarrow> objects_ok app_owns S \<Longrightarrow> objects_ok app_owns S'"
  by (auto simp: Epoll_loop_def split: wait_result.splits if_splits dest: collect_ok)

text \<open>An environment whose handlers keep to the contract, for every calling thread.\<close>

definition env_ok :: "'x env \<Rightarrow> bool" where
  "env_ok env \<longleftrightarrow> (\<forall>tid. safe_app (env_ctl env) (env_app env tid) (env_owns env))"

lemma run_callback_ok:
  assumes env: "env_ok env" and ok: "objects_ok (env_owns env) S"
    and run: "run_callback env tid inp cb n S = Some (Inr S')"
  shows "objects_ok (env_owns env) S'"
proof -
  have app: "safe_app (env_ctl env) (env_app env tid) (env_owns env)"
    using env by (simp add: env_ok_def)
  then have kernel: "epoll_kernel (env_ctl env)" by (rule safe_app.axioms)
  show ?thesis
  proof (cases cb)
    case Cb_acceptor_newconnection
    then obtain sock where
      "TcpServer_newconnection (env_ctl env) (in_now inp) (env_app env tid) sock S = Inr S'"
      using run by (auto simp: Acceptor_newconnection_def split: prod.splits option.splits newconnection_cb.splits)
    with app ok show ?thesis by (rule safe_app.newconnection_ok)
  next
    case Cb_handlewakeup
    with run ok epoll_kernel.on_wakeup_ok [OF kernel] show ?thesis by fastforce
  next
    case Cb_handletimer
    with run ok show ?thesis by (auto intro: on_timer_ok)
  next
    case Cb_connection_onmessage
    show ?thesis
      by (rule on_connection_ok [OF ok _ run [unfolded Cb_connection_onmessage run_callback.simps]])
        (auto intro: safe_app.onmessage_safe [OF app])
  next
    case Cb_connection_close
    show ?thesis
      by (rule on_connection_ok [OF ok _ run [unfolded Cb_connection_close run_callback.simps]])
        (auto intro: safe_app.closecallback_safe [OF app])
  next
    case Cb_connection_error
    show ?thesis
      by (rule on_connection_ok [OF ok _ run [unfolded Cb_connection_error run_callback.simps]])
        (auto intro: safe_app.errorcallback_safe [OF app])
  next
    case Cb_connection_write
    show ?thesis
      by (rule on_connection_ok [OF ok _ run [unfolded Cb_connection_write run_callback.simps]])
        (auto intro: safe_app.writecallback_safe [OF app])
  qed
qed

lemma run_channels_ok:
  assumes "env_ok env"
  shows "run_channels env tid ps S = Some (Inr S') \<Longrightarrow> objects_ok (env_owns env) S \<Longrightarrow> objects_ok (env_owns env) S'"
proof (induction ps arbitrary: S)
  case (Cons q ps)
  obtain p inp where q: "q = (p, inp)" by (cases q)
  obtain cb S1 where "run_callback env tid inp cb (owner_of p) S = Some (Inr S1)"
    and rest: "run_channels env tid ps (release (env_owns env) S1) = Some (Inr S')"
    using Cons.prems(1) by (auto simp: q split: option.splits sum.splits)
  then have "objects_ok (env_owns env) S1" using Cons.prems(2) run_callback_ok [OF assms] by blast
  then show ?case using Cons.IH [OF rest] release_ok by blast
qed simp

subsection \<open>The start\<close>

text \<open>The interest lists that the constructors leave.\<close>

definition loop_fresh :: "nat \<Rightarrow> eventloop \<Rightarrow> bool" where
  "loop_fresh lid l \<longleftrightarrow> el_conns l = [] \<and>
     (\<forall>fd p. watched l fd p \<longrightarrow> p = Wake_channel lid \<or> p = Timer_channel lid)"

context epoll_kernel
begin

lemma EventLoop_new_fresh:
  assumes "EventLoop_new ctl lid fds mainloop timetvl timeout = Inr l"
  shows "loop_fresh lid l"
proof -
  obtain e w t where fds: "fds = (e, w, t)" by (cases fds)
  let ?wake = "Channel_setreadcallback Cb_handlewakeup (Channel_new (Wake_channel lid) (Some lid) w)"
    and ?timer = "Channel_setreadcallback Cb_handletimer (Channel_new (Timer_channel lid) (Some lid) t)"
  obtain ep0 wake ep1 timer where new: "Epoll_new e = Inr ep0"
    and wake: "Channel_enablereading ctl ?wake ep0 = Inr (wake, ep1)"
    and timer: "Channel_enablereading ctl ?timer ep1 = Inr (timer, el_ep l)" and conns: "el_conns l = []"
    using assms by (auto simp: EventLoop_new_def fds createtimerfd_def bind_res_eq_Inr)
  have "ep_interest ep0 = Map.empty" using new by (auto simp: Epoll_new_def split: if_splits)
  moreover have "ch_this ?wake = Wake_channel lid" "ch_this ?timer = Timer_channel lid"
    by (simp_all add: channel_setter_defs Channel_new_def)
  ultimately show ?thesis
    using conns chan_localD [OF chan_local_enablereading wake] chan_localD [OF chan_local_enablereading timer]
    by (fastforce simp: loop_fresh_def watched_def interest_local_def)
qed

lemma TcpServer_subloops_fresh:
  assumes "TcpServer_subloops ctl (length ls) fdss ls p = Inr (ls', p')"
    and "\<forall>j < length ls. loop_fresh (Suc j) (ls ! j)"
  shows "\<forall>j < length ls'. loop_fresh (Suc j) (ls' ! j)"
  using assms
proof (induction fdss arbitrary: ls p)
  case (Cons fds fdss)
  obtain l where l: "EventLoop_new ctl (Suc (length ls)) fds False 5 10 = Inr l"
    and rest: "TcpServer_subloops ctl (Suc (length ls)) fdss
      (ls @ [EventLoop_settimercallback Cb_removeconn (EventLoop_setepolltimeoutcallback Cb_epolltimeout l)])
      (ThreadPool_addtask (EventLoop_run_task (length ls)) p) = Inr (ls', p')" (is "TcpServer_subloops _ _ _ (ls @ [?l]) ?p = _")
    using Cons.prems(1) by (auto simp: TcpServer_subloop_def bind_res_eq_Inr)
  have "loop_fresh (Suc (length ls)) ?l"
    using EventLoop_new_fresh [OF l]
    by (simp add: loop_fresh_def watched_def EventLoop_settimercallback_def EventLoop_setepolltimeoutcallback_def)
  then have "\<forall>j < length (ls @ [?l]). loop_fresh (Suc j) ((ls @ [?l]) ! j)"
    using Cons.prems(2) by (auto simp: nth_append less_Suc_eq)
  with Cons.IH [of "ls @ [?l]" ?p] rest show ?case by simp
qed simp

lemma Acceptor_new_watched:
  assumes "Acceptor_new ctl inet_addr inet_ntoa garbage rcs loop ip port ep = Inr (a, reqs, ep')"
    and "ep_interest ep' fd = Some (ev, p)"
  shows "p = Accept_channel \<or> ep_interest ep fd = Some (ev, p)"
  using assms
  by (cases rcs)
    (fastforce simp: Acceptor_new_def Let_def bind_res_eq_Inr channel_setter_defs Channel_new_def interest_local_def
      dest!: chan_localD [OF chan_local_enablereading])

lemma TcpServer_new_objects:
  assumes "TcpServer_new ctl inet_addr inet_ntoa garbage rcs mainfds fdss ip port x = Inr (S, reqs)"
    and "app_owns x = []"
  shows "objects_ok app_owns S"
proof -
  obtain main a reqs' ep subs p where main: "EventLoop_new ctl 0 mainfds True 30 60 = Inr main"
    and acc: "Acceptor_new ctl inet_addr inet_ntoa garbage rcs (Some 0) ip port (el_ep main) = Inr (a, reqs', ep)"
    and subs: "TcpServer_subloops ctl 0 fdss [] (ThreadPool_new (length fdss)) = Inr (subs, p)"
    and S: "sv_mainloop S = EventLoop_setepolltimeoutcallback Cb_epolltimeout (main\<lparr>el_ep := ep\<rparr>)"
      "sv_subloops S = subs" "sv_heap S = Map.empty" "ts_conns (sv_tcpserver S) = []" "sv_app S = x"
    using assms(1) by (auto simp: TcpServer_new_def Let_def bind_res_eq_Inr)
  have fresh: "\<forall>j < length subs. loop_fresh (Suc j) (subs ! j)"
    using TcpServer_subloops_fresh [of "[]" fdss "ThreadPool_new (length fdss)" subs p] subs by simp
  have "entry_live S fd p" if "watched (sv_mainloop S) fd p" for fd p
    using that EventLoop_new_fresh [OF main] Acceptor_new_watched [OF acc]
    by (force simp: S watched_def loop_fresh_def entry_live_def chan_deref_def get_loop_def
        EventLoop_setepolltimeoutcallback_def)
  moreover have "entry_live S fd p" if l: "l \<in> set subs" and w: "watched l fd p" for l fd p
  proof -
    obtain j where "j < length subs" and "l = subs ! j" using l by (auto simp: in_set_conv_nth)
    with fresh w have "p = Wake_channel (Suc j) \<or> p = Timer_channel (Suc j)"
      by (auto simp: loop_fresh_def)
    with \<open>j < length subs\<close> show ?thesis
      by (auto simp: entry_live_def chan_deref_def get_loop_def S)
  qed
  moreover have "el_conns l = []" if "l \<in> set (loops S)" for l
    using that fresh EventLoop_new_fresh [OF main]
    by (auto simp: loops_def S loop_fresh_def in_set_conv_nth EventLoop_setepolltimeoutcallback_def)
  ultimately show ?thesis
    using assms(2) by (auto simp: objects_ok_def heap_wf_def interest_live_def loops_def set_owners S)
qed

end

end
