(* ===== verification/Echo_Objects.thy ===== *)
theory Echo_Objects
  imports Object_Lifetime
begin

text \<open>
  The echo server as a transition system: the threads of its event loops and of its workers,
  one handler or task at a time. The owners of connections outside the maps are the tasks of
  the workers, queued or running.
\<close>

subsection \<open>The application\<close>

fun task_conn :: "worker_task \<Rightarrow> nat" where
  "task_conn (EchoServer_OnMessage_task cid m) = cid"

definition pool_tasks :: "'t pool \<Rightarrow> 't list" where
  "pool_tasks p = p_queue p @ running (p_threads p)"

definition echo_owns :: "echoserver \<Rightarrow> nat list" where
  "echo_owns es = map task_conn (pool_tasks (es_threadpool es))"

lemma pool_tasks_addtask: "set (pool_tasks (ThreadPool_addtask t p)) = insert t (set (pool_tasks p))"
  by (auto simp: pool_tasks_def)

context epoll_kernel
begin

lemma OnMessage_safe: "EchoServer_OnMessage ctl evwrite tid m s = Inr (m', s') \<Longrightarrow> safe_step owns s s'"
  by (auto simp: EchoServer_OnMessage_def Let_def bind_res_eq_Inr intro: send_safe)

lemma echo_call_safe:
  assumes "echo_call ctl evwrite tid h m s = Inr (m', s')"
  shows "safe_step echo_owns s s'"
proof (cases h)
  case Cb_HandleMessage
  obtain c l ts es where s: "s = (c, l, ts, es)" by (cases s)
  show ?thesis
  proof (cases "ThreadPool_size (es_threadpool es) = 0")
    case True
    with assms Cb_HandleMessage show ?thesis
      by (auto simp: s EchoServer_HandleMessage_def intro: OnMessage_safe)
  next
    case False
    with assms Cb_HandleMessage show ?thesis
      by (auto simp: s EchoServer_HandleMessage_def Let_def safe_step_def echo_owns_def pool_tasks_addtask)
  qed
qed (use assms in auto)

lemma echo_safe_app: "safe_app ctl (echo_call ctl evwrite tid) echo_owns"
  by unfold_locales (rule echo_call_safe)

end

interpretation echo_objects: safe_app interest_ctl "echo_call interest_ctl evwrite tid" echo_owns for evwrite tid
  by (rule epoll_kernel.echo_safe_app) (rule linux_epoll.epoll_kernel_axioms)

text \<open>The system calls of the machine.\<close>

record machine =
  mc_ctl :: epoll_ctl
  mc_evread :: "u64 \<Rightarrow> u64"
  mc_evwrite :: "u64 \<Rightarrow> u64"
  mc_inet_ntoa :: "u32 \<Rightarrow> bytes"
  mc_garbage :: u16
  mc_blank :: sockaddr_in

definition echo_env :: "machine \<Rightarrow> echoserver env" where
  "echo_env mc =
     \<lparr>env_ctl = mc_ctl mc, env_evread = mc_evread mc, env_evwrite = mc_evwrite mc,
      env_inet_ntoa = mc_inet_ntoa mc, env_garbage = mc_garbage mc, env_blank = mc_blank mc,
      env_app = echo_call (mc_ctl mc) (mc_evwrite mc), env_timeout = (\<lambda>h s. Inr s), env_clock = clock,
      env_owns = echo_owns\<rparr>"

lemma echo_env_ok: "epoll_kernel (mc_ctl mc) \<Longrightarrow> env_ok (echo_env mc)"
  by (simp add: env_ok_def echo_env_def epoll_kernel.echo_safe_app)

subsection \<open>Steps\<close>

text \<open>
  \<^verbatim>\<open>epoll_wait\<close> reports channels that are in the interest list at that moment.
\<close>

definition kernel_reports :: "eventloop \<Rightarrow> (u32 \<times> chan_ptr) list \<Rightarrow> bool" where
  "kernel_reports l evs \<longleftrightarrow> (\<forall>(ev, p)\<in>set evs. \<exists>fd. watched l fd p)"

definition set_pool :: "worker_task pool \<Rightarrow> echoserver server \<Rightarrow> echoserver server" where
  "set_pool p S = S\<lparr>sv_app := (sv_app S)\<lparr>es_threadpool := p\<rparr>\<rparr>"

abbreviation worker_pool :: "echoserver server \<Rightarrow> worker_task pool" where
  "worker_pool S \<equiv> es_threadpool (sv_app S)"

text \<open>
  \<open>wait\<close>: an event loop stores what was reported; \<open>work\<close>: worker \<open>i\<close> has run its task, whose share
  of the connection ends; \<open>pool\<close>: the threads of the pool move in another way, or the pool is
  stopped; \<open>enter\<close>: a thread starts \<^verbatim>\<open>EventLoop::run\<close>; \<open>halt\<close>: \<^verbatim>\<open>EventLoop::stop\<close>; \<open>handle\<close>: an event loop runs the handler of some channel.
\<close>

inductive background_step :: "machine \<Rightarrow> echoserver server \<Rightarrow> echoserver server \<Rightarrow> bool" for mc where
  wait: "get_loop lid S = Some l \<Longrightarrow> kernel_reports l evs \<Longrightarrow>
    Epoll_loop chan_deref chan_put (Wait_events evs) S = Inr (ps, S') \<Longrightarrow> background_step mc S S'"
| work: "at (worker_pool S) i (Running t) \<Longrightarrow>
    on_connection (\<lambda>s. Some (worker_exec (mc_ctl mc) (mc_evwrite mc) tid t s)) (task_conn t) S = Some (Inr S') \<Longrightarrow>
    thread_step i (worker_pool S') p \<Longrightarrow> at p i At_loop \<Longrightarrow>
    background_step mc S (release echo_owns (set_pool p S'))"
| pool: "pool_step (worker_pool S) p \<Longrightarrow> p_submitted p = p_submitted (worker_pool S) \<Longrightarrow>
    p_done p = p_done (worker_pool S) \<Longrightarrow> background_step mc S (set_pool p S)"
| tick: "background_step mc S (S\<lparr>sv_app := (sv_app S)\<lparr>es_clock := now\<rparr>\<rparr>)"
| enter: "get_loop lid S = Some l \<Longrightarrow> background_step mc S (set_loop lid (l\<lparr>el_threadid := Some tid\<rparr>) S)"
| halt: "get_loop lid S = Some l \<Longrightarrow> background_step mc S (set_loop lid (EventLoop_stop (mc_evwrite mc) l) S)"

definition handles :: "machine \<Rightarrow> chan_ptr \<Rightarrow> callback \<Rightarrow> io_input \<Rightarrow> echoserver server \<Rightarrow> echoserver server \<Rightarrow> bool" where
  "handles mc p cb inp S S' \<longleftrightarrow> (\<exists>ch tid. chan_deref p S = Some ch \<and> Channel_handleevent ch = Inr cb \<and>
     run_callback (echo_env mc) tid inp cb (owner_of p) S = Some (Inr S'))"

inductive echo_step :: "machine \<Rightarrow> echoserver server \<Rightarrow> echoserver server \<Rightarrow> bool" for mc where
  handle: "handles mc p cb inp S S' \<Longrightarrow> echo_step mc S (release echo_owns S')"
| background: "background_step mc S S' \<Longrightarrow> echo_step mc S S'"

text \<open>What \<^verbatim>\<open>EchoServer\<close>'s constructor gives.\<close>

definition echo_init :: "machine \<Rightarrow> echoserver server \<Rightarrow> bool" where
  "echo_init mc S \<longleftrightarrow> (\<exists>inet_addr rcs mainfds fdss n ip port now reqs.
     EchoServer_new (mc_ctl mc) inet_addr (mc_inet_ntoa mc) (mc_garbage mc) rcs mainfds fdss n ip port now =
       Inr (S, reqs))"

lemma echo_init_ok:
  assumes "epoll_kernel (mc_ctl mc)" and "echo_init mc S"
  shows "objects_ok echo_owns S"
proof -
  obtain inet_addr rcs mainfds fdss n ip port now S0 reqs where
    new: "TcpServer_new (mc_ctl mc) inet_addr (mc_inet_ntoa mc) (mc_garbage mc) rcs mainfds fdss ip port
      \<lparr>es_threadpool = ThreadPool_new n, es_clock = now\<rparr> = Inr (S0, reqs)"
    and S: "S = S0\<lparr>sv_tcpserver := EchoServer_handlers (sv_tcpserver S0)\<rparr>"
    using assms(2) by (auto simp: echo_init_def EchoServer_new_def bind_res_eq_Inr)
  have "echo_owns \<lparr>es_threadpool = ThreadPool_new n, es_clock = now\<rparr> = []"
    by (simp add: echo_owns_def pool_tasks_def ThreadPool_new_def running_def running_task_def)
  with assms(1) new have "objects_ok echo_owns S0"
    by (rule epoll_kernel.TcpServer_new_objects)
  then show ?thesis
    unfolding S
    by (rule objects_ok_step)
      (auto simp: loops_def owners_def EchoServer_handlers_def TcpServer_setsendcompletecb_def
        TcpServer_setonmessagecb_def TcpServer_seterrorconnectioncb_def TcpServer_setcloseconnectioncb_def
        TcpServer_setnewconnectioncb_def)
qed

text \<open>The tasks of the pool, while no task is added.\<close>

lemma thread_step_tasks:
  assumes "thread_step i p p'"
  shows "set (pool_tasks p') \<subseteq> set (pool_tasks p)"
proof -
  have upd: "set (running (ws[i := w])) \<subseteq> set (running ws) \<union> set (running_task w)" for ws :: "'a thread_state list" and w
    by (auto simp: running_def dest!: set_update_subset_insert [THEN subsetD])
  show ?thesis
    using assms upd by (cases rule: thread_step_cases) (fastforce simp: pool_tasks_def running_task_def)+
qed

lemma env_step_tasks:
  assumes "env_step p p'" and "p_submitted p' = p_submitted p"
  shows "set (pool_tasks p') \<subseteq> set (pool_tasks p)"
proof -
  have upd: "x \<in> set (running (ws[i := Woken])) \<Longrightarrow> x \<in> set (running ws)"
    for x and ws :: "'a thread_state list" and i
    by (auto simp: running_def running_task_def dest!: set_update_subset_insert [THEN subsetD])
  show ?thesis
    using assms upd by (cases rule: env_step_cases) (auto simp: pool_tasks_def)
qed

lemma set_pool_ok:
  assumes "objects_ok echo_owns S" and "set (pool_tasks p) \<subseteq> set (pool_tasks (worker_pool S))"
  shows "objects_ok echo_owns (set_pool p S)"
  using assms(1)
  by (rule objects_ok_step) (use assms(2) in \<open>auto simp: set_pool_def loops_def owners_def echo_owns_def\<close>)

lemma worker_exec_safe:
  assumes "epoll_kernel ctl" and "worker_exec ctl evwrite tid t s = Inr s'"
  shows "safe_step owns s s'"
  using assms(2)
  by (cases t) (auto simp: map_sum_def split: sum.splits intro: epoll_kernel.OnMessage_safe [OF assms(1)])

lemma handles_ok:
  assumes kernel: "epoll_kernel (mc_ctl mc)" and "objects_ok echo_owns S" and "handles mc p cb inp S S'"
  shows "objects_ok echo_owns S'"
proof -
  have "env_owns (echo_env mc) = echo_owns" by (simp add: echo_env_def)
  with assms(2,3) run_callback_ok [OF echo_env_ok [OF kernel]] show ?thesis by (auto simp: handles_def)
qed

lemma background_step_ok:
  assumes kernel: "epoll_kernel (mc_ctl mc)" and "objects_ok echo_owns S" and "background_step mc S S'"
  shows "objects_ok echo_owns S'"
  using assms(3,2)
proof cases
  case (wait lid l evs ps)
  then show ?thesis using assms(2) by (blast intro: Epoll_loop_ok)
next
  case (work i t tid S1 p)
  have "objects_ok echo_owns S1"
    by (rule on_connection_ok [OF assms(2) _ work(3)]) (auto intro: worker_exec_safe [OF kernel])
  then show ?thesis
    using thread_step_tasks [OF work(4)] by (simp add: work(1) release_ok set_pool_ok)
next
  case (pool p)
  then have "set (pool_tasks p) \<subseteq> set (pool_tasks (worker_pool S))"
    by (auto simp: pool_step_def dest: thread_step_tasks env_step_tasks)
  with pool assms(2) show ?thesis by (simp add: set_pool_ok)
next
  case (tick now)
  show ?thesis
    unfolding tick using assms(2) by (rule objects_ok_step) (auto simp: loops_def owners_def echo_owns_def)
qed (use assms(2) in \<open>auto intro: set_loop_ok simp: EventLoop_stop_def EventLoop_wakeup_def\<close>)

lemma echo_step_ok:
  "epoll_kernel (mc_ctl mc) \<Longrightarrow> objects_ok echo_owns S \<Longrightarrow> echo_step mc S S' \<Longrightarrow> objects_ok echo_owns S'"
  by (auto elim!: echo_step.cases intro: release_ok handles_ok background_step_ok)

lemma echo_objects_invariant:
  "epoll_kernel (mc_ctl mc) \<Longrightarrow> invariant_system (echo_init mc) (echo_step mc) (objects_ok echo_owns)"
  by unfold_locales (blast intro: echo_init_ok echo_step_ok)+

end
