(* ===== verification/Samples.thy ===== *)
theory Samples
  imports Server_Lifecycle
begin

text \<open>
  Concrete states for the examples that show that the hypotheses of the properties can hold:
  one event loop, run by thread 100, with the connection of descriptor 7, and a server with
  two workers.
\<close>

definition sample_channel :: channel where
  "sample_channel =
     \<lparr>ch_this = Client_channel 0, ch_loop = Some 1, ch_fd = 7, ch_inepoll = True, ch_events = EPOLLIN,
      ch_revents = 0, ch_readcallback = Some Cb_connection_onmessage,
      ch_closecallback = Some Cb_connection_close, ch_errorcallback = Some Cb_connection_error,
      ch_writecallback = Some Cb_connection_write\<rparr>"

definition sample_socket :: socket where
  "sample_socket = \<lparr>so_fd = 7, so_ip = lit ''10.0.0.2'', so_port = 5005\<rparr>"

definition sample_conn :: connection where
  "sample_conn =
     \<lparr>cn_id = 0, cn_loop = 1, cn_clientsock = sample_socket, cn_clientchannel = sample_channel,
      cn_inputbuffer = Buffer_new 1, cn_outputbuffer = Buffer_new 1, cn_disconnect = False,
      cn_closecallback = Some Cb_closeconnection, cn_errorcallback = Some Cb_errorconnection,
      cn_onmessagecallback = Some Cb_onmessage, cn_sendcompletecallback = Some Cb_sendcomplete,
      cn_lasttime = 0, cn_owned = True\<rparr>"

definition sample_epoll :: epoll where
  "sample_epoll = \<lparr>ep_fd = 4, ep_interest = [7 \<mapsto> (EPOLLIN, Client_channel 0)]\<rparr>"

definition sample_loop :: eventloop where
  "sample_loop =
     \<lparr>el_id = 1, el_mainloop = False, el_timetvl = 5, el_timeout = 10, el_ep = sample_epoll,
      el_epolltimeoutcallback = Some Cb_epolltimeout, el_threadid = Some 100, el_taskqueue = [],
      el_locked = False, el_wakeupfd = 5, el_wakecount = 0,
      el_wakechannel = Channel_new (Wake_channel 1) (Some 1) 5, el_timerfd = 6, el_timerset = 10,
      el_timerchannel = Channel_new (Timer_channel 1) (Some 1) 6, el_conns = [(7, 0)],
      el_timercallback = Some Cb_removeconn, el_stop = False\<rparr>"

definition sample_tcpserver :: tcpserver where
  "sample_tcpserver =
     EchoServer_handlers
       \<lparr>ts_threadnum = 1, ts_conns = [(7, 0)], ts_newconnectioncb = None, ts_closeconnectioncb = None,
        ts_errorconnectioncb = None, ts_onmessagecb = None, ts_sendcompletecb = None,
        ts_timeoutcb = None\<rparr>"

definition sample_world :: "echoserver world" where
  "sample_world = (sample_tcpserver, \<lparr>es_threadpool = ThreadPool_new 2, es_clock = 1000\<rparr>)"

lemma sample_conn_open: "conn_open sample_conn sample_loop"
  by (simp add: conn_open_def chan_open_def chan_synced_def sample_conn_def sample_loop_def
      sample_channel_def sample_epoll_def conn_out_def Buffer_new_def out_events_def)

lemma sample_conn_ready: "conn_ready sample_conn"
  by (simp add: conn_ready_def sample_conn_def Buffer_new_def)

lemma sample_world_ready: "echo_ready sample_world"
  by (simp add: echo_ready_def sample_world_def sample_tcpserver_def EchoServer_handlers_def
      ThreadPool_size_def ThreadPool_new_def TcpServer_setsendcompletecb_def
      TcpServer_setonmessagecb_def TcpServer_seterrorconnectioncb_def
      TcpServer_setcloseconnectioncb_def TcpServer_setnewconnectioncb_def)

lemma sample_simps [simp]:
  "cn_id sample_conn = 0" "cn_owned sample_conn" "\<not> cn_disconnect sample_conn"
  "cn_sendcompletecallback sample_conn = Some Cb_sendcomplete"
  "cn_closecallback sample_conn = Some Cb_closeconnection"
  "b_buf (cn_inputbuffer sample_conn) = []" "conn_out sample_conn = []"
  "b_sep (cn_inputbuffer sample_conn) = 1" "b_sep (cn_outputbuffer sample_conn) = 1"
  "el_taskqueue sample_loop = []" "el_threadid sample_loop = Some 100" "\<not> el_locked sample_loop"
  "p_queue (es_threadpool (snd sample_world)) = []"
  by (simp_all add: sample_conn_def sample_loop_def sample_world_def Buffer_new_def conn_out_def
      ThreadPool_new_def)

definition sample_reads :: "bytes list \<Rightarrow> ((nat \<Rightarrow> byte) \<times> read_result list) list" where
  "sample_reads ds = map (\<lambda>d. ((\<lambda>_. 0), [Read_eintr, Read_data d])) ds"

lemma sample_closecb: "ts_closeconnectioncb (fst sample_world) = Some Cb_HandleClose"
  by (simp add: sample_world_def sample_tcpserver_def EchoServer_handlers_def
      TcpServer_setsendcompletecb_def TcpServer_setonmessagecb_def TcpServer_seterrorconnectioncb_def
      TcpServer_setcloseconnectioncb_def TcpServer_setnewconnectioncb_def)

text \<open>The loop before the connection is made.\<close>

definition sample_loop0 :: eventloop where
  "sample_loop0 = sample_loop\<lparr>el_ep := \<lparr>ep_fd = 4, ep_interest = Map.empty\<rparr>, el_conns := []\<rparr>"

lemma sample_loop0_free: "ep_interest (el_ep sample_loop0) fd = None"
  by (simp add: sample_loop0_def)

lemma sample_sender:
  "reply_stream.sender echo_ready (sample_conn, sample_loop, sample_world)"
  using sample_conn_open sample_world_ready
  by (simp add: reply_stream.sender_def [OF echo_reply_stream [OF linux_epoll.epoll_reliable_axioms]])

lemma sample_tcpserver_simps:
  "ts_threadnum sample_tcpserver = 1" "ts_conns sample_tcpserver = [(7, 0)]"
  "ts_newconnectioncb sample_tcpserver = Some Cb_HandleNewConnection"
  "ts_closeconnectioncb sample_tcpserver = Some Cb_HandleClose"
  by (simp_all add: sample_tcpserver_def EchoServer_handlers_def
      TcpServer_setsendcompletecb_def TcpServer_setonmessagecb_def TcpServer_seterrorconnectioncb_def
      TcpServer_setcloseconnectioncb_def TcpServer_setnewconnectioncb_def)

definition sample_fds :: "(int \<times> int \<times> int) list" where
  "sample_fds = [(7, 8, 9), (10, 11, 12)]"

definition sample_acceptor :: acceptor where
  "sample_acceptor =
     \<lparr>ac_loop = Some 0, ac_servsock = Socket_new 0 3, ac_acceptchannel = Channel_new Accept_channel (Some 0) 3,
      ac_newconnectioncb = Some Cb_newconnection\<rparr>"

definition sample_server :: "echoserver server" where
  "sample_server =
     \<lparr>sv_mainloop = sample_loop\<lparr>el_id := 0, el_mainloop := True\<rparr>, sv_subloops = [sample_loop],
      sv_acceptor = sample_acceptor, sv_tcpserver = sample_tcpserver, sv_threadpool = ThreadPool_new 1,
      sv_heap = [0 \<mapsto> sample_conn], sv_next = 1, sv_app = snd sample_world\<rparr>"

lemma sample_server_loops: "server_loops_ok sample_server"
  by (simp add: server_loops_ok_def sample_server_def sample_tcpserver_simps)

text \<open>The eventfd of the loop is connected to its handler.\<close>

definition sample_waiting :: "echoserver server" where
  "sample_waiting = sample_server\<lparr>sv_subloops := [sample_loop\<lparr>el_wakechannel :=
     Channel_setreadcallback Cb_handlewakeup (Channel_new (Wake_channel 1) (Some 1) 5)\<rparr>]\<rparr>"

text \<open>One reply has been queued and written.\<close>

lemma sample_reply_sent:
  "\<exists>c l w. reachable (reply_stream.out_init echo_ready) (out_step interest_ctl (echo_server_call interest_ctl id 100))
    ((c, l, w), frame (lit ''a''), [lit ''a''])"
proof -
  let ?srv = "echo_server_call interest_ctl id 100" and ?s = "(sample_conn, sample_loop, sample_world)"
  let ?R = "reachable (reply_stream.out_init echo_ready) (out_step interest_ctl ?srv)"
  note replies = echo_reply_stream [OF linux_epoll.epoll_reliable_axioms, of id 100]
  have start: "?R (?s, [], [])"
    using sample_sender by (intro reachable.start) (simp add: reply_stream.out_init_def [OF replies])
  from reply_stream.sender_reply [OF replies sample_sender, of "lit ''a''"] obtain c l w
    where reply: "task_sendinloop interest_ctl (str_data (lit ''a'')) (length (lit ''a'')) ?s = Inr (c, l, w)"
      and send: "reply_stream.sender echo_ready (c, l, w)" and out: "conn_out c = frame (lit ''a'')"
    by auto
  from start out_step.reply [OF reply] have "?R ((c, l, w), [], [] @ [lit ''a''])"
    by (rule reachable.move)
  moreover obtain s' where "Connection_writecallback interest_ctl ?srv (int (length (frame (lit ''a'')))) (c, l, w) = Inr s'"
    using reply_stream.sender_write [OF replies send, of "int (length (frame (lit ''a'')))"] out by auto
  moreover obtain ev where "ep_interest (el_ep l) (ch_fd (cn_clientchannel c)) = Some (ev, ch_this (cn_clientchannel c))"
    "ev AND EPOLLOUT \<noteq> 0"
    using send conn_open_interest [of c l] out by (auto simp: reply_stream.sender_def [OF replies])
  ultimately have "?R ((c, l, w), [], [lit ''a''])"
    and "out_step interest_ctl ?srv ((c, l, w), [], [lit ''a'']) (s', frame (lit ''a''), [lit ''a''])"
    using out_step.writable [where sent = "[]" and ms = "[lit ''a'']" and c = c and l = l and w = w and s' = s'
        and n = "int (length (frame (lit ''a'')))" and ctl = interest_ctl and srv = ?srv] out
    by simp_all
  then have "?R (s', frame (lit ''a''), [lit ''a''])"
    by (rule reachable.move)
  then show ?thesis
    by (cases s') auto
qed

end
