(* ===== verification/Server_Objects.thy ===== *)
theory Server_Objects
  imports Echo_Objects Samples
begin

text \<open>
  What the invariant of the objects gives for the running server, and where it ends: inside one
  batch of events, after the events have been stored in the channels.
\<close>

subsection \<open>A server at work\<close>

text \<open>For the examples: the server after its start, and after it has accepted a connection.\<close>

definition sample_machine :: machine where
  "sample_machine =
     \<lparr>mc_ctl = interest_ctl, mc_evread = (\<lambda>_. 0), mc_evwrite = (\<lambda>n. n + 1),
      mc_inet_ntoa = (\<lambda>_. lit ''10.0.0.2''), mc_garbage = 0, mc_blank = InetAddress_new (\<lambda>_. 0) [] 0\<rparr>"

definition sample_input :: "int \<Rightarrow> io_input" where
  "sample_input fd =
     \<lparr>in_reads = [Read_eagain], in_stale = (\<lambda>_. 0), in_writen = 0, in_accept = (fd, InetAddress_new (\<lambda>_. 0) [] 0), in_now = 1000\<rparr>"

lemmas start_defs = EchoServer_new_def TcpServer_new_def TcpServer_subloop_def EchoServer_handlers_def
  EventLoop_new_def createtimerfd_def Epoll_new_def Acceptor_new_def createnonblocking_def
  Socket_new_def Socket_bind_def Socket_listen_def Let_def

lemmas start_setters = chan_op_defs channel_setter_defs Channel_new_def Epoll_updatechannel_def
  Channel_setinepoll_def EventLoop_setepolltimeoutcallback_def EventLoop_settimercallback_def
  Acceptor_setnewconnectioncb_def TcpServer_setsendcompletecb_def TcpServer_setonmessagecb_def
  TcpServer_seterrorconnectioncb_def TcpServer_setcloseconnectioncb_def TcpServer_setnewconnectioncb_def

text \<open>What is used of the server after its constructor.\<close>

definition sample_started :: "echoserver server \<Rightarrow> eventloop \<Rightarrow> bool" where
  "sample_started S l \<longleftrightarrow> sv_subloops S = [l] \<and> ep_interest (el_ep l) 20 = None \<and>
     watched (sv_mainloop S) 6 Accept_channel \<and> sv_next S = 0 \<and>
     ts_threadnum (sv_tcpserver S) = 1 \<and> ts_conns (sv_tcpserver S) = [] \<and> worker_pool S = ThreadPool_new 1 \<and>
     sv_heap S = Map.empty \<and> ch_readcallback (el_wakechannel l) = Some Cb_handlewakeup \<and> watched l 8 (Wake_channel 1) \<and>
     el_taskqueue l = [] \<and> \<not> el_locked l \<and> el_threadid l = None \<and> el_taskqueue (sv_mainloop S) = [] \<and>
     ts_onmessagecb (sv_tcpserver S) = Some Cb_HandleMessage \<and>
     ts_sendcompletecb (sv_tcpserver S) = Some Cb_HandleSendComplete \<and>
     ch_readcallback (ac_acceptchannel (sv_acceptor S)) = Some Cb_acceptor_newconnection \<and>
     ac_newconnectioncb (sv_acceptor S) = Some Cb_newconnection \<and>
     ts_newconnectioncb (sv_tcpserver S) = Some Cb_HandleNewConnection"

lemma sample_start: "\<exists>S l. echo_init sample_machine S \<and> sample_started S l"
proof -
  obtain S reqs where start: "EchoServer_new interest_ctl (\<lambda>_. 0) (mc_inet_ntoa sample_machine) 0
      (6, 0, 0) (3, 4, 5) [(7, 8, 9)] 1 (lit ''0.0.0.0'') 5005 0 = Inr (S, reqs)"
    by (simp add: start_defs start_setters)
  then have "echo_init sample_machine S"
    unfolding echo_init_def by - ((rule exI)+, simp add: sample_machine_def)
  moreover have "sample_started S (hd (sv_subloops S))"
    using start by (auto simp: start_defs start_setters sample_started_def watched_def)
  ultimately show ?thesis by blast
qed

text \<open>The connection with the number 0, on loop 1, without a byte received.\<close>

definition sample_connected :: "echoserver server \<Rightarrow> eventloop \<Rightarrow> connection \<Rightarrow> bool" where
  "sample_connected S l c \<longleftrightarrow> get_loop 1 S = Some l \<and> watched l 20 (Client_channel 0) \<and> sv_heap S 0 = Some c \<and>
     snd ` set (ts_conns (sv_tcpserver S)) = {0} \<and> dom (sv_heap S) = {0} \<and> cn_id c = 0 \<and> cn_loop c = 1 \<and>
     ch_this (cn_clientchannel c) = Client_channel 0 \<and>
     ch_readcallback (cn_clientchannel c) = Some Cb_connection_onmessage \<and>
     ch_writecallback (cn_clientchannel c) = Some Cb_connection_write \<and>
     ch_readcallback (el_wakechannel l) = Some Cb_handlewakeup \<and> watched l 8 (Wake_channel 1) \<and>
     service_idle 200 (c, l, sv_tcpserver S, sv_app S) \<and> worker_pool S = ThreadPool_new 1 \<and>
     sv_subloops S = [l] \<and> el_taskqueue (sv_mainloop S) = []"

lemma sample_accepting:
  "\<exists>S0 S1 S2 l c. echo_init sample_machine S0 \<and> worker_pool S0 = ThreadPool_new 1 \<and>
    background_step sample_machine S0 S1 \<and>
    handles sample_machine Accept_channel Cb_acceptor_newconnection (sample_input 20) S1 S2 \<and>
    sample_connected (release echo_owns S2) l c"
proof -
  obtain S l where init: "echo_init sample_machine S" and S: "sample_started S l"
    using sample_start by blast
  let ?ch = "Channel_setrevents EPOLLIN (ac_acceptchannel (sv_acceptor S))"
  let ?S = "chan_put Accept_channel ?ch S"
  have "Epoll_loop chan_deref chan_put (Wait_events [(EPOLLIN, Accept_channel)]) S = Inr ([Accept_channel], ?S)"
    by (simp add: Epoll_loop_def chan_deref_def)
  moreover have "kernel_reports (sv_mainloop S) [(EPOLLIN, Accept_channel)]"
    using S by (auto simp: kernel_reports_def sample_started_def)
  moreover have "get_loop 0 S = Some (sv_mainloop S)" by (simp add: get_loop_def)
  ultimately have one: "background_step sample_machine S ?S" by (intro background_step.wait)
  have deref: "chan_deref Accept_channel ?S = Some ?ch" by (simp add: chan_deref_def chan_put_def)
  have event: "Channel_handleevent ?ch = Inr Cb_acceptor_newconnection"
    using S by (simp add: sample_started_def Channel_handleevent_def Channel_setrevents_def call_function_def)
  obtain S2 l2 c where run: "run_callback (echo_env sample_machine) 100 (sample_input 20)
      Cb_acceptor_newconnection (owner_of Accept_channel) ?S = Some (Inr S2)"
    and S2: "sv_heap S2 = [0 \<mapsto> c]" "sv_next S2 = 1" "snd ` set (ts_conns (sv_tcpserver S2)) = {0}"
    "sv_subloops S2 = [l2]" "watched l2 20 (Client_channel 0)" "watched l2 8 (Wake_channel 1)"
    "worker_pool S2 = ThreadPool_new 1" "el_taskqueue (sv_mainloop S2) = []" "ch_readcallback (el_wakechannel l2) = Some Cb_handlewakeup"
    and c: "cn_loop c = 1" "cn_id c = 0" "ch_this (cn_clientchannel c) = Client_channel 0" "ch_readcallback (cn_clientchannel c) = Some Cb_connection_onmessage"
      "ch_writecallback (cn_clientchannel c) = Some Cb_connection_write"
    and idle: "service_idle 200 (c, l2, sv_tcpserver S2, sv_app S2)"
    using S
    by (simp add: sample_started_def chan_put_def Acceptor_newconnection_def sample_input_def Socket_accept_def Socket_setipport_def
      TcpServer_newconnection_def subloop_index_def Let_def Connection_new_def channel_setter_defs Channel_new_def
      chan_op_defs Epoll_updatechannel_def Channel_setinepoll_def echo_env_def sample_machine_def Socket_new_def
      signed_modulo_int_def set_callbacks_def connection_setter_defs Connection_fd_def call_handler_def EventLoop_newconnection_def
      watched_def Buffer_new_def service_idle_def conn_open_def chan_open_def chan_synced_def conn_ready_def conn_out_def
      out_events_def echo_ready_def ThreadPool_new_def ThreadPool_size_def)
  have two: "handles sample_machine Accept_channel Cb_acceptor_newconnection (sample_input 20) ?S S2"
    unfolding handles_def using deref event run by blast
  have own: "0 \<in> set (owners echo_owns S2)" using S2(3) by (auto simp: set_owners)
  then have "orphans echo_owns S2 = []" using S2(2) by (simp add: orphans_def)
  moreover have "Socket_close [] = id" by (simp add: Socket_close_def fun_eq_iff)
  moreover have "sv_heap S2 |` set (owners echo_owns S2) = sv_heap S2"
    using S2(1) own by (auto simp: restrict_map_def fun_eq_iff)
  ultimately have "release echo_owns S2 = S2" by (simp add: release_def Let_def)
  with S2 c idle have "sample_connected (release echo_owns S2) l2 c"
    by (simp add: sample_connected_def get_loop_def)
  with init S one two show ?thesis unfolding sample_started_def by blast
qed

lemma sample_accepted:
  "\<exists>S l. reachable (echo_init sample_machine) (echo_step sample_machine) S \<and> get_loop 1 S = Some l \<and>
    watched l 20 (Client_channel 0)"
proof -
  obtain S0 S1 S2 l c where init: "echo_init sample_machine S0" and one: "background_step sample_machine S0 S1"
    and two: "handles sample_machine Accept_channel Cb_acceptor_newconnection (sample_input 20) S1 S2"
    and S: "sample_connected (release echo_owns S2) l c"
    using sample_accepting by blast
  have "reachable (echo_init sample_machine) (echo_step sample_machine) (release echo_owns S2)"
    using echo_step.background [OF one] echo_step.handle [OF two] init by (blast intro: reachable.intros)
  with S show ?thesis unfolding sample_connected_def by blast
qed

subsection \<open>Channels and connections exist\<close>

lemma reachable_objects:
  assumes "epoll_kernel (mc_ctl mc)" and "reachable (echo_init mc) (echo_step mc) S"
  shows "objects_ok echo_owns S"
  using invariant_system.reachable_inv [OF echo_objects_invariant [OF assms(1)] assms(2)] .

text \<open>
  C4. The interest lists hold no dangling pointer. In every reachable state of the server,
  with any number of loops and workers in any interleaving of their handlers and tasks, and
  whatever the system calls return: the raw channel pointers that the kernel hands back belong to
  objects that exist, so if no other thread moves between the return of \<^verbatim>\<open>epoll_wait\<close> and the loop that stores
  the events, the events are stored and the same channels are returned in order. (Where a worker does move between
  the two, the pointer can dangle, which is the last property of \<open>Service_Accounts\<close>.)
\<close>

theorem reported_channels_exist:
  assumes "epoll_kernel (mc_ctl mc)" and "reachable (echo_init mc) (echo_step mc) S"
    and "get_loop lid S = Some l" and "kernel_reports l evs"
  shows "\<exists>S'. Epoll_loop chan_deref chan_put (Wait_events evs) S = Inr (map snd evs, S')"
proof -
  have ok: "objects_ok echo_owns S" using assms(1,2) by (rule reachable_objects)
  have "chan_deref (snd e) S \<noteq> None" if e: "e \<in> set evs" for e
  proof -
    have "\<exists>fd. watched l fd (snd e)"
      using bspec [OF assms(4) [unfolded kernel_reports_def] e] by (cases e) simp
    with ok get_loop_mem [OF assms(3)] have "\<exists>fd. entry_live S fd (snd e)"
      by (auto simp: objects_ok_def interest_live_def)
    then show ?thesis by (auto dest: entry_live_deref)
  qed
  then have "\<forall>(ev, p)\<in>set evs. chan_deref p S \<noteq> None"
    by (simp add: case_prod_unfold)
  from server_channels.collect_all_live [OF this]
  show ?thesis by (auto simp: Epoll_loop_def)
qed

lemma reported_channels_exist_witness:
  "\<exists>S l S'. get_loop 1 S = Some l \<and> watched l 20 (Client_channel 0) \<and>
    Epoll_loop chan_deref chan_put (Wait_events [(EPOLLIN, Client_channel 0)]) (S :: echoserver server) =
      Inr ([Client_channel 0], S')"
proof -
  obtain S l where S: "reachable (echo_init sample_machine) (echo_step sample_machine) S" "get_loop 1 S = Some l"
    "watched l 20 (Client_channel 0)"
    using sample_accepted by blast
  have "epoll_kernel (mc_ctl sample_machine)"
    by (simp add: sample_machine_def linux_epoll.epoll_kernel_axioms)
  from reported_channels_exist [OF this S(1,2), of "[(EPOLLIN, Client_channel 0)]"] S(2,3) show ?thesis
    by (auto simp: kernel_reports_def)
qed

text \<open>The walk of the timer, for any set of callbacks.\<close>

lemma timer_walk_no_use_after_free:
  assumes "\<forall>e\<in>set es. heap (snd e) \<noteq> None" and "\<And>fd w. callback fd w \<noteq> Inl (Undefined Use_after_free)"
  shows "timer_walk heap callback now timeout conns es w \<noteq> Inl (Undefined Use_after_free)"
  using assms
proof (induction heap callback now timeout conns es w rule: timer_walk.induct)
  case (2 heap callback now timeout conns fd cid aa w)
  then obtain c where c: "heap cid = Some c" by auto
  show ?case
  proof (cases "Connection_timeout now timeout c")
    case True
    show ?thesis
    proof (cases aa)
      case (Cons e aa')
      obtain fd' cid' where e: "e = (fd', cid')" by (cases e)
      show ?thesis
      proof (cases "callback fd' w")
        case (Inl f)
        with "2.prems"(2) [of fd' w] c True Cons e show ?thesis by (simp add: Let_def)
      next
        case (Inr w1)
        with "2.IH"(1) [OF c True refl Cons [unfolded e] refl, of w1] "2.prems" c True Cons e
        show ?thesis by (simp add: Let_def)
      qed
    qed (simp add: c True Let_def)
  next
    case False
    with "2.IH"(2) [OF c False] "2.prems" c show ?thesis by simp
  qed
qed simp

lemma handletimer_no_use_after_free:
  assumes "\<forall>e\<in>set (el_conns l). heap (snd e) \<noteq> None"
  shows "EventLoop_handletimer heap TcpServer_removeconn now l w \<noteq> Inl (Undefined Use_after_free)"
proof -
  have "call_timer f TcpServer_removeconn fd w \<noteq> Inl (Undefined Use_after_free)" for f fd and w :: "'a world"
    by (auto simp: call_timer_def TcpServer_removeconn_def split: option.splits timer_cb.splits)
  from timer_walk_no_use_after_free [OF assms this] show ?thesis
    by (simp add: EventLoop_handletimer_def Let_def bind_res_eq_Inl)
qed

text \<open>
  Everything the server still counts as its own exists: in every reachable state neither the
  timer of a loop nor a worker that runs a task comes upon a connection that has been freed.
\<close>

theorem owned_connections_exist:
  assumes "epoll_kernel (mc_ctl mc)" and "reachable (echo_init mc) (echo_step mc) S"
  shows "(\<forall>lid l inp. get_loop lid S = Some l \<longrightarrow> on_timer inp lid S \<noteq> Some (Inl (Undefined Use_after_free))) \<and>
    (\<forall>i t. at (worker_pool S) i (Running t) \<longrightarrow> sv_heap S (task_conn t) \<noteq> None)"
proof -
  have owned: "set (owners echo_owns S) \<subseteq> dom (sv_heap S)"
    using reachable_objects [OF assms] by (simp add: objects_ok_def)
  have "on_timer inp lid S \<noteq> Some (Inl (Undefined Use_after_free))" if l: "get_loop lid S = Some l" for lid l inp
  proof -
    have "\<forall>e\<in>set (el_conns l). sv_heap S (snd e) \<noteq> None"
      using owned loop_owners [OF get_loop_mem [OF l]] by blast
    then have "EventLoop_handletimer (sv_heap S) TcpServer_removeconn (in_now inp) l (sv_tcpserver S, sv_app S) \<noteq>
        Inl (Undefined Use_after_free)"
      by (rule handletimer_no_use_after_free)
    then show ?thesis by (auto simp: on_timer_def l split: sum.splits)
  qed
  moreover have "sv_heap S (task_conn t) \<noteq> None" if "at (worker_pool S) i (Running t)" for i t
  proof -
    have "Running t \<in> set (p_threads (worker_pool S))" using that by (auto simp: at_def in_set_conv_nth)
    then have "t \<in> set (pool_tasks (worker_pool S))"
      by (force simp: pool_tasks_def running_def running_task_def)
    then have "task_conn t \<in> set (owners echo_owns S)" by (simp add: set_owners echo_owns_def)
    with owned show ?thesis by blast
  qed
  ultimately show ?thesis by blast
qed

lemma owned_connections_exist_witness:
  "\<exists>S l. get_loop 1 S = Some l \<and> watched l 20 (Client_channel 0) \<and>
    on_timer (sample_input 20) 1 (S :: echoserver server) \<noteq> Some (Inl (Undefined Use_after_free))"
proof -
  obtain S l where S: "reachable (echo_init sample_machine) (echo_step sample_machine) S" "get_loop 1 S = Some l"
    "watched l 20 (Client_channel 0)"
    using sample_accepted by blast
  have "epoll_kernel (mc_ctl sample_machine)"
    by (simp add: sample_machine_def linux_epoll.epoll_kernel_axioms)
  from owned_connections_exist [OF this S(1)] S(2,3) show ?thesis by blast
qed

subsection \<open>Inside a batch of events\<close>

lemma mem_get_loop: "l \<in> set (loops S) \<Longrightarrow> \<exists>lid. get_loop lid S = Some l"
proof -
  assume "l \<in> set (loops S)"
  then consider "l = sv_mainloop S" | j where "j < length (sv_subloops S)" "l = sv_subloops S ! j"
    by (auto simp: loops_def in_set_conv_nth)
  then show ?thesis
  proof cases
    case 1
    then show ?thesis by (intro exI [of _ 0]) (simp add: get_loop_def)
  next
    case (2 j)
    then show ?thesis by (intro exI [of _ "Suc j"]) (simp add: get_loop_def)
  qed
qed

lemma erase_conns_subset:
  "set (ts_conns (fst (erase_conns fds w))) \<subseteq> set (ts_conns (fst w)) \<and> snd (erase_conns fds w) = snd w"
proof (induction fds arbitrary: w)
  case (Cons fd fds)
  have "set (ts_conns (fst (erase_conn fd w))) \<subseteq> set (ts_conns (fst w)) \<and> snd (erase_conn fd w) = snd w"
    using om_erase_subset by (simp add: erase_conn_def)
  with Cons [of "erase_conn fd w"] show ?case by auto
qed simp

text \<open>
  C25. The timer can free a connection whose event has already been reported. Where the timer of
  a loop rings in the same batch as an event of a connection, and the timer drops the last
  reference to that connection, the loop goes on to the channel of the freed object.
\<close>

theorem timer_frees_reported_connection:
  assumes l: "get_loop lid S = Some l" "\<not> el_mainloop l" "el_timercallback l = Some Cb_removeconn"
      "om_ok (el_conns l)" "\<forall>e\<in>set (el_conns l). sv_heap S (snd e) \<noteq> None"
    and rings: "Channel_handleevent (el_timerchannel l) = Inr Cb_handletimer"
    and idle: "even (trailing (expired (sv_heap S) (in_now inp) (el_timeout l)) (el_conns l))"
      "(fd, cid) \<in> set (erased (expired (sv_heap S) (in_now inp) (el_timeout l)) (el_conns l))"
    and last: "cid \<notin> snd ` set (ts_conns (sv_tcpserver S))" "cid \<notin> set (env_owns env (sv_app S))"
      "\<forall>lid' l' fd'. get_loop lid' S = Some l' \<longrightarrow> (fd', cid) \<in> set (el_conns l') \<longrightarrow> lid' = lid \<and> fd' = fd"
  shows "run_channels env tid ((Timer_channel lid, inp) # (Client_channel cid, inp') # ps) S =
    Some (Inl (Undefined Use_after_free))"
proof -
  let ?P = "expired (sv_heap S) (in_now inp) (el_timeout l)"
  let ?w = "erase_conns (map fst (passed ?P (el_conns l))) (sv_tcpserver S, sv_app S)"
  define l' where "l' = l\<lparr>el_timerset := el_timetvl l,
    el_conns := filter (\<lambda>e. e \<notin> set (erased ?P (el_conns l))) (el_conns l)\<rparr>"
  define S' where "S' = set_loop lid l' (S\<lparr>sv_tcpserver := fst ?w, sv_app := sv_app S\<rparr>)"
  have "EventLoop_handletimer (sv_heap S) TcpServer_removeconn (in_now inp) l (sv_tcpserver S, sv_app S) =
      Inr (l', fst ?w, sv_app S)"
    using handletimer_registry [OF l(2,3,5,4), of "in_now inp" "(sv_tcpserver S, sv_app S)"] idle(1)
      erase_conns_subset [of _ "(sv_tcpserver S, sv_app S)"]
    by (simp add: l'_def Let_def prod_eq_iff)
  then have timer: "on_timer inp lid S = Some (Inr S')"
    by (simp add: on_timer_def l(1) S'_def)
  have "(fd', cid) \<notin> set (el_conns l1)" if in_loops: "l1 \<in> set (loops S')" for fd' l1
  proof
    assume mem: "(fd', cid) \<in> set (el_conns l1)"
    obtain lid' where lid': "get_loop lid' S' = Some l1" using mem_get_loop [OF in_loops] by blast
    have get: "get_loop k (S\<lparr>sv_tcpserver := ts\<rparr>) = get_loop k S" for k ts
      by (simp add: get_loop_def split: nat.splits)
    show False
    proof (cases "lid' = lid")
      case True
      with lid' have "l1 = l'" using l(1) by (simp add: S'_def get)
      with mem have "(fd', cid) \<in> set (el_conns l)" and "(fd', cid) \<notin> set (erased ?P (el_conns l))"
        by (auto simp: l'_def)
      with last(3) l(1) idle(2) show False by blast
    next
      case False
      with lid' have "get_loop lid' S = Some l1" using l(1) by (simp add: S'_def get)
      with last(3) mem False show False by blast
    qed
  qed
  moreover have "cid \<notin> snd ` set (ts_conns (fst ?w))"
    using last(1) erase_conns_subset [of "map fst (passed ?P (el_conns l))" "(sv_tcpserver S, sv_app S)"] by auto
  ultimately have "cid \<notin> set (owners (env_owns env) S')"
    using last(2) by (force simp: set_owners S'_def)
  then have "chan_deref (Client_channel cid) (release (env_owns env) S') = None"
    by (simp add: chan_deref_def release_def Let_def)
  then show ?thesis
    using timer rings l(1) by (simp add: chan_deref_def [of "Timer_channel lid"])
qed

text \<open>Two idle connections of one loop; the server has forgotten the first one already.\<close>

lemma timer_frees_reported_connection_witness:
  "let inp = sample_input 20;
     S = sample_server\<lparr>sv_tcpserver := sample_tcpserver\<lparr>ts_conns := [(8, 1)]\<rparr>,
       sv_heap := [0 \<mapsto> sample_conn, 1 \<mapsto> sample_conn],
       sv_subloops := [sample_loop\<lparr>el_conns := [(7, 0), (8, 1)],
         el_timerchannel := Channel_setrevents EPOLLIN (Channel_setreadcallback Cb_handletimer
           (Channel_new (Timer_channel 1) (Some 1) 6))\<rparr>],
       sv_mainloop := sample_loop\<lparr>el_conns := []\<rparr>\<rparr> in
   run_channels (echo_env sample_machine) 100 [(Timer_channel 1, inp), (Client_channel 0, inp)] S =
     Some (Inl (Undefined Use_after_free))"
  unfolding Let_def
  by (rule timer_frees_reported_connection [where fd = 7])
    (auto simp: get_loop_def sample_server_def sample_loop_def om_ok_def sample_input_def Channel_handleevent_def Channel_new_def
      Channel_setrevents_def Channel_setreadcallback_def call_function_def expired_def Connection_timeout_def
      sample_conn_def trailing_def echo_env_def echo_owns_def pool_tasks_def sample_world_def ThreadPool_new_def
      running_def running_task_def numeral_2_eq_2 split: nat.splits if_splits)

end
