(* ===== verification/Loop_Wakeup.thy ===== *)
theory Loop_Wakeup
  imports Samples
begin

text \<open>
  The wake-up of an event loop by other threads: a producer (a worker that replies) pushes a task
  under the mutex and writes to the eventfd after it has released the mutex; the thread of the loop
  sleeps in \<^verbatim>\<open>epoll_wait\<close> until the eventfd is readable, reads it, locks the mutex and runs tasks
  until the queue is empty. These moves of the threads interleave in any order.
\<close>

subsection \<open>The eventfd\<close>

text \<open>
  eventfd(2): a write adds to the counter and leaves it positive, also where the write fails
  because the counter is at its maximum; a read takes all of it. The file is readable, for a
  level-triggered epoll, as long as the counter is positive.
\<close>

locale eventfd =
  fixes evread evwrite :: "u64 \<Rightarrow> u64"
  assumes write_positive: "evwrite n \<noteq> 0"
    and read_takes_all: "evread n = 0"

definition eventfd_write :: "u64 \<Rightarrow> u64" where
  "eventfd_write n = (if n = 0xFFFFFFFFFFFFFFFE \<or> n = 0xFFFFFFFFFFFFFFFF then n else n + 1)"

interpretation linux_eventfd: eventfd "\<lambda>_. 0" eventfd_write
proof
  show "eventfd_write n \<noteq> 0" for n
  proof (cases "n + 1 = 0")
    case True
    then have "n = - 1" by (simp add: eq_neg_iff_add_eq_0)
    then show ?thesis by (simp add: eventfd_write_def)
  next
    case False
    then show ?thesis by (auto simp: eventfd_write_def)
  qed
qed simp

subsection \<open>The threads\<close>

datatype loop_state =
    In_wait       \<comment> \<open>in \<^verbatim>\<open>epoll_wait\<close>, or in a handler that does not touch the queue\<close>
  | At_read       \<comment> \<open>in \<^verbatim>\<open>handlewakeup\<close>, about to read the eventfd\<close>
  | At_loop_lock  \<comment> \<open>about to lock the mutex\<close>
  | In_tasks      \<comment> \<open>holds the mutex, in the loop over the queue\<close>

text \<open>
  \<open>wk_pending\<close> counts the producers that have pushed and not yet written; \<open>wk_submitted\<close> and
  \<open>wk_executed\<close> record the history.
\<close>

record wakeup =
  wk_loop :: eventloop
  wk_heap :: heap
  wk_at :: loop_state
  wk_pending :: nat
  wk_submitted :: "task list"
  wk_executed :: "task list"

definition push_task :: "task \<Rightarrow> eventloop \<Rightarrow> eventloop" where
  "push_task t l = l\<lparr>el_taskqueue := el_taskqueue l @ [t]\<rparr>"

lemma queueinloop_push: "EventLoop_queueinloop evwrite t l = EventLoop_wakeup evwrite (push_task t l)"
  by (simp add: EventLoop_queueinloop_def push_task_def)

inductive producer_step :: "(u64 \<Rightarrow> u64) \<Rightarrow> wakeup \<Rightarrow> wakeup \<Rightarrow> bool" for evwrite where
  push: "\<not> el_locked (wk_loop s) \<Longrightarrow>
    producer_step evwrite s (s\<lparr>wk_loop := push_task t (wk_loop s), wk_pending := Suc (wk_pending s),
      wk_submitted := wk_submitted s @ [t]\<rparr>)"

inductive loop_step :: "epoll_ctl \<Rightarrow> (u64 \<Rightarrow> u64) \<Rightarrow> (u64 \<Rightarrow> u64) \<Rightarrow> wakeup \<Rightarrow> wakeup \<Rightarrow> bool"
  for ctl evread evwrite where
  wakeup: "wk_pending s = Suc n \<Longrightarrow>
    loop_step ctl evread evwrite s (s\<lparr>wk_loop := EventLoop_wakeup evwrite (wk_loop s), wk_pending := n\<rparr>)"
| readable: "wk_at s = In_wait \<Longrightarrow> el_wakecount (wk_loop s) \<noteq> 0 \<Longrightarrow>
    loop_step ctl evread evwrite s (s\<lparr>wk_at := At_read\<rparr>)"
| read: "wk_at s = At_read \<Longrightarrow>
    loop_step ctl evread evwrite s (s\<lparr>wk_at := At_loop_lock,
      wk_loop := (wk_loop s)\<lparr>el_wakecount := evread (el_wakecount (wk_loop s))\<rparr>\<rparr>)"
| lock: "wk_at s = At_loop_lock \<Longrightarrow> \<not> el_locked (wk_loop s) \<Longrightarrow>
    loop_step ctl evread evwrite s (s\<lparr>wk_at := In_tasks, wk_loop := (wk_loop s)\<lparr>el_locked := True\<rparr>\<rparr>)"
| run: "wk_at s = In_tasks \<Longrightarrow> el_taskqueue (wk_loop s) = t # q \<Longrightarrow>
    loop_exec ctl t ((wk_loop s)\<lparr>el_taskqueue := q\<rparr>, wk_heap s) = Inr (l, h) \<Longrightarrow>
    loop_step ctl evread evwrite s (s\<lparr>wk_loop := l, wk_heap := h, wk_executed := wk_executed s @ [t]\<rparr>)"
| unlock: "wk_at s = In_tasks \<Longrightarrow> el_taskqueue (wk_loop s) = [] \<Longrightarrow>
    loop_step ctl evread evwrite s (s\<lparr>wk_at := In_wait, wk_loop := (wk_loop s)\<lparr>el_locked := False\<rparr>\<rparr>)"

definition wakeup_step :: "epoll_ctl \<Rightarrow> (u64 \<Rightarrow> u64) \<Rightarrow> (u64 \<Rightarrow> u64) \<Rightarrow> wakeup \<Rightarrow> wakeup \<Rightarrow> bool" where
  "wakeup_step ctl evread evwrite s s' \<longleftrightarrow>
     producer_step evwrite s s' \<or> loop_step ctl evread evwrite s s'"

definition wakeup_init :: "wakeup \<Rightarrow> bool" where
  "wakeup_init s \<longleftrightarrow> el_taskqueue (wk_loop s) = [] \<and> \<not> el_locked (wk_loop s) \<and> wk_at s = In_wait \<and>
     wk_pending s = 0 \<and> wk_submitted s = [] \<and> wk_executed s = []"

inductive_cases producer_step_cases: "producer_step evwrite s s'"
inductive_cases loop_step_cases: "loop_step ctl evread evwrite s s'"

subsection \<open>The invariant\<close>

definition wakeup_inv :: "wakeup \<Rightarrow> bool" where
  "wakeup_inv s \<longleftrightarrow>
     (el_locked (wk_loop s) \<longleftrightarrow> wk_at s = In_tasks) \<and>
     (wk_at s = At_read \<longrightarrow> el_wakecount (wk_loop s) \<noteq> 0) \<and>
     wk_executed s @ el_taskqueue (wk_loop s) = wk_submitted s \<and>
     (el_taskqueue (wk_loop s) \<noteq> [] \<longrightarrow>
        0 < wk_pending s \<or> el_wakecount (wk_loop s) \<noteq> 0 \<or> wk_at s \<noteq> In_wait)"

text \<open>A task changes neither the queue nor the mutex nor the counter.\<close>

lemma loop_exec_frame:
  assumes "loop_exec ctl t (l, h) = Inr (l', h')"
  shows "el_taskqueue l' = el_taskqueue l \<and> el_locked l' = el_locked l \<and> el_wakecount l' = el_wakecount l"
  using assms
  by (cases t)
    (auto simp: task_sendinloop_def Connection_sendinloop_def bind_res_eq_Inr on_channel_def split: option.splits)

context eventfd
begin

lemma wakeup_step_inv:
  assumes "wakeup_inv s" and "wakeup_step ctl evread evwrite s s'"
  shows "wakeup_inv s'"
  using assms(2) unfolding wakeup_step_def
proof
  assume "producer_step evwrite s s'"
  with assms(1) show ?thesis
    by (cases rule: producer_step_cases) (auto simp: wakeup_inv_def push_task_def)
next
  assume "loop_step ctl evread evwrite s s'"
  then show ?thesis
    using assms(1)
    by (cases rule: loop_step_cases)
      (auto simp: wakeup_inv_def EventLoop_wakeup_def write_positive dest: loop_exec_frame)
qed

lemma wakeup_invariant: "invariant_system wakeup_init (wakeup_step ctl evread evwrite) wakeup_inv"
proof
  show "wakeup_inv s" if "wakeup_init s" for s
    using that by (auto simp: wakeup_init_def wakeup_inv_def)
qed (rule wakeup_step_inv)

end

text \<open>
  Without new tasks the loop comes to rest: the work that is left, counting a write as a whole
  round of the loop.
\<close>

fun phase :: "loop_state \<Rightarrow> nat" where
  "phase In_wait = 3" | "phase At_read = 2" | "phase At_loop_lock = 5" | "phase In_tasks = 4"

definition work_left :: "wakeup \<Rightarrow> nat" where
  "work_left s = 5 * wk_pending s + length (el_taskqueue (wk_loop s)) +
     (if el_wakecount (wk_loop s) = 0 then 0 else 4) + phase (wk_at s)"

context eventfd
begin

lemma loop_step_decreases:
  assumes "loop_step ctl evread evwrite s s'" and "wakeup_inv s"
  shows "work_left s' < work_left s"
  using assms
  by (cases rule: loop_step_cases)
    (auto simp: work_left_def EventLoop_wakeup_def wakeup_inv_def read_takes_all write_positive dest!: loop_exec_frame)

lemma loop_steps_bound:
  "((loop_step ctl evread evwrite) ^^ n) s s' \<Longrightarrow> wakeup_inv s \<Longrightarrow>
    wakeup_inv s' \<and> n + work_left s' \<le> work_left s \<and> wk_submitted s' = wk_submitted s"
proof (induction n arbitrary: s')
  case (Suc n)
  then obtain s1 where run: "((loop_step ctl evread evwrite) ^^ n) s s1" and step: "loop_step ctl evread evwrite s1 s'"
    by auto
  have "wk_submitted s' = wk_submitted s1" using step by (cases rule: loop_step_cases) auto
  moreover note Suc.IH [OF run Suc.prems(2)]
  moreover from this have "work_left s' < work_left s1" and "wakeup_inv s'"
    using loop_step_decreases [OF step] wakeup_step_inv [of s1 ctl s'] step by (auto simp: wakeup_step_def)
  ultimately show ?case by simp
qed simp

text \<open>Where it comes to rest: everything has been run, or the task at hand ended the process.\<close>

lemma at_rest:
  assumes inv: "wakeup_inv s" and rest: "\<not> (\<exists>s'. loop_step ctl evread evwrite s s')"
  shows "(wk_at s = In_wait \<and> el_taskqueue (wk_loop s) = [] \<and> wk_executed s = wk_submitted s) \<or>
    (\<exists>t q e. el_taskqueue (wk_loop s) = t # q \<and>
      loop_exec ctl t ((wk_loop s)\<lparr>el_taskqueue := q\<rparr>, wk_heap s) = Inl e)"
proof (cases "wk_at s")
  case In_wait
  have "wk_pending s = 0"
    using rest loop_step.wakeup [of s "wk_pending s - 1"] by (cases "wk_pending s") auto
  moreover have "el_wakecount (wk_loop s) = 0"
    using rest In_wait loop_step.readable by blast
  ultimately show ?thesis using inv In_wait by (auto simp: wakeup_inv_def)
next
  case At_read
  with rest show ?thesis using loop_step.read by blast
next
  case At_loop_lock
  then have "\<not> el_locked (wk_loop s)" using inv by (simp add: wakeup_inv_def)
  with At_loop_lock rest show ?thesis using loop_step.lock by blast
next
  case In_tasks
  then obtain t q where q: "el_taskqueue (wk_loop s) = t # q"
    using rest loop_step.unlock by (cases "el_taskqueue (wk_loop s)") blast+
  show ?thesis
  proof (cases "loop_exec ctl t ((wk_loop s)\<lparr>el_taskqueue := q\<rparr>, wk_heap s)")
    case (Inr r)
    then have "loop_exec ctl t ((wk_loop s)\<lparr>el_taskqueue := q\<rparr>, wk_heap s) = Inr (fst r, snd r)" by simp
    from loop_step.run [OF In_tasks q this] rest show ?thesis by blast
  qed (use q in blast)
qed

end

subsection \<open>Properties\<close>

text \<open>
  C22. No reply is forgotten. However the pushes and the writes of any number of producers interleave
  with the loop's reads and runs: tasks are run in the order in which they were pushed, each once,
  and while one is queued the thread of the loop is on its way to it, or the eventfd is readable, or
  the write to it is still to come.
\<close>

theorem wakeup_not_lost:
  assumes "eventfd evread evwrite" and "reachable wakeup_init (wakeup_step ctl evread evwrite) s"
  shows "wk_executed s @ el_taskqueue (wk_loop s) = wk_submitted s \<and>
    (el_taskqueue (wk_loop s) \<noteq> [] \<longrightarrow>
       wk_at s \<noteq> In_wait \<or> el_wakecount (wk_loop s) \<noteq> 0 \<or> 0 < wk_pending s)"
  using invariant_system.reachable_inv [OF eventfd.wakeup_invariant [OF assms(1)] assms(2)]
  by (auto simp: wakeup_inv_def)

text \<open>A worker has pushed its reply and not yet written to the eventfd.\<close>

definition sample_wakeup :: wakeup where
  "sample_wakeup =
     \<lparr>wk_loop = push_task (reply_task (0, lit ''a'')) sample_loop, wk_heap = [0 \<mapsto> sample_conn], wk_at = In_wait,
      wk_pending = 1, wk_submitted = [reply_task (0, lit ''a'')], wk_executed = []\<rparr>"

lemma sample_wakeup_reachable:
  "reachable wakeup_init (wakeup_step interest_ctl (\<lambda>_. 0) eventfd_write) sample_wakeup"
proof -
  let ?s = "sample_wakeup\<lparr>wk_loop := sample_loop, wk_pending := 0, wk_submitted := []\<rparr>"
  have "wakeup_init ?s" by (simp add: wakeup_init_def sample_wakeup_def)
  moreover have "producer_step eventfd_write ?s sample_wakeup"
    using producer_step.push [of ?s eventfd_write "reply_task (0, lit ''a'')"] by (simp add: sample_wakeup_def)
  ultimately show ?thesis by (auto intro: reachable.intros simp: wakeup_step_def)
qed

lemma wakeup_not_lost_witness:
  "wk_executed sample_wakeup @ el_taskqueue (wk_loop sample_wakeup) = wk_submitted sample_wakeup \<and>
    wk_at sample_wakeup = In_wait \<and> 0 < wk_pending sample_wakeup"
  using wakeup_not_lost [OF linux_eventfd.eventfd_axioms sample_wakeup_reachable, THEN conjunct1]
  by (intro conjI) (simp_all add: sample_wakeup_def)

text \<open>
  C11. The loop catches up. From every reachable state, when no more tasks are pushed, every run of
  the remaining moves, in any order, has at most \<open>work_left\<close> steps; and where no move is left, all
  tasks that were ever pushed have been run and the loop waits, unless the task at hand has ended
  the process.
\<close>

theorem queued_tasks_are_run:
  assumes "eventfd evread evwrite" and "reachable wakeup_init (wakeup_step ctl evread evwrite) s"
    and "((loop_step ctl evread evwrite) ^^ n) s s'"
  shows "n \<le> work_left s \<and>
    ((\<exists>s''. loop_step ctl evread evwrite s' s'') \<or>
     wk_at s' = In_wait \<and> el_taskqueue (wk_loop s') = [] \<and> wk_executed s' = wk_submitted s \<or>
     (\<exists>t q e. el_taskqueue (wk_loop s') = t # q \<and>
        loop_exec ctl t ((wk_loop s')\<lparr>el_taskqueue := q\<rparr>, wk_heap s') = Inl e))"
proof -
  have "wakeup_inv s"
    using invariant_system.reachable_inv [OF eventfd.wakeup_invariant [OF assms(1)] assms(2)] .
  from eventfd.loop_steps_bound [OF assms(1,3) this]
  have "wakeup_inv s'" "n \<le> work_left s" "wk_submitted s' = wk_submitted s" by auto
  with eventfd.at_rest [OF assms(1), of s' ctl] show ?thesis by metis
qed

lemma queued_tasks_are_run_witness:
  "\<exists>s'. loop_step interest_ctl (\<lambda>_. 0) eventfd_write sample_wakeup s' \<and> 1 \<le> work_left sample_wakeup"
proof -
  let ?s = "sample_wakeup\<lparr>wk_loop := EventLoop_wakeup eventfd_write (wk_loop sample_wakeup), wk_pending := 0\<rparr>"
  have step: "loop_step interest_ctl (\<lambda>_. 0) eventfd_write sample_wakeup ?s"
    by (rule loop_step.wakeup) (simp add: sample_wakeup_def)
  then have "((loop_step interest_ctl (\<lambda>_. 0) eventfd_write) ^^ 1) sample_wakeup ?s" by (simp add: eq_OO)
  from queued_tasks_are_run [OF linux_eventfd.eventfd_axioms sample_wakeup_reachable this] step
  show ?thesis by blast
qed

end
