(* ===== verification/Loop_Stop.thy ===== *)
theory Loop_Stop
  imports Server_Objects Loop_Wakeup
begin

text \<open>
  \<^verbatim>\<open>EventLoop::stop\<close> and the loop of \<^verbatim>\<open>EventLoop::run\<close>: only \<^verbatim>\<open>stop\<close> sets the flag \<^verbatim>\<open>stop_\<close>, no
  handler changes it, and the loop leaves after the turn in which it has been set.
\<close>

subsection \<open>No handler touches the flags\<close>

definition stop_flags :: "'x server \<Rightarrow> bool list" where
  "stop_flags S = map el_stop (loops S)"

lemma stop_flags_get: "get_loop lid S = Some l \<Longrightarrow> lid < length (stop_flags S) \<and> stop_flags S ! lid = el_stop l"
  by (simp add: stop_flags_def get_loop_nth)

lemma stop_flags_set: "stop_flags (set_loop lid l S) = (stop_flags S)[lid := el_stop l]"
  by (simp add: stop_flags_def loops_set_loop map_update)

lemma stop_flags_keep:
  "get_loop lid S = Some l \<Longrightarrow> el_stop l' = el_stop l \<Longrightarrow> stop_flags (set_loop lid l' S) = stop_flags S"
  by (simp add: stop_flags_set list_update_same_conv stop_flags_get)

lemma stop_flags_fields [simp]:
  "stop_flags (S\<lparr>sv_heap := h\<rparr>) = stop_flags S"
  "stop_flags (S\<lparr>sv_tcpserver := ts\<rparr>) = stop_flags S"
  "stop_flags (S\<lparr>sv_acceptor := a\<rparr>) = stop_flags S"
  "stop_flags (S\<lparr>sv_next := n\<rparr>) = stop_flags S"
  "stop_flags (S\<lparr>sv_app := x\<rparr>) = stop_flags S"
  by (simp_all add: stop_flags_def loops_def)

lemma on_connection_flags:
  assumes "\<And>s s'. f s = Some (Inr s') \<Longrightarrow> safe_step app_owns s s'" and "on_connection f cid S = Some (Inr S')"
  shows "stop_flags S' = stop_flags S"
proof -
  obtain c l c' l' ts x where l: "get_loop (cn_loop c) S = Some l"
    and call: "f (c, l, sv_tcpserver S, sv_app S) = Some (Inr (c', l', ts, x))"
    and S': "S' = set_loop (cn_loop c) l' (S\<lparr>sv_heap := (sv_heap S)(cid \<mapsto> c'), sv_tcpserver := ts, sv_app := x\<rparr>)"
    using assms(2) by (auto simp: on_connection_def split: option.splits sum.splits)
  from assms(1) [OF call] have "el_stop l' = el_stop l" by (simp add: safe_step_def conn_step_def)
  with l show ?thesis unfolding S' by (subst stop_flags_keep) auto
qed

lemma on_timer_flags:
  assumes "on_timer inp lid S = Some (Inr S')"
  shows "stop_flags S' = stop_flags S"
proof -
  obtain l l' ts x where l: "get_loop lid S = Some l"
    and timer: "EventLoop_handletimer (sv_heap S) TcpServer_removeconn (in_now inp) l (sv_tcpserver S, sv_app S) =
      Inr (l', ts, x)"
    and S': "S' = set_loop lid l' (S\<lparr>sv_tcpserver := ts, sv_app := x\<rparr>)"
    using assms by (auto simp: on_timer_def split: option.splits sum.splits)
  have "el_stop l' = el_stop l"
    using timer by (auto simp: EventLoop_handletimer_def Let_def bind_res_eq_Inr split: if_splits)
  with l show ?thesis unfolding S' by (subst stop_flags_keep) auto
qed

context epoll_kernel
begin

lemma on_wakeup_flags:
  assumes "env_ctl env = ctl" and "on_wakeup env lid S = Some (Inr S')"
  shows "stop_flags S' = stop_flags S"
proof -
  obtain l l' h where l: "get_loop lid S = Some l"
    and wake: "EventLoop_handlewakeup (env_evread env) (loop_exec ctl) (l, sv_heap S) = Some (Inr (l', h))"
    and S': "S' = set_loop lid l' (S\<lparr>sv_heap := h\<rparr>)"
    using assms by (auto simp: on_wakeup_def split: option.splits sum.splits)
  have "el_stop l' = el_stop l" using handlewakeup_step [OF wake] by (simp add: tasks_step_def)
  with l show ?thesis unfolding S' by (subst stop_flags_keep) auto
qed

end

context safe_app
begin

lemma newconnection_flags:
  assumes "TcpServer_newconnection ctl now app sock S = Inr S'"
  shows "stop_flags S' = stop_flags S"
  using assms
proof (rule newconnection_effect)
  fix i l' c' ts x
  assume i: "i < length (sv_subloops S)" and stop: "el_stop l' = el_stop (sv_subloops S ! i)"
    and S': "S' = S\<lparr>sv_subloops := (sv_subloops S)[i := l'], sv_tcpserver := ts,
      sv_heap := (sv_heap S)(sv_next S \<mapsto> c'), sv_next := Suc (sv_next S), sv_app := x\<rparr>"
  have "map el_stop ((sv_subloops S)[i := l']) = map el_stop (sv_subloops S)"
    using i stop by (simp add: map_update list_update_same_conv)
  then show ?thesis by (simp add: S' stop_flags_def loops_def)
qed

end

lemma run_callback_flags:
  assumes env: "env_ok env" and run: "run_callback env tid inp cb n S = Some (Inr S')"
  shows "stop_flags S' = stop_flags S"
proof -
  have app: "safe_app (env_ctl env) (env_app env tid) (env_owns env)"
    using env by (simp add: env_ok_def)
  show ?thesis
  proof (cases cb)
    case Cb_acceptor_newconnection
    then obtain sock where
      "TcpServer_newconnection (env_ctl env) (in_now inp) (env_app env tid) sock S = Inr S'"
      using run by (auto simp: Acceptor_newconnection_def split: prod.splits option.splits newconnection_cb.splits)
    with app show ?thesis by (rule safe_app.newconnection_flags)
  next
    case Cb_handlewakeup
    with run epoll_kernel.on_wakeup_flags [OF safe_app.axioms(1) [OF app]] show ?thesis by fastforce
  next
    case Cb_handletimer
    with run show ?thesis by (auto intro: on_timer_flags)
  next
    case Cb_connection_onmessage
    show ?thesis
      by (rule on_connection_flags [OF _ run [unfolded Cb_connection_onmessage run_callback.simps]])
        (auto intro: safe_app.onmessage_safe [OF app])
  next
    case Cb_connection_close
    show ?thesis
      by (rule on_connection_flags [OF _ run [unfolded Cb_connection_close run_callback.simps]])
        (auto intro: safe_app.closecallback_safe [OF app])
  next
    case Cb_connection_error
    show ?thesis
      by (rule on_connection_flags [OF _ run [unfolded Cb_connection_error run_callback.simps]])
        (auto intro: safe_app.errorcallback_safe [OF app])
  next
    case Cb_connection_write
    show ?thesis
      by (rule on_connection_flags [OF _ run [unfolded Cb_connection_write run_callback.simps]])
        (auto intro: safe_app.writecallback_safe [OF app])
  qed
qed

lemma release_flags [simp]: "stop_flags (release app_owns S) = stop_flags S"
  by (simp add: release_def Let_def stop_flags_def loops_def Socket_close_def comp_def)

lemma run_channels_flags:
  assumes "env_ok env"
  shows "run_channels env tid ps S = Some (Inr S') \<Longrightarrow> stop_flags S' = stop_flags S"
proof (induction ps arbitrary: S)
  case (Cons q ps)
  obtain p inp where q: "q = (p, inp)" by (cases q)
  obtain cb S1 where "run_callback env tid inp cb (owner_of p) S = Some (Inr S1)"
    and rest: "run_channels env tid ps (release (env_owns env) S1) = Some (Inr S')"
    using Cons.prems by (auto simp: q split: option.splits sum.splits)
  then show ?case using Cons.IH [OF rest] run_callback_flags [OF assms] by simp
qed simp

text \<open>Storing the reported events.\<close>

lemma chan_put_flags [simp]: "stop_flags (chan_put p ch S) = stop_flags S"
  by (auto simp: chan_put_def stop_flags_keep split: chan_ptr.splits option.splits)

lemma collect_flags:
  "Epoll_collect chan_deref chan_put evs S = Inr (ps, S') \<Longrightarrow> stop_flags S' = stop_flags S"
proof (induction evs arbitrary: S ps)
  case (Cons e evs)
  then show ?case by (cases e) (auto simp: bind_res_eq_Inr split: option.splits)
qed simp

lemma Epoll_loop_flags:
  "Epoll_loop chan_deref chan_put r S = Inr (ps, S') \<Longrightarrow> stop_flags S' = stop_flags S"
  by (auto simp: Epoll_loop_def dest: collect_flags split: wait_result.splits if_splits)

subsection \<open>The loop ends\<close>

lemma EventLoop_turn_flags:
  assumes "env_ok env" and "\<And>h l w l' w'. env_timeout env h (l, w) = Inr (l', w') \<Longrightarrow> el_stop l' = el_stop l"
    and "EventLoop_turn env lid tid turn S = Some (Inr S')"
  shows "stop_flags S' = stop_flags S"
proof -
  obtain l ps S1 where l: "get_loop lid S = Some l" and wait: "Epoll_loop chan_deref chan_put (fst turn) S = Inr (ps, S1)"
    using assms(3) by (auto simp: EventLoop_turn_def split: option.splits sum.splits)
  have S1: "stop_flags S1 = stop_flags S" using wait by (rule Epoll_loop_flags)
  show ?thesis
  proof (cases "ps = []")
    case True
    then obtain l' ts x where t: "TcpServer_epolltimeout (env_timeout env) (l, sv_tcpserver S1, sv_app S1) = Inr (l', ts, x)"
      and S': "S' = set_loop lid l' (S1\<lparr>sv_tcpserver := ts, sv_app := x\<rparr>)"
      using assms(3) l wait by (auto simp: EventLoop_turn_def split: option.splits sum.splits epolltimeout_cb.splits)
    have "el_stop l' = el_stop l"
      using t assms(2) by (auto simp: TcpServer_epolltimeout_def split: option.splits)
    with l S1 have "(stop_flags S)[lid := el_stop l'] = stop_flags S"
      by (simp add: list_update_same_conv stop_flags_get)
    then show ?thesis by (simp add: S' stop_flags_set S1)
  next
    case False
    with assms(3) l wait
    have "run_channels env tid (zip ps (map (snd turn) [0..<length ps])) S1 = Some (Inr S')"
      by (simp add: EventLoop_turn_def)
    with S1 run_channels_flags [OF assms(1)] show ?thesis by metis
  qed
qed

lemma EventLoop_cycle_stopped:
  "lid < length (stop_flags S) \<Longrightarrow> stop_flags S ! lid \<Longrightarrow> EventLoop_cycle env lid tid turns S = Some (Inr S)"
  by (simp add: EventLoop_cycle.simps [of env] stop_flags_def get_loop_nth split: option.splits)

text \<open>
  C17. A stopped loop ends. When \<^verbatim>\<open>EventLoop::stop\<close> is called while the thread of a loop waits in
  \<^verbatim>\<open>epoll_wait\<close>, the eventfd is readable afterwards, so that the wait returns; and whatever the kernel
  then reports, and whatever the handlers of the echo server do with it, if they return then \<^verbatim>\<open>run\<close>
  leaves the loop after this turn, and no other loop has been stopped or started by it.
\<close>

theorem stopped_loop_ends:
  assumes "epoll_kernel (mc_ctl mc)" and "eventfd evread (mc_evwrite mc)" and "get_loop lid S = Some l"
    and "EventLoop_turn (echo_env mc) lid tid turn (set_loop lid (EventLoop_stop (mc_evwrite mc) l) S) = Some (Inr S')"
  shows "el_wakecount (EventLoop_stop (mc_evwrite mc) l) \<noteq> 0 \<and>
    EventLoop_cycle (echo_env mc) lid tid turns S' = Some (Inr S') \<and>
    stop_flags S' = (stop_flags S)[lid := True]"
proof -
  have "stop_flags S' = stop_flags (set_loop lid (EventLoop_stop (mc_evwrite mc) l) S)"
    using echo_env_ok [OF assms(1)] _ assms(4)
    by (rule EventLoop_turn_flags) (simp add: echo_env_def)
  then have flags: "stop_flags S' = (stop_flags S)[lid := True]"
    by (simp add: stop_flags_set EventLoop_stop_def EventLoop_wakeup_def)
  moreover have "lid < length (stop_flags S)" using stop_flags_get [OF assms(3)] by simp
  ultimately have "EventLoop_cycle (echo_env mc) lid tid turns S' = Some (Inr S')"
    by (intro EventLoop_cycle_stopped) simp_all
  with flags eventfd.write_positive [OF assms(2)] show ?thesis
    by (simp add: EventLoop_stop_def EventLoop_wakeup_def)
qed

text \<open>The loop of the sample server is woken by \<^verbatim>\<open>stop\<close>.\<close>

lemma stopped_loop_ends_witness:
  "\<exists>l S'. get_loop 1 sample_waiting = Some l \<and>
    EventLoop_turn (echo_env (sample_machine\<lparr>mc_evwrite := eventfd_write\<rparr>)) 1 100
      (Wait_events [(EPOLLIN, Wake_channel 1)], \<lambda>_. sample_input 20)
      (set_loop 1 (EventLoop_stop eventfd_write l) sample_waiting) = Some (Inr S') \<and>
    EventLoop_cycle (echo_env (sample_machine\<lparr>mc_evwrite := eventfd_write\<rparr>)) 1 100 [] S' = Some (Inr S') \<and>
    stop_flags S' = (stop_flags sample_waiting)[1 := True]"
proof -
  let ?mc = "sample_machine\<lparr>mc_evwrite := eventfd_write\<rparr>"
  let ?turn = "(Wait_events [(EPOLLIN, Wake_channel 1)], \<lambda>_::nat. sample_input 20)"
  obtain l where l: "get_loop 1 sample_waiting = Some l"
    by (simp add: sample_waiting_def get_loop_def)
  obtain S' where turn: "EventLoop_turn (echo_env ?mc) 1 100 ?turn
      (set_loop 1 (EventLoop_stop (mc_evwrite ?mc) l) sample_waiting) = Some (Inr S')"
    using l
    by (auto simp: sample_waiting_def get_loop_def set_loop_def EventLoop_turn_def Epoll_loop_def chan_deref_def
        chan_put_def Channel_handleevent_def Channel_setrevents_def Channel_setreadcallback_def Channel_new_def
        call_function_def on_wakeup_def EventLoop_handlewakeup_def run_tasks.simps EventLoop_stop_def
        EventLoop_wakeup_def Let_def echo_env_def sample_loop_def)
  have "epoll_kernel (mc_ctl ?mc)" "eventfd (\<lambda>_. 0) (mc_evwrite ?mc)"
    by (simp_all add: sample_machine_def linux_epoll.epoll_kernel_axioms linux_eventfd.eventfd_axioms)
  from stopped_loop_ends [OF this l turn] l turn show ?thesis by auto
qed

end
