(* ===== verification/Pool_Stop.thy ===== *)
theory Pool_Stop
  imports ThreadPool
begin

text \<open>
  \<^verbatim>\<open>ThreadPool::Stop\<close> call by call, while the threads of the pool go on: how far it gets, and what has
  become of the threads then.
\<close>

subsection \<open>The calls\<close>

text \<open>\<^verbatim>\<open>ThreadPool::Stop\<close>, by the positions in it.\<close>

datatype pool_stop =
    Stop_test         \<comment> \<open>about to test \<^verbatim>\<open>stop_\<close>\<close>
  | Stop_notify       \<comment> \<open>about to call \<^verbatim>\<open>notify_all\<close>\<close>
  | Stop_join nat     \<comment> \<open>about to join this thread\<close>
  | Stop_returned
  | Stop_terminated   \<comment> \<open>\<^verbatim>\<open>join\<close> of the own thread has thrown \<^verbatim>\<open>std::system_error\<close>\<close>

text \<open>\<open>self\<close> is the thread of this pool that executes the call, if it is one.\<close>

inductive ThreadPool_Stop :: "nat option \<Rightarrow> 't pool \<times> pool_stop \<Rightarrow> 't pool \<times> pool_stop \<Rightarrow> bool" for self where
  stopped: "p_stop p \<Longrightarrow> ThreadPool_Stop self (p, Stop_test) (p, Stop_returned)"
| stop: "\<not> p_stop p \<Longrightarrow> ThreadPool_Stop self (p, Stop_test)
    (p\<lparr>p_stop := True, p_mark := length (p_started p)\<rparr>, Stop_notify)"
| notify: "ThreadPool_Stop self (p, Stop_notify)
    (p\<lparr>p_stop_notified := True, p_threads := map (\<lambda>w. if w = Asleep then Woken else w) (p_threads p)\<rparr>,
     Stop_join 0)"
| join: "self \<noteq> Some th \<Longrightarrow> at p th Exited \<Longrightarrow>
    ThreadPool_Stop self (p, Stop_join th) (p, Stop_join (Suc th))"
| join_self: "self = Some th \<Longrightarrow> th < length (p_threads p) \<Longrightarrow>
    ThreadPool_Stop self (p, Stop_join th) (p, Stop_terminated)"
| joined: "length (p_threads p) \<le> th \<Longrightarrow> ThreadPool_Stop self (p, Stop_join th) (p, Stop_returned)"

inductive_simps Stop_join_simps: "ThreadPool_Stop self (p, Stop_join th) s'"

subsection \<open>The other threads meanwhile\<close>

text \<open>Moves of a pool that are not part of \<^verbatim>\<open>Stop\<close>.\<close>

definition quiet :: "'t pool \<Rightarrow> 't pool \<Rightarrow> bool" where
  "quiet p p' \<longleftrightarrow> p_stop p' = p_stop p \<and> p_stop_notified p' = p_stop_notified p"

text \<open>Threads that have left stay away, and without \<^verbatim>\<open>stop_\<close> no thread leaves.\<close>

lemma pool_step_exited:
  assumes "pool_step p p'" and "p_threads p ! k = Exited" and "k < length (p_threads p)"
  shows "p_threads p' ! k = Exited"
  using assms(1)
proof (cases rule: pool_step_cases)
  case (thread i)
  then show ?thesis using assms(2,3)
    by (cases rule: thread_step.cases) (auto simp: at_def nth_list_update)
next
  case env
  then show ?thesis using assms(2,3)
    by (cases rule: env_step.cases) (auto simp: at_def nth_list_update)
qed

lemma thread_step_stop: "thread_step i p p' \<Longrightarrow> quiet p p'"
  by (cases rule: thread_step.cases) (auto simp: quiet_def)

lemma other_thread:
  assumes "thread_step i p p'" and "k \<noteq> i" and "k < length (p_threads p)"
  shows "p_threads p' ! k = p_threads p ! k"
  using assms by (cases rule: thread_step.cases) auto

lemma env_step_alive:
  assumes "env_step p p'" and "p_threads p ! k \<noteq> Exited" and "k < length (p_threads p)"
  shows "p_threads p' ! k \<noteq> Exited"
  using assms by (cases rule: env_step.cases) (auto simp: at_def nth_list_update)

lemma pool_no_exit: "pool_inv p \<Longrightarrow> \<not> p_stop p \<Longrightarrow> k < length (p_threads p) \<Longrightarrow> p_threads p ! k \<noteq> Exited"
  by (auto simp: pool_inv_def awake_inv_def in_set_conv_nth)

lemma joinable_nth: "joinable p \<longleftrightarrow> (\<forall>k<length (p_threads p). p_threads p ! k = Exited)"
  unfolding joinable_def by (metis in_set_conv_nth)

lemma joinable_step: "pool_step p p' \<Longrightarrow> joinable p \<Longrightarrow> joinable p'"
  by (simp add: joinable_nth pool_step_exited pool_threads_step)

definition stop_progress :: "'t pool \<Rightarrow> pool_stop \<Rightarrow> bool" where
  "stop_progress p a \<longleftrightarrow>
     (case a of
        Stop_test \<Rightarrow> \<not> p_stop p
      | Stop_join th \<Rightarrow> p_stop p \<and> (\<forall>k<min th (length (p_threads p)). p_threads p ! k = Exited)
      | Stop_returned \<Rightarrow> p_stop p \<and> joinable p
      | _ \<Rightarrow> p_stop p)"

text \<open>The interrupted thread of a pool has not left, and \<^verbatim>\<open>Stop\<close> does not get past it.\<close>

definition frozen :: "nat option \<Rightarrow> 't pool \<Rightarrow> bool" where
  "frozen self p \<longleftrightarrow> (\<forall>i. self = Some i \<longrightarrow> i < length (p_threads p) \<and> p_threads p ! i \<noteq> Exited)"

lemma frozen_not_joinable: "frozen self p \<Longrightarrow> joinable p \<Longrightarrow> self = None"
  by (cases self) (auto simp: frozen_def joinable_nth)

lemma Stop_step_progress:
  assumes "ThreadPool_Stop self (p, a) (p', b)" and "stop_progress p a"
  shows "stop_progress p' b"
  using assms
  by (cases rule: ThreadPool_Stop.cases)
    (auto simp: stop_progress_def joinable_nth at_def less_Suc_eq min_def split: if_splits)

lemma Stop_step_frozen: "ThreadPool_Stop self (p, a) (p', b) \<Longrightarrow> frozen i p \<Longrightarrow> frozen i p'"
  by (cases rule: ThreadPool_Stop.cases) (auto simp: frozen_def split: if_splits)

lemma quiet_progress:
  assumes "pool_step p p'" and "quiet p p'" and "stop_progress p a"
  shows "stop_progress p' a"
  using assms pool_threads_step [OF assms(1)] joinable_step [OF assms(1)] pool_step_exited [OF assms(1)]
  by (cases a) (auto simp: stop_progress_def quiet_def)

lemma quiet_frozen:
  assumes "frozen self p" and "(\<exists>i. thread_step i p p' \<and> self \<noteq> Some i) \<or> env_step p p'"
  shows "frozen self p'"
  using assms(2)
proof (elim disjE exE conjE)
  fix i
  assume step: "thread_step i p p'" and "self \<noteq> Some i"
  moreover have "length (p_threads p') = length (p_threads p)"
    using step by (intro pool_threads_step) (auto simp: pool_step_def)
  ultimately show ?thesis using assms(1) other_thread [OF step] by (auto simp: frozen_def)
next
  assume step: "env_step p p'"
  moreover have "length (p_threads p') = length (p_threads p)"
    using step by (intro pool_threads_step) (auto simp: pool_step_def)
  ultimately show ?thesis using assms(1) env_step_alive [OF step] by (auto simp: frozen_def)
qed

text \<open>As long as a pool is not stopped it keeps the invariant of \<open>ThreadPool\<close>.\<close>

definition unstopped_ok :: "'t pool \<Rightarrow> bool" where
  "unstopped_ok p \<longleftrightarrow> (\<not> p_stop p \<longrightarrow> pool_inv p)"

lemma quiet_unstopped: "pool_step p p' \<Longrightarrow> quiet p p' \<Longrightarrow> unstopped_ok p \<Longrightarrow> unstopped_ok p'"
  by (auto simp: unstopped_ok_def quiet_def intro: pool_inv_step)

lemma Stop_step_unstopped:
  "ThreadPool_Stop self (p, a) (p', b) \<Longrightarrow> stop_progress p a \<Longrightarrow> unstopped_ok p \<Longrightarrow> unstopped_ok p'"
  by (cases rule: ThreadPool_Stop.cases) (auto simp: unstopped_ok_def stop_progress_def)

text \<open>The pools and their threads, whatever the handler does.\<close>

definition pool_ok :: "nat option \<Rightarrow> 't pool \<Rightarrow> bool" where
  "pool_ok self p \<longleftrightarrow> unstopped_ok p \<and> frozen self p"

lemma quiet_pool:
  assumes "(\<exists>i. thread_step i p p' \<and> self \<noteq> Some i) \<or> env_step p p' \<and> quiet p p'"
  shows "pool_ok self p \<Longrightarrow> pool_ok self p'" and "stop_progress p a \<Longrightarrow> stop_progress p' a"
    and "joinable p \<Longrightarrow> joinable p'" and "p_stop p' = p_stop p"
proof -
  have step: "pool_step p p'" and quiet: "quiet p p'"
    using assms thread_step_stop by (auto simp: pool_step_def)
  show "pool_ok self p \<Longrightarrow> pool_ok self p'"
    using assms quiet_unstopped [OF step quiet] quiet_frozen [of self p p'] by (auto simp: pool_ok_def)
  show "stop_progress p a \<Longrightarrow> stop_progress p' a" by (rule quiet_progress [OF step quiet])
  show "joinable p \<Longrightarrow> joinable p'" by (rule joinable_step [OF step])
  show "p_stop p' = p_stop p" using quiet by (simp add: quiet_def)
qed

lemma Stop_step_pool:
  assumes "ThreadPool_Stop self (p, a) (p', b)" and "stop_progress p a" and "pool_ok i p"
  shows "stop_progress p' b \<and> pool_ok i p'"
  using assms Stop_step_progress [OF assms(1,2)] Stop_step_unstopped [OF assms(1,2)] Stop_step_frozen [OF assms(1)]
  by (auto simp: pool_ok_def)

definition gone :: "'t pool \<Rightarrow> bool" where
  "gone p \<longleftrightarrow> p_stop p \<and> joinable p"

text \<open>\<open>delete\<close> finds the flag set and returns at once.\<close>

lemma Stop_step_gone:
  assumes "ThreadPool_Stop self (p, a) (p', b)" and "gone p" and "a = Stop_test \<or> a = Stop_returned"
  shows "p' = p \<and> b = Stop_returned"
  using assms by (cases rule: ThreadPool_Stop.cases) (auto simp: gone_def)

text \<open>What the other threads do to a pool.\<close>

definition pool_moves :: "nat option \<Rightarrow> 't pool \<Rightarrow> 't pool \<Rightarrow> bool" where
  "pool_moves self p p' \<longleftrightarrow> p' = p \<or> (\<exists>i. thread_step i p p' \<and> self \<noteq> Some i) \<or> env_step p p' \<and> quiet p p'"

lemma pool_moves_keep:
  assumes "pool_moves self p p'"
  shows "pool_ok self p \<Longrightarrow> pool_ok self p'" and "stop_progress p a \<Longrightarrow> stop_progress p' a"
    and "gone p \<Longrightarrow> gone p'" and "p_stop p' = p_stop p"
  using assms quiet_pool [of p p' self] by (auto simp: pool_moves_def gone_def)

subsection \<open>Runs\<close>

text \<open>The calls of \<^verbatim>\<open>Stop\<close> on a pool together with moves of its threads that do not end a task.\<close>

definition stop_move :: "'t pool \<times> pool_stop \<Rightarrow> 't pool \<times> pool_stop \<Rightarrow> bool" where
  "stop_move s s' \<longleftrightarrow> ThreadPool_Stop None s s' \<or>
     snd s' = snd s \<and> (\<exists>i. thread_step i (fst s) (fst s') \<and> (\<forall>t. \<not> at (fst s) i (Running t)))"

text \<open>A thread that finds \<^verbatim>\<open>stop_\<close> set at the top of its loop leaves.\<close>

lemma stop_call: "stop_move\<^sup>*\<^sup>* s t \<Longrightarrow> ThreadPool_Stop None t u \<Longrightarrow> stop_move\<^sup>*\<^sup>* s u"
  by (erule rtranclp.rtrancl_into_rtrancl) (simp add: stop_move_def)

lemma stop_thread:
  "stop_move\<^sup>*\<^sup>* s (p, a) \<Longrightarrow> thread_step i p p' \<Longrightarrow> \<forall>t. \<not> at p i (Running t) \<Longrightarrow> stop_move\<^sup>*\<^sup>* s (p', a)"
  by (erule rtranclp.rtrancl_into_rtrancl) (auto simp: stop_move_def)

lemma stop_leaves:
  assumes "p_threads p = replicate n At_loop" and "\<not> p_stop p"
  shows "\<exists>p'. gone p' \<and> stop_move\<^sup>*\<^sup>* (p, Stop_test) (p', Stop_returned)"
proof -
  let ?p1 = "p\<lparr>p_stop := True, p_mark := length (p_started p)\<rparr>"
  let ?q = "\<lambda>k. ?p1\<lparr>p_stop_notified := True, p_threads := replicate k Exited @ replicate (n - k) At_loop\<rparr>"
  have "stop_move\<^sup>*\<^sup>* (p, Stop_test) (?p1, Stop_notify)"
    using assms(2) by (intro stop_call [OF rtranclp.rtrancl_refl] ThreadPool_Stop.stop)
  then have start: "stop_move\<^sup>*\<^sup>* (p, Stop_test) (?q 0, Stop_join 0)"
    by (rule stop_call) (use ThreadPool_Stop.notify [of None ?p1] assms(1) in simp)
  have leave: "goto k Exited (?q k) = ?q (Suc k)" if "k < n" for k
  proof -
    have top: "replicate (n - k) (At_loop :: 'a thread_state) = At_loop # replicate (n - Suc k) At_loop"
      using that by (metis Suc_diff_Suc replicate_Suc)
    have "p_threads (goto k Exited (?q k)) = replicate (Suc k) Exited @ replicate (n - Suc k) At_loop"
      by (simp only: goto_def pool.simps top) (simp add: list_update_append replicate_app_Cons_same)
    then show ?thesis by (simp add: goto_def)
  qed
  have "stop_move\<^sup>*\<^sup>* (p, Stop_test) (?q k, Stop_join k)" if "k \<le> n" for k
    using that
  proof (induction k)
    case (Suc k)
    then have "stop_move\<^sup>*\<^sup>* (p, Stop_test) (?q k, Stop_join k)" by simp
    then have "stop_move\<^sup>*\<^sup>* (p, Stop_test) (goto k Exited (?q k), Stop_join k)"
      by (rule stop_thread) (use Suc.prems in \<open>auto intro!: thread_step.loop_end simp: at_def nth_append\<close>)
    then have "stop_move\<^sup>*\<^sup>* (p, Stop_test) (?q (Suc k), Stop_join k)"
      using Suc.prems by (simp only: leave)
    then show ?case
      by (rule stop_call) (rule ThreadPool_Stop.join, use Suc.prems in \<open>simp_all add: at_def nth_append del: replicate_Suc\<close>)
  qed (use start in simp)
  from this [of n] have "stop_move\<^sup>*\<^sup>* (p, Stop_test) (?q n, Stop_returned)"
    by (rule stop_call) (auto intro: ThreadPool_Stop.joined)
  moreover have "gone (?q n)" by (simp add: gone_def joinable_def)
  ultimately show ?thesis by blast
qed

text \<open>A thread that has come back from its task, and is about to sleep when \<^verbatim>\<open>Stop\<close> notifies.\<close>

lemma stop_hangs:
  assumes "p_threads p = [At_loop]" and "\<not> p_stop p" and "p_queue p = []" and "p_mutex p = None"
  shows "\<exists>p'. p_threads p' = [Asleep] \<and> p_notify p' = p_notify p \<and> stop_move\<^sup>*\<^sup>* (p, Stop_test) (p', Stop_join 0)"
proof -
  let ?R = "\<lambda>p' a. stop_move\<^sup>*\<^sup>* (p, Stop_test) (p', a)"
  define p1 where "p1 = goto 0 At_lock p"
  define p2 where "p2 = goto 0 At_predicate (p1\<lparr>p_mutex := Some 0\<rparr>)"
  define p3 where "p3 = goto 0 At_wait p2"
  define p4 where "p4 = p3\<lparr>p_stop := True, p_mark := length (p_started p3)\<rparr>"
  define p5 where "p5 = p4\<lparr>p_stop_notified := True,
    p_threads := map (\<lambda>w. if w = Asleep then Woken else w) (p_threads p4)\<rparr>"
  define p6 where "p6 = goto 0 Asleep (p5\<lparr>p_mutex := None\<rparr>)"
  note defs = p1_def p2_def p3_def p4_def p5_def p6_def at_def wait_predicate_def assms
  have "?R p Stop_test" by simp
  then have "?R p1 Stop_test" by (rule stop_thread) (auto simp: defs intro!: thread_step.loop_again)
  then have "?R p2 Stop_test" by (rule stop_thread) (auto simp: defs intro!: thread_step.lock)
  then have "?R p3 Stop_test" by (rule stop_thread) (auto simp: defs intro!: thread_step.predicate_false)
  then have "?R p4 Stop_notify"
    unfolding p4_def by (rule stop_call) (rule ThreadPool_Stop.stop, simp add: defs)
  then have "?R p5 (Stop_join 0)"
    unfolding p5_def by (rule stop_call) (rule ThreadPool_Stop.notify)
  then have "?R p6 (Stop_join 0)" by (rule stop_thread) (auto simp: defs intro!: thread_step.block)
  moreover have "p_threads p6 = [Asleep]" "p_notify p6 = p_notify p" by (simp_all add: defs)
  ultimately show ?thesis by blast
qed

lemma ThreadPool_new_simps [simp]:
  "p_threads (ThreadPool_new n) = replicate n At_loop" "\<not> p_stop (ThreadPool_new n)"
  by (simp_all add: ThreadPool_new_def)

lemma ThreadPool_new_reachable: "reachable (pool_init n) pool_step (ThreadPool_new n)"
  by (rule reachable.start) (simp add: pool_init_def)

end
