(* ===== verification/Shutdown.thy ===== *)
theory Shutdown
  imports Loop_Stop Pool_Stop
begin

text \<open>
  Stopping the server: \<^verbatim>\<open>tcpepoll.cpp\<close> runs \<^verbatim>\<open>EchoServer::Stop\<close> in a signal handler, which stops
  the workers (\<^verbatim>\<open>ThreadPool::Stop\<close>), the event loops and their threads (\<^verbatim>\<open>TcpServer::stop\<close>), and
  then deletes the server. The handler runs on one of the threads of the server, which stands
  still meanwhile; the other threads go on.
\<close>

subsection \<open>The calls of the handler\<close>

datatype tcp_stop = Stop_mainloop | Stop_subloop nat | Stop_io pool_stop

inductive TcpServer_stop :: "(u64 \<Rightarrow> u64) \<Rightarrow> nat option \<Rightarrow> 'x server \<times> tcp_stop \<Rightarrow> 'x server \<times> tcp_stop \<Rightarrow> bool"
  for evwrite self where
  mainloop: "TcpServer_stop evwrite self (S, Stop_mainloop)
    (S\<lparr>sv_mainloop := EventLoop_stop evwrite (sv_mainloop S)\<rparr>, Stop_subloop 0)"
| subloop: "int ii < ts_threadnum (sv_tcpserver S) \<Longrightarrow> ii < length (sv_subloops S) \<Longrightarrow>
    TcpServer_stop evwrite self (S, Stop_subloop ii)
      (S\<lparr>sv_subloops := (sv_subloops S)[ii := EventLoop_stop evwrite (sv_subloops S ! ii)]\<rparr>, Stop_subloop (Suc ii))"
| subloops: "\<not> int ii < ts_threadnum (sv_tcpserver S) \<Longrightarrow>
    TcpServer_stop evwrite self (S, Stop_subloop ii) (S, Stop_io Stop_test)"
| io: "ThreadPool_Stop self (sv_threadpool S, a) (p, b) \<Longrightarrow>
    TcpServer_stop evwrite self (S, Stop_io a) (S\<lparr>sv_threadpool := p\<rparr>, Stop_io b)"

text \<open>The thread that runs the handler.\<close>

datatype handler_thread = On_main | On_worker nat | On_io nat

fun worker_self :: "handler_thread \<Rightarrow> nat option" where
  "worker_self (On_worker i) = Some i"
| "worker_self h = None"

fun io_self :: "handler_thread \<Rightarrow> nat option" where
  "io_self (On_io i) = Some i"
| "io_self h = None"

datatype echo_stop = Stop_workers pool_stop | Stop_server tcp_stop

inductive EchoServer_Stop ::
  "(u64 \<Rightarrow> u64) \<Rightarrow> handler_thread \<Rightarrow> echoserver server \<times> echo_stop \<Rightarrow> echoserver server \<times> echo_stop \<Rightarrow> bool"
  for evwrite h where
  workers: "ThreadPool_Stop (worker_self h) (worker_pool S, a) (p, b) \<Longrightarrow>
    EchoServer_Stop evwrite h (S, Stop_workers a) (set_pool p S, Stop_workers b)"
| workers_stopped: "EchoServer_Stop evwrite h (S, Stop_workers Stop_returned) (S, Stop_server Stop_mainloop)"
| server: "TcpServer_stop evwrite (io_self h) (S, a) (S', b) \<Longrightarrow>
    EchoServer_Stop evwrite h (S, Stop_server a) (S', Stop_server b)"

text \<open>
  The handler \<^verbatim>\<open>Stop(int sig)\<close>. \<^verbatim>\<open>delete\<close> runs \<^verbatim>\<open>ThreadPool::~ThreadPool\<close>, which is \<^verbatim>\<open>Stop\<close> again,
  for the workers and then for the threads of the loops.
\<close>

datatype signal_state =
    In_Stop echo_stop
  | Delete_workers pool_stop
  | Delete_io pool_stop
  | Exit_0

inductive signal_Stop ::
  "(u64 \<Rightarrow> u64) \<Rightarrow> handler_thread \<Rightarrow> echoserver server \<times> signal_state \<Rightarrow> echoserver server \<times> signal_state \<Rightarrow> bool"
  for evwrite h where
  stop: "EchoServer_Stop evwrite h (S, a) (S', b) \<Longrightarrow> signal_Stop evwrite h (S, In_Stop a) (S', In_Stop b)"
| delete: "signal_Stop evwrite h (S, In_Stop (Stop_server (Stop_io Stop_returned))) (S, Delete_workers Stop_test)"
| delete_workers: "ThreadPool_Stop (worker_self h) (worker_pool S, a) (p, b) \<Longrightarrow>
    signal_Stop evwrite h (S, Delete_workers a) (set_pool p S, Delete_workers b)"
| workers_deleted: "signal_Stop evwrite h (S, Delete_workers Stop_returned) (S, Delete_io Stop_test)"
| delete_io: "ThreadPool_Stop (io_self h) (sv_threadpool S, a) (p, b) \<Longrightarrow>
    signal_Stop evwrite h (S, Delete_io a) (S\<lparr>sv_threadpool := p\<rparr>, Delete_io b)"
| exit: "signal_Stop evwrite h (S, Delete_io Stop_returned) (S, Exit_0)"

text \<open>What the handler can do next.\<close>

inductive_simps Stop_io_simps: "TcpServer_stop evwrite self (S, Stop_io a) s'"
inductive_simps Stop_server_simps: "EchoServer_Stop evwrite h (S, Stop_server a) s'"
inductive_simps In_Stop_simps: "signal_Stop evwrite h (S, In_Stop a) s'"

lemmas next_call_simps = Stop_join_simps Stop_io_simps Stop_server_simps In_Stop_simps

subsection \<open>The other threads\<close>

text \<open>
  The other threads: the threads of both pools, where the task of an IO thread is \<^verbatim>\<open>EventLoop::run\<close>,
  which returns only when its loop has been stopped (\<open>stopped_loop_ends\<close>); new tasks for the
  workers; and the handlers of the loops, which change neither the pools nor the flags of the
  loops (\<open>run_callback_flags\<close>).
\<close>

inductive running_step :: "handler_thread \<Rightarrow> echoserver server \<Rightarrow> echoserver server \<Rightarrow> bool" for h where
  worker: "thread_step i (worker_pool S) p \<Longrightarrow> worker_self h \<noteq> Some i \<Longrightarrow> running_step h S (set_pool p S)"
| worker_queue: "env_step (worker_pool S) p \<Longrightarrow> quiet (worker_pool S) p \<Longrightarrow> running_step h S (set_pool p S)"
| io_thread: "thread_step i (sv_threadpool S) p \<Longrightarrow> io_self h \<noteq> Some i \<Longrightarrow>
    \<forall>j. at (sv_threadpool S) i (Running (EventLoop_run_task j)) \<longrightarrow> stop_flags S ! Suc j \<Longrightarrow>
    running_step h S (S\<lparr>sv_threadpool := p\<rparr>)"
| io_queue: "env_step (sv_threadpool S) p \<Longrightarrow> quiet (sv_threadpool S) p \<Longrightarrow> running_step h S (S\<lparr>sv_threadpool := p\<rparr>)"
| handler: "stop_flags S' = stop_flags S \<Longrightarrow> sv_threadpool S' = sv_threadpool S \<Longrightarrow>
    worker_pool S' = worker_pool S \<Longrightarrow> ts_threadnum (sv_tcpserver S') = ts_threadnum (sv_tcpserver S) \<Longrightarrow>
    running_step h S S'"

inductive shutdown_step ::
  "(u64 \<Rightarrow> u64) \<Rightarrow> handler_thread \<Rightarrow> echoserver server \<times> signal_state \<Rightarrow> echoserver server \<times> signal_state \<Rightarrow> bool"
  for evwrite h where
  running: "running_step h S S' \<Longrightarrow> shutdown_step evwrite h (S, a) (S', a)"
| signal: "signal_Stop evwrite h s s' \<Longrightarrow> shutdown_step evwrite h s s'"

text \<open>
  The signal arrives at a server that runs: both pools and the loops have not been stopped, and the
  interrupted thread exists.
\<close>

definition shutdown_init :: "handler_thread \<Rightarrow> echoserver server \<times> signal_state \<Rightarrow> bool" where
  "shutdown_init h s \<longleftrightarrow>
     (case s of (S, a) \<Rightarrow> a = In_Stop (Stop_workers Stop_test) \<and>
        (\<exists>n. reachable (pool_init n) pool_step (worker_pool S)) \<and> \<not> p_stop (worker_pool S) \<and>
        (\<exists>n. reachable (pool_init n) pool_step (sv_threadpool S)) \<and> \<not> p_stop (sv_threadpool S) \<and>
        True \<notin> set (stop_flags S) \<and> int (length (sv_subloops S)) = ts_threadnum (sv_tcpserver S) \<and>
        (\<forall>i. worker_self h = Some i \<longrightarrow> i < length (p_threads (worker_pool S))) \<and>
        (\<forall>i. io_self h = Some i \<longrightarrow> i < length (p_threads (sv_threadpool S))))"

subsection \<open>How far the handler has come\<close>

definition stage :: "echoserver server \<Rightarrow> signal_state \<Rightarrow> bool" where
  "stage S a \<longleftrightarrow>
     (case a of
        In_Stop (Stop_workers b) \<Rightarrow>
          stop_progress (worker_pool S) b \<and> True \<notin> set (stop_flags S) \<and> \<not> p_stop (sv_threadpool S)
      | In_Stop (Stop_server Stop_mainloop) \<Rightarrow>
          gone (worker_pool S) \<and> \<not> p_stop (sv_threadpool S)
      | In_Stop (Stop_server (Stop_subloop ii)) \<Rightarrow>
          gone (worker_pool S) \<and> \<not> p_stop (sv_threadpool S) \<and>
          (\<forall>k<min (Suc ii) (length (stop_flags S)). stop_flags S ! k)
      | In_Stop (Stop_server (Stop_io b)) \<Rightarrow>
          gone (worker_pool S) \<and> stop_progress (sv_threadpool S) b \<and> False \<notin> set (stop_flags S)
      | Delete_workers b \<Rightarrow> gone (worker_pool S) \<and> gone (sv_threadpool S) \<and> False \<notin> set (stop_flags S) \<and>
          (b = Stop_test \<or> b = Stop_returned)
      | Delete_io b \<Rightarrow> gone (worker_pool S) \<and> gone (sv_threadpool S) \<and> False \<notin> set (stop_flags S) \<and>
          (b = Stop_test \<or> b = Stop_returned)
      | Exit_0 \<Rightarrow> gone (worker_pool S) \<and> gone (sv_threadpool S) \<and> False \<notin> set (stop_flags S))"

definition shutdown_inv :: "handler_thread \<Rightarrow> echoserver server \<times> signal_state \<Rightarrow> bool" where
  "shutdown_inv h s \<longleftrightarrow>
     (case s of (S, a) \<Rightarrow> pool_ok (worker_self h) (worker_pool S) \<and> pool_ok (io_self h) (sv_threadpool S) \<and>
        int (length (stop_flags S)) = ts_threadnum (sv_tcpserver S) + 1 \<and> stage S a)"

lemma set_pool_simps [simp]:
  "es_threadpool (sv_app (set_pool p S)) = p"
  "sv_threadpool (set_pool p S) = sv_threadpool S"
  "sv_tcpserver (set_pool p S) = sv_tcpserver S"
  "stop_flags (set_pool p S) = stop_flags S"
  by (simp_all add: set_pool_def)

lemma stop_flags_threadpool [simp]: "stop_flags (S\<lparr>sv_threadpool := p\<rparr>) = stop_flags S"
  by (simp add: stop_flags_def loops_def)

lemma running_moves:
  assumes "running_step h S S'"
  shows "pool_moves (worker_self h) (worker_pool S) (worker_pool S') \<and>
    pool_moves (io_self h) (sv_threadpool S) (sv_threadpool S') \<and> stop_flags S' = stop_flags S \<and>
    ts_threadnum (sv_tcpserver S') = ts_threadnum (sv_tcpserver S)"
  using assms by (cases rule: running_step.cases) (auto simp: pool_moves_def)

lemma stage_moves:
  assumes "pool_moves wself (worker_pool S) (worker_pool S')" and "pool_moves ioself (sv_threadpool S) (sv_threadpool S')"
    and "stop_flags S' = stop_flags S" and "stage S a"
  shows "stage S' a"
  using assms(3,4) pool_moves_keep [OF assms(1)] pool_moves_keep [OF assms(2)]
  by (auto simp: stage_def split: signal_state.splits echo_stop.splits tcp_stop.splits)

lemma running_inv: "shutdown_inv h (S, a) \<Longrightarrow> running_step h S S' \<Longrightarrow> shutdown_inv h (S', a)"
  using running_moves [of h S S'] stage_moves [of "worker_self h" S S' "io_self h" a]
  by (auto simp: shutdown_inv_def intro: pool_moves_keep)

text \<open>The handler.\<close>

lemma flags_mainloop: "stop_flags (S\<lparr>sv_mainloop := EventLoop_stop evwrite (sv_mainloop S)\<rparr>) = (stop_flags S)[0 := True]"
  by (simp add: stop_flags_def loops_def EventLoop_stop_def EventLoop_wakeup_def)

lemma flags_subloop:
  "stop_flags (S\<lparr>sv_subloops := (sv_subloops S)[ii := EventLoop_stop evwrite l]\<rparr>) = (stop_flags S)[Suc ii := True]"
  by (simp add: stop_flags_def loops_def EventLoop_stop_def EventLoop_wakeup_def map_update)

lemma tcp_stop_inv:
  assumes "TcpServer_stop evwrite (io_self h) (S, a) (S', b)" and "shutdown_inv h (S, In_Stop (Stop_server a))"
  shows "shutdown_inv h (S', In_Stop (Stop_server b))"
  using assms(1)
proof (cases rule: TcpServer_stop.cases)
  case mainloop
  with assms(2) show ?thesis
    by (auto simp: shutdown_inv_def stage_def flags_mainloop min_def Suc_le_eq)
next
  case (subloop ii)
  with assms(2) show ?thesis
    by (auto simp: shutdown_inv_def stage_def flags_subloop nth_list_update less_Suc_eq min_def split: if_splits)
next
  case (subloops ii)
  then have "int (length (stop_flags S)) \<le> int (Suc ii)" using assms(2) by (simp add: shutdown_inv_def)
  then have "min (Suc ii) (length (stop_flags S)) = length (stop_flags S)" by simp
  with subloops assms(2) show ?thesis
    by (auto simp: shutdown_inv_def stage_def stop_progress_def in_set_conv_nth)
next
  case (io c p d)
  with assms(2) Stop_step_pool [OF io(4), of "io_self h"] show ?thesis
    by (auto simp: shutdown_inv_def stage_def)
qed

lemma echo_stop_inv:
  assumes "EchoServer_Stop evwrite h (S, a) (S', b)" and "shutdown_inv h (S, In_Stop a)"
  shows "shutdown_inv h (S', In_Stop b)"
  using assms(1)
proof (cases rule: EchoServer_Stop.cases)
  case (workers c p d)
  with assms(2) Stop_step_pool [OF workers(4), of "worker_self h"] show ?thesis
    by (auto simp: shutdown_inv_def stage_def)
next
  case workers_stopped
  with assms(2) show ?thesis by (auto simp: shutdown_inv_def stage_def stop_progress_def gone_def)
next
  case (server c d)
  with assms(2) tcp_stop_inv show ?thesis by blast
qed

lemma signal_inv:
  assumes "signal_Stop evwrite h (S, a) (S', b)" and "shutdown_inv h (S, a)"
  shows "shutdown_inv h (S', b)"
  using assms(1)
proof (cases rule: signal_Stop.cases)
  case (stop c d)
  with assms(2) echo_stop_inv show ?thesis by blast
next
  case delete
  with assms(2) show ?thesis by (auto simp: shutdown_inv_def stage_def stop_progress_def gone_def)
next
  case (delete_workers c p d)
  with assms(2) Stop_step_gone [OF delete_workers(4)] show ?thesis
    by (auto simp: shutdown_inv_def stage_def)
next
  case (delete_io c p d)
  with assms(2) Stop_step_gone [OF delete_io(4)] show ?thesis
    by (auto simp: shutdown_inv_def stage_def)
qed (use assms(2) in \<open>auto simp: shutdown_inv_def stage_def\<close>)

lemma shutdown_init_inv: "shutdown_init h s \<Longrightarrow> shutdown_inv h s"
  by (auto simp: shutdown_init_def shutdown_inv_def pool_ok_def unstopped_ok_def frozen_def stage_def
      stop_progress_def stop_flags_def loops_def pool.reachable_inv
      dest: pool_no_exit [OF pool.reachable_inv])

interpretation shutdown: invariant_system "shutdown_init h" "shutdown_step evwrite h" "shutdown_inv h" for evwrite h
proof
  show "shutdown_inv h t" if "shutdown_inv h s" and "shutdown_step evwrite h s t" for s t
    using that(2,1) by (cases rule: shutdown_step.cases) (cases s; cases t; auto intro: running_inv signal_inv)+
qed (rule shutdown_init_inv)

subsection \<open>Runs\<close>

lemma workers_run:
  assumes "stop_move\<^sup>*\<^sup>* s s'"
  shows "(shutdown_step evwrite On_main)\<^sup>*\<^sup>* (set_pool (fst s) S, In_Stop (Stop_workers (snd s)))
    (set_pool (fst s') S, In_Stop (Stop_workers (snd s')))"
  using assms
proof (induction rule: rtranclp_induct)
  case (step t u)
  let ?S = "set_pool (fst t) S"
  have upd: "set_pool (fst u) ?S = set_pool (fst u) S" by (simp add: set_pool_def)
  have "shutdown_step evwrite On_main (?S, In_Stop (Stop_workers (snd t))) (set_pool (fst u) S, In_Stop (Stop_workers (snd u)))"
    using step.hyps(2) unfolding stop_move_def
  proof
    assume "ThreadPool_Stop None t u"
    then have "ThreadPool_Stop (worker_self On_main) (worker_pool ?S, snd t) (fst u, snd u)" by simp
    from EchoServer_Stop.workers [OF this, of evwrite] show ?thesis
      unfolding upd by (intro shutdown_step.signal signal_Stop.stop)
  next
    assume "snd u = snd t \<and> (\<exists>i. thread_step i (fst t) (fst u) \<and> (\<forall>x. \<not> at (fst t) i (Running x)))"
    then obtain i where "snd u = snd t" and "thread_step i (worker_pool ?S) (fst u)" by auto
    from running_step.worker [OF this(2), of On_main] this(1) show ?thesis
      unfolding upd by (auto intro: shutdown_step.running)
  qed
  with step.IH show ?case by (rule rtranclp.rtrancl_into_rtrancl)
qed simp

lemma io_run:
  assumes "stop_move\<^sup>*\<^sup>* s s'"
  shows "(shutdown_step evwrite On_main)\<^sup>*\<^sup>* (S\<lparr>sv_threadpool := fst s\<rparr>, In_Stop (Stop_server (Stop_io (snd s))))
    (S\<lparr>sv_threadpool := fst s'\<rparr>, In_Stop (Stop_server (Stop_io (snd s'))))"
  using assms
proof (induction rule: rtranclp_induct)
  case (step t u)
  let ?S = "S\<lparr>sv_threadpool := fst t\<rparr>"
  have upd: "?S\<lparr>sv_threadpool := fst u\<rparr> = S\<lparr>sv_threadpool := fst u\<rparr>" by simp
  have "shutdown_step evwrite On_main (?S, In_Stop (Stop_server (Stop_io (snd t))))
      (S\<lparr>sv_threadpool := fst u\<rparr>, In_Stop (Stop_server (Stop_io (snd u))))"
    using step.hyps(2) unfolding stop_move_def
  proof
    assume "ThreadPool_Stop None t u"
    then have "ThreadPool_Stop (io_self On_main) (sv_threadpool ?S, snd t) (fst u, snd u)" by simp
    from TcpServer_stop.io [OF this, of evwrite] show ?thesis
      unfolding upd by (intro shutdown_step.signal signal_Stop.stop EchoServer_Stop.server)
  next
    assume "snd u = snd t \<and> (\<exists>i. thread_step i (fst t) (fst u) \<and> (\<forall>x. \<not> at (fst t) i (Running x)))"
    then obtain i where i: "snd u = snd t" "thread_step i (sv_threadpool ?S) (fst u)"
      "\<forall>x. \<not> at (sv_threadpool ?S) i (Running x)" by auto
    have "running_step On_main ?S (S\<lparr>sv_threadpool := fst u\<rparr>)"
      using running_step.io_thread [OF i(2), of On_main] i(3) by (simp only: upd) simp
    with i(1) show ?thesis by (auto intro: shutdown_step.running)
  qed
  with step.IH show ?case by (rule rtranclp.rtrancl_into_rtrancl)
qed simp

text \<open>The loops of a server with one sub loop are stopped.\<close>

lemma signal_run: "signal_Stop evwrite h s s' \<Longrightarrow> (shutdown_step evwrite h)\<^sup>*\<^sup>* s s'"
  by (auto intro: shutdown_step.signal)

lemma loops_run:
  assumes "length (sv_subloops S) = 1" and "ts_threadnum (sv_tcpserver S) = 1"
  shows "\<exists>S'. (shutdown_step evwrite h)\<^sup>*\<^sup>* (S, In_Stop (Stop_server Stop_mainloop)) (S', In_Stop (Stop_server (Stop_io Stop_test))) \<and>
    sv_threadpool S' = sv_threadpool S \<and> sv_app S' = sv_app S \<and> stop_flags S' = [True, True]"
proof -
  define S1 where "S1 = S\<lparr>sv_mainloop := EventLoop_stop evwrite (sv_mainloop S)\<rparr>"
  define S2 where "S2 = S1\<lparr>sv_subloops := (sv_subloops S1)[0 := EventLoop_stop evwrite (sv_subloops S1 ! 0)]\<rparr>"
  note call = signal_run [OF signal_Stop.stop [OF EchoServer_Stop.server]]
  have one: "(shutdown_step evwrite h)\<^sup>*\<^sup>* (S, In_Stop (Stop_server Stop_mainloop)) (S1, In_Stop (Stop_server (Stop_subloop 0)))"
    unfolding S1_def by (intro call TcpServer_stop.mainloop)
  have two: "(shutdown_step evwrite h)\<^sup>*\<^sup>* (S1, In_Stop (Stop_server (Stop_subloop 0)))
      (S2, In_Stop (Stop_server (Stop_subloop (Suc 0))))"
    unfolding S2_def by (intro call TcpServer_stop.subloop) (simp_all add: S1_def assms)
  have three: "(shutdown_step evwrite h)\<^sup>*\<^sup>* (S2, In_Stop (Stop_server (Stop_subloop (Suc 0))))
      (S2, In_Stop (Stop_server (Stop_io Stop_test)))"
    by (intro call TcpServer_stop.subloops) (simp add: S2_def S1_def assms)
  obtain l where "sv_subloops S = [l]" using assms(1) by (auto simp: length_Suc_conv)
  then have "stop_flags S2 = [True, True]"
    by (simp add: S1_def S2_def stop_flags_def loops_def EventLoop_stop_def EventLoop_wakeup_def)
  moreover have "sv_threadpool S2 = sv_threadpool S" "sv_app S2 = sv_app S" by (simp_all add: S1_def S2_def)
  ultimately show ?thesis using rtranclp_trans [OF rtranclp_trans [OF one two] three] by blast
qed

text \<open>The handler deletes the server and exits.\<close>

lemma delete_run:
  assumes "gone (worker_pool S)" and "gone (sv_threadpool S)"
  shows "(shutdown_step evwrite h)\<^sup>*\<^sup>* (S, In_Stop (Stop_server (Stop_io Stop_returned))) (S, Exit_0)"
proof -
  have w: "set_pool (worker_pool S) S = S" and io: "S\<lparr>sv_threadpool := sv_threadpool S\<rparr> = S"
    by (simp_all add: set_pool_def)
  have "ThreadPool_Stop (worker_self h) (worker_pool S, Stop_test) (worker_pool S, Stop_returned)"
    and "ThreadPool_Stop (io_self h) (sv_threadpool S, Stop_test) (sv_threadpool S, Stop_returned)"
    using assms by (simp_all add: gone_def ThreadPool_Stop.stopped)
  from signal_Stop.delete_workers [OF this(1), of evwrite, unfolded w] signal_Stop.delete_io [OF this(2), of evwrite, unfolded io]
  show ?thesis
    by (meson signal_run signal_Stop.delete signal_Stop.workers_deleted signal_Stop.exit rtranclp_trans)
qed

subsection \<open>A server that is stopped\<close>

definition sample_stopping :: "io_task pool \<Rightarrow> echoserver server" where
  "sample_stopping p = set_pool (ThreadPool_new 1) (sample_server\<lparr>sv_threadpool := p\<rparr>)"

lemma sample_stopping_simps [simp]:
  "worker_pool (sample_stopping p) = ThreadPool_new 1" "sv_threadpool (sample_stopping p) = p"
  "stop_flags (sample_stopping p) = [False, False]"
  "length (sv_subloops (sample_stopping p)) = 1" "ts_threadnum (sv_tcpserver (sample_stopping p)) = 1"
  by (simp_all add: sample_stopping_def)
    (simp_all add: sample_server_def stop_flags_def loops_def sample_loop_def set_pool_def sample_tcpserver_simps)

lemma sample_stopping_init:
  assumes "reachable (pool_init 1) pool_step p" and "\<not> p_stop p" and "length (p_threads p) = 1"
    and "h = On_main \<or> h = On_worker 0 \<or> h = On_io 0"
  shows "shutdown_init h (sample_stopping p, In_Stop (Stop_workers Stop_test))"
  using assms ThreadPool_new_reachable [of 1]
  by (auto simp: shutdown_init_def)

text \<open>On the main thread: the workers are stopped, and then the loops.\<close>

lemma sample_stopping_loops:
  "\<exists>S. (shutdown_step evwrite On_main)\<^sup>*\<^sup>* (sample_stopping p, In_Stop (Stop_workers Stop_test))
      (S, In_Stop (Stop_server (Stop_io Stop_test))) \<and>
    sv_threadpool S = p \<and> gone (worker_pool S) \<and> stop_flags S = [True, True]"
proof -
  let ?S = "sample_stopping p"
  obtain q :: "worker_task pool" where q: "gone q" "stop_move\<^sup>*\<^sup>* (ThreadPool_new 1, Stop_test) (q, Stop_returned)"
    using stop_leaves [of "ThreadPool_new 1" 1] by auto
  have "set_pool (ThreadPool_new 1) ?S = ?S" by (simp add: sample_stopping_def set_pool_def)
  then have one: "(shutdown_step evwrite On_main)\<^sup>*\<^sup>* (?S, In_Stop (Stop_workers Stop_test))
      (set_pool q ?S, In_Stop (Stop_workers Stop_returned))"
    using workers_run [OF q(2), of evwrite ?S] by simp
  have two: "(shutdown_step evwrite On_main)\<^sup>*\<^sup>* (set_pool q ?S, In_Stop (Stop_workers Stop_returned))
      (set_pool q ?S, In_Stop (Stop_server Stop_mainloop))"
    by (intro signal_run signal_Stop.stop EchoServer_Stop.workers_stopped)
  have "length (sv_subloops (set_pool q ?S)) = 1" by (simp add: set_pool_def)
  from loops_run [OF this, of evwrite On_main] obtain S where
    three: "(shutdown_step evwrite On_main)\<^sup>*\<^sup>* (set_pool q ?S, In_Stop (Stop_server Stop_mainloop))
      (S, In_Stop (Stop_server (Stop_io Stop_test)))"
    and S: "sv_threadpool S = p" "worker_pool S = q" "stop_flags S = [True, True]" by auto
  from rtranclp_trans [OF rtranclp_trans [OF one two] three] S q(1) show ?thesis by blast
qed

lemma sample_stopping_exits:
  "\<exists>S. reachable (shutdown_init On_main) (shutdown_step evwrite On_main) (S, Exit_0)"
proof -
  let ?p = "ThreadPool_new 1 :: io_task pool"
  obtain S where run: "(shutdown_step evwrite On_main)\<^sup>*\<^sup>* (sample_stopping ?p, In_Stop (Stop_workers Stop_test))
      (S, In_Stop (Stop_server (Stop_io Stop_test)))"
    and S: "sv_threadpool S = ?p" "gone (worker_pool S)"
    using sample_stopping_loops by blast
  obtain q where q: "gone q" "stop_move\<^sup>*\<^sup>* (?p, Stop_test) (q, Stop_returned)"
    using stop_leaves [of ?p 1] by auto
  have "S\<lparr>sv_threadpool := ?p\<rparr> = S" using S(1) by simp
  then have io: "(shutdown_step evwrite On_main)\<^sup>*\<^sup>* (S, In_Stop (Stop_server (Stop_io Stop_test)))
      (S\<lparr>sv_threadpool := q\<rparr>, In_Stop (Stop_server (Stop_io Stop_returned)))"
    using io_run [OF q(2), of evwrite S] by simp
  have "(shutdown_step evwrite On_main)\<^sup>*\<^sup>* (S\<lparr>sv_threadpool := q\<rparr>, In_Stop (Stop_server (Stop_io Stop_returned)))
      (S\<lparr>sv_threadpool := q\<rparr>, Exit_0)"
    using S(2) q(1) by (intro delete_run) simp_all
  moreover have "shutdown_init On_main (sample_stopping ?p, In_Stop (Stop_workers Stop_test))"
    by (rule sample_stopping_init) (simp_all add: ThreadPool_new_reachable [of 1, simplified])
  ultimately show ?thesis
    using rtranclp_trans [OF rtranclp_trans [OF run io]] by (blast intro: reachable_rtranclp reachable.start)
qed

subsection \<open>Properties\<close>

text \<open>
  C16. The order of the shutdown. Whatever the threads do while the signal handler runs: no event
  loop is stopped and no thread of a loop leaves before all worker threads have left, so the loops
  serve the workers to their end; and when the handler comes to \<^verbatim>\<open>exit(0)\<close>, every thread of both
  pools has left and every loop has been stopped.
\<close>

theorem server_stop_order:
  assumes "reachable (shutdown_init h) (shutdown_step evwrite h) (S, a)"
  shows "(True \<in> set (stop_flags S) \<or> (\<exists>i. at (sv_threadpool S) i Exited) \<longrightarrow> joinable (worker_pool S)) \<and>
    (a = Exit_0 \<longrightarrow> joinable (worker_pool S) \<and> joinable (sv_threadpool S) \<and> False \<notin> set (stop_flags S))"
proof -
  have inv: "shutdown_inv h (S, a)" using assms by (rule shutdown.reachable_inv)
  have "p_stop (sv_threadpool S)" if "at (sv_threadpool S) i Exited" for i
    using inv that pool_no_exit by (auto simp: shutdown_inv_def pool_ok_def unstopped_ok_def at_def)
  with inv show ?thesis
    by (auto simp: shutdown_inv_def stage_def gone_def split: signal_state.splits echo_stop.splits tcp_stop.splits)
qed

lemma server_stop_order_witness:
  "\<exists>S. reachable (shutdown_init On_main) (shutdown_step eventfd_write On_main) (S, Exit_0) \<and>
    joinable (worker_pool S) \<and> joinable (sv_threadpool S) \<and> False \<notin> set (stop_flags S)"
  using sample_stopping_exits server_stop_order by blast

text \<open>
  C28. The signal must hit the main thread. Where the handler runs on a worker or on a thread of an
  event loop (a signal to a process may be delivered to any of its threads), \<^verbatim>\<open>Stop\<close> comes to
  \<^verbatim>\<open>join\<close> the thread it runs on: it never returns, the process does not reach \<^verbatim>\<open>exit(0)\<close>, and where it
  runs on a worker no event loop is ever stopped.
\<close>

theorem stop_needs_main_thread:
  assumes "reachable (shutdown_init h) (shutdown_step evwrite h) (S, a)" and "h \<noteq> On_main"
  shows "(\<exists>e. a = In_Stop e \<and> e \<noteq> Stop_server (Stop_io Stop_returned)) \<and>
    (\<forall>i. h = On_worker i \<longrightarrow> True \<notin> set (stop_flags S))"
proof -
  have inv: "shutdown_inv h (S, a)" using assms(1) by (rule shutdown.reachable_inv)
  then have "\<not> gone (worker_pool S) \<or> worker_self h = None" and "\<not> gone (sv_threadpool S) \<or> io_self h = None"
    by (auto simp: shutdown_inv_def pool_ok_def gone_def dest: frozen_not_joinable)
  with inv assms(2) show ?thesis
    by (cases h) (auto simp: shutdown_inv_def stage_def stop_progress_def gone_def
        split: signal_state.splits echo_stop.splits tcp_stop.splits pool_stop.splits)
qed

text \<open>On the first worker: \<^verbatim>\<open>join\<close> throws.\<close>

lemma workers_call:
  "reachable init (shutdown_step evwrite h) (S, In_Stop (Stop_workers a)) \<Longrightarrow>
    ThreadPool_Stop (worker_self h) (worker_pool S, a) (p, b) \<Longrightarrow>
    reachable init (shutdown_step evwrite h) (set_pool p S, In_Stop (Stop_workers b))"
  by (erule reachable.move) (intro shutdown_step.signal signal_Stop.stop EchoServer_Stop.workers)

lemma stop_needs_main_thread_witness:
  "\<exists>S. reachable (shutdown_init (On_worker 0)) (shutdown_step eventfd_write (On_worker 0))
      (S, In_Stop (Stop_workers Stop_terminated)) \<and> True \<notin> set (stop_flags S)"
proof -
  let ?h = "On_worker 0" and ?S = "sample_stopping (ThreadPool_new 1)"
  let ?R = "reachable (shutdown_init ?h) (shutdown_step eventfd_write ?h)"
  define p1 where "p1 = (worker_pool ?S)\<lparr>p_stop := True, p_mark := length (p_started (worker_pool ?S))\<rparr>"
  define p2 where "p2 = p1\<lparr>p_stop_notified := True, p_threads := map (\<lambda>w. if w = Asleep then Woken else w) (p_threads p1)\<rparr>"
  have "?R (?S, In_Stop (Stop_workers Stop_test))"
    by (rule reachable.start, rule sample_stopping_init) (simp_all add: ThreadPool_new_reachable [of 1, simplified])
  then have "?R (set_pool p1 ?S, In_Stop (Stop_workers Stop_notify))"
    unfolding p1_def by (rule workers_call) (rule ThreadPool_Stop.stop, simp)
  then have "?R (set_pool p2 (set_pool p1 ?S), In_Stop (Stop_workers (Stop_join 0)))"
    by (rule workers_call) (simp add: p2_def ThreadPool_Stop.notify)
  then have "?R (set_pool p2 (set_pool p2 (set_pool p1 ?S)), In_Stop (Stop_workers Stop_terminated))"
    by (rule workers_call) (simp add: ThreadPool_Stop.join_self p1_def p2_def)
  with stop_needs_main_thread [OF this] show ?thesis by blast
qed

text \<open>A thread of the pool runs the loop.\<close>

definition io_running :: "io_task pool" where
  "io_running = (ThreadPool_new 1)\<lparr>p_threads := [Running (EventLoop_run_task 0)],
     p_submitted := [EventLoop_run_task 0], p_started := [EventLoop_run_task 0]\<rparr>"

lemma io_running_reachable: "reachable (pool_init 1) pool_step io_running"
proof -
  let ?R = "reachable (pool_init 1) pool_step" and ?t = "EventLoop_run_task 0"
  define p0 where "p0 = (ThreadPool_new 1 :: io_task pool)"
  define p1 where "p1 = ThreadPool_addtask ?t p0"
  define p2 where "p2 = p1\<lparr>p_notify := 0\<rparr>"
  define p3 where "p3 = goto 0 At_lock p2"
  define p4 where "p4 = goto 0 At_predicate (p3\<lparr>p_mutex := Some 0\<rparr>)"
  define p5 where "p5 = goto 0 Past_wait p4"
  define p6 where "p6 = goto 0 (Running ?t) (p5\<lparr>p_mutex := None, p_queue := [], p_started := p_started p5 @ [?t]\<rparr>)"
  note defs = p0_def p1_def p2_def p3_def p4_def p5_def p6_def at_def wait_predicate_def ThreadPool_new_def
  have "?R p0" unfolding p0_def by (rule ThreadPool_new_reachable)
  then have "?R p1" unfolding p1_def by (rule reachable_env) (auto simp: defs intro!: env_step.addtask_push)
  then have "?R p2" unfolding p2_def by (rule reachable_env) (auto simp: defs intro!: env_step.addtask_notify_nobody)
  then have "?R p3" by (rule reachable_thread) (auto simp: defs intro!: thread_step.loop_again)
  then have "?R p4" by (rule reachable_thread) (auto simp: defs intro!: thread_step.lock)
  then have "?R p5" by (rule reachable_thread) (auto simp: defs intro!: thread_step.predicate_true)
  then have "?R p6" unfolding p6_def
    by (rule reachable_thread [where i = 0]) (rule thread_step.pop, simp_all add: defs)
  moreover have "p6 = io_running" by (simp add: defs io_running_def goto_def ThreadPool_addtask_def)
  ultimately show ?thesis by simp
qed

text \<open>
  C29. The shutdown can hang on the main thread too, with one thread of a loop, in its loop when the
  signal arrives. The workers and the loops have been stopped, the thread has come back from
  \<^verbatim>\<open>EventLoop::run\<close> to the wait of its pool, and \<^verbatim>\<open>ThreadPool::Stop\<close> has set the flag and notified
  between the thread's test and its sleep: the thread sleeps, the handler waits for it in \<^verbatim>\<open>join\<close>,
  and neither can go on (but for a spurious wake-up).
\<close>

theorem server_stop_can_hang:
  "\<exists>S a. reachable (shutdown_init On_main) (shutdown_step evwrite On_main) (S, a) \<and>
    a = In_Stop (Stop_server (Stop_io (Stop_join 0))) \<and> joinable (worker_pool S) \<and> False \<notin> set (stop_flags S) \<and>
    p_threads (sv_threadpool S) = [Asleep] \<and> p_notify (sv_threadpool S) = 0 \<and>
    (\<forall>i p. \<not> thread_step i (sv_threadpool S) p) \<and> (\<forall>s. \<not> signal_Stop evwrite On_main (S, a) s)"
proof -
  let ?step = "shutdown_step evwrite On_main"
  obtain S where loops: "?step\<^sup>*\<^sup>* (sample_stopping io_running, In_Stop (Stop_workers Stop_test))
      (S, In_Stop (Stop_server (Stop_io Stop_test)))"
    and S: "sv_threadpool S = io_running" "gone (worker_pool S)" "stop_flags S = [True, True]"
    using sample_stopping_loops by blast
  define p where "p = goto 0 At_loop (io_running\<lparr>p_done := p_done io_running @ [EventLoop_run_task 0]\<rparr>)"
  have run: "at io_running i (Running t) \<Longrightarrow> t = EventLoop_run_task 0" for i t
    by (auto simp: at_def io_running_def)
  have "thread_step 0 io_running p"
    unfolding p_def by (rule thread_step.finish) (simp add: at_def io_running_def)
  then have "running_step On_main S (S\<lparr>sv_threadpool := p\<rparr>)"
    using S by (intro running_step.io_thread) (auto dest: run)
  then have returned: "?step\<^sup>*\<^sup>* (S, In_Stop (Stop_server (Stop_io Stop_test)))
      (S\<lparr>sv_threadpool := p\<rparr>, In_Stop (Stop_server (Stop_io Stop_test)))"
    by (auto intro: shutdown_step.running)
  obtain q where q: "p_threads q = [Asleep]" "p_notify q = 0" "stop_move\<^sup>*\<^sup>* (p, Stop_test) (q, Stop_join 0)"
    using stop_hangs [of p] by (auto simp: p_def io_running_def ThreadPool_new_def)
  let ?S = "S\<lparr>sv_threadpool := q\<rparr>" and ?a = "In_Stop (Stop_server (Stop_io (Stop_join 0)))"
  have hang: "?step\<^sup>*\<^sup>* (S\<lparr>sv_threadpool := p\<rparr>, In_Stop (Stop_server (Stop_io Stop_test))) (?S, ?a)"
    using io_run [OF q(3), of evwrite S] by simp
  have "shutdown_init On_main (sample_stopping io_running, In_Stop (Stop_workers Stop_test))"
    using io_running_reachable by (intro sample_stopping_init) (simp_all add: io_running_def)
  then have "reachable (shutdown_init On_main) ?step (?S, ?a)"
    using rtranclp_trans [OF rtranclp_trans [OF loops returned] hang] by (blast intro: reachable_rtranclp reachable.start)
  moreover have "\<not> thread_step i (sv_threadpool ?S) p'" for i p'
    using q(1) by (auto simp: at_def elim!: thread_step.cases)
  moreover have "\<not> signal_Stop evwrite On_main (?S, ?a) s" for s
    using q(1) by (simp add: next_call_simps at_def)
  ultimately show ?thesis
    using q S by (intro exI [of _ ?S] exI [of _ ?a]) (simp add: gone_def)
qed

end
