(* ===== verification/Main_Program.thy ===== *)
theory Main_Program
  imports Shutdown
begin

text \<open>
  \<^verbatim>\<open>tcpepoll.cpp\<close>: what the main thread of the server does by itself. The signal handler that
  \<^verbatim>\<open>main\<close> installs is \<open>signal_Stop\<close>.
\<close>

definition EchoServer_Start ::
  "echoserver env \<Rightarrow> int \<Rightarrow> turn_input list \<Rightarrow> echoserver server \<Rightarrow> echoserver server res option" where
  "EchoServer_Start env tid turns S = TcpServer_start_run env tid turns S"

text \<open>
  The exit code and the printed lines. The descriptors that the constructors get are inputs, and so
  are the turns of the main loop; \<open>None\<close> is a main loop that still waits.
\<close>

definition tcpepoll_main ::
  "machine \<Rightarrow> (bytes \<Rightarrow> u32) \<Rightarrow> (bytes \<Rightarrow> int) \<Rightarrow> int \<times> int \<times> int \<Rightarrow> int \<times> int \<times> int \<Rightarrow>
   (nat \<Rightarrow> int \<times> int \<times> int) \<Rightarrow> int \<Rightarrow> int \<Rightarrow> turn_input list \<Rightarrow> bytes list \<Rightarrow>
   (int \<times> bytes list) res option" where
  "tcpepoll_main mc inet_addr atoi rcs mainfds subfds now tid turns argv =
     (if length argv \<noteq> 3 then
        Some (Inr (- 1, [lit ''usage: ./tcpepoll ip port'' @ [10],
          lit ''example: ./tcpepoll 192.168.145.128 5050'' @ [10, 10]]))
      else
        (case EchoServer_new (mc_ctl mc) inet_addr (mc_inet_ntoa mc) (mc_garbage mc) rcs mainfds
            (map subfds [0..<3]) 3 (argv ! 1) (of_int (atoi (argv ! 2))) now of
           Inl e \<Rightarrow> Some (Inl e)
         | Inr (server, _) \<Rightarrow>
        (case EchoServer_Start (echo_env mc) tid turns server of
           None \<Rightarrow> None
         | Some (Inl e) \<Rightarrow> Some (Inl e)
         | Some (Inr _) \<Rightarrow> Some (Inr (0, [])))))"

subsection \<open>The main loop\<close>

lemma EventLoop_cycle_goes_on:
  assumes "env_ok env" and "\<And>h l w l' w'. env_timeout env h (l, w) = Inr (l', w') \<Longrightarrow> el_stop l' = el_stop l"
  shows "lid < length (stop_flags S) \<Longrightarrow> \<not> stop_flags S ! lid \<Longrightarrow>
    EventLoop_cycle env lid tid turns S \<noteq> Some (Inr S')"
proof (induction turns arbitrary: S)
  case Nil
  then obtain l where "get_loop lid S = Some l" "\<not> el_stop l"
    by (auto simp: stop_flags_def get_loop_nth)
  then show ?case by (simp add: EventLoop_cycle.simps [of env])
next
  case (Cons turn turns)
  then obtain l where l: "get_loop lid S = Some l" "\<not> el_stop l"
    by (auto simp: stop_flags_def get_loop_nth)
  have "EventLoop_cycle env lid tid turns S1 \<noteq> Some (Inr S')"
    if "EventLoop_turn env lid tid turn S = Some (Inr S1)" for S1
    using Cons EventLoop_turn_flags [OF assms that] by simp
  with l show ?case by (auto simp: EventLoop_cycle.simps [of env] split: option.splits sum.splits)
qed

lemma EchoServer_new_flags:
  assumes "EchoServer_new ctl inet_addr inet_ntoa garbage rcs mainfds fdss n ip port now = Inr (S, reqs)"
  shows "stop_flags S ! 0 = False"
  using assms
  by (auto simp: EchoServer_new_def TcpServer_new_def Let_def bind_res_eq_Inr EventLoop_new_def stop_flags_def loops_def
      EventLoop_setepolltimeoutcallback_def split: prod.splits)

text \<open>
  The server runs until it is stopped. Started with an address and a port, and as long as no
  signal handler stops the main loop, \<^verbatim>\<open>main\<close> does not return: whatever the kernel reports in
  whatever number of turns, the main thread waits for more or the process has ended with a fault.
\<close>

theorem server_runs_until_stopped:
  assumes "epoll_kernel (mc_ctl mc)" and "length argv = 3"
  shows "tcpepoll_main mc inet_addr atoi rcs mainfds subfds now tid turns argv \<noteq> Some (Inr r)"
proof (cases "EchoServer_new (mc_ctl mc) inet_addr (mc_inet_ntoa mc) (mc_garbage mc) rcs mainfds
    (map subfds [0..<3]) 3 (argv ! 1) (of_int (atoi (argv ! 2))) now")
  case (Inl e)
  with assms(2) show ?thesis by (simp add: tcpepoll_main_def)
next
  case (Inr x)
  then obtain S reqs where new: "EchoServer_new (mc_ctl mc) inet_addr (mc_inet_ntoa mc) (mc_garbage mc) rcs mainfds
      (map subfds [0..<3]) 3 (argv ! 1) (of_int (atoi (argv ! 2))) now = Inr (S, reqs)"
    by (cases x) simp
  let ?S = "set_loop 0 ((sv_mainloop S)\<lparr>el_threadid := Some tid\<rparr>) S"
  have "stop_flags ?S ! 0 = False" and "0 < length (stop_flags ?S)"
    using EchoServer_new_flags [OF new] by (simp_all add: stop_flags_def loops_def set_loop_def)
  then have "EventLoop_cycle (echo_env mc) 0 tid turns ?S \<noteq> Some (Inr S')" for S'
    using echo_env_ok [OF assms(1)] by (intro EventLoop_cycle_goes_on) (simp_all add: echo_env_def)
  then have "EchoServer_Start (echo_env mc) tid turns S \<noteq> Some (Inr S')" for S'
    by (simp add: EchoServer_Start_def TcpServer_start_run_def EventLoop_run_def get_loop_def)
  with new assms(2) show ?thesis
    by (auto simp: tcpepoll_main_def split: option.splits sum.splits)
qed

text \<open>The server is started, a connection comes in, and the main loop waits again.\<close>

lemma server_runs_until_stopped_witness:
  "\<forall>r. tcpepoll_main sample_machine (\<lambda>_. 0) (\<lambda>_. 5005) (6, 0, 0) (3, 4, 5)
      (\<lambda>i. (3 * int i + 7, 3 * int i + 8, 3 * int i + 9)) 0 100
      [(Wait_events [(EPOLLIN, Accept_channel)], \<lambda>_. sample_input 20)]
      [lit ''./tcpepoll'', lit ''0.0.0.0'', lit ''5005''] \<noteq> Some (Inr r)"
proof
  have "epoll_kernel (mc_ctl sample_machine)"
    by (simp add: sample_machine_def linux_epoll.epoll_kernel_axioms)
  then show "tcpepoll_main sample_machine (\<lambda>_. 0) (\<lambda>_. 5005) (6, 0, 0) (3, 4, 5)
      (\<lambda>i. (3 * int i + 7, 3 * int i + 8, 3 * int i + 9)) 0 100
      [(Wait_events [(EPOLLIN, Accept_channel)], \<lambda>_. sample_input 20)]
      [lit ''./tcpepoll'', lit ''0.0.0.0'', lit ''5005''] \<noteq> Some (Inr r)" for r
    by (rule server_runs_until_stopped) simp
qed

end
