(* ===== verification/Pool_Test.thy ===== *)
theory Pool_Test
  imports Pool_Stop
begin

text \<open>
  \<^verbatim>\<open>test_ThreadPool.cpp\<close>: a test program with an older copy of the thread pool. It has no \<^verbatim>\<open>Stop\<close>, only
  a destructor. The pauses of the main thread promise nothing about the other threads and are left out.
\<close>

subsection \<open>The older thread pool\<close>

definition test_new :: "nat \<Rightarrow> 't pool" where
  "test_new threadnum =
     \<lparr>p_threads = replicate threadnum At_loop, p_queue = [], p_stop = False, p_mutex = None,
      p_notify = 0, p_stop_notified = False, p_submitted = [], p_started = [], p_done = [],
      p_mark = 0\<rparr>"

text \<open>The threads, in the order of the code of this file.\<close>

inductive test_thread :: "nat \<Rightarrow> 't pool \<Rightarrow> 't pool \<Rightarrow> bool" for i where
  while_again: "at p i At_loop \<Longrightarrow> \<not> p_stop p \<Longrightarrow> test_thread i p (goto i At_lock p)"
| while_end: "at p i At_loop \<Longrightarrow> p_stop p \<Longrightarrow> test_thread i p (goto i Exited p)"
| unique_lock: "at p i At_lock \<Longrightarrow> p_mutex p = None \<Longrightarrow>
    test_thread i p (goto i At_predicate (p\<lparr>p_mutex := Some i\<rparr>))"
| wait_over: "at p i At_predicate \<Longrightarrow> p_stop p \<or> p_queue p \<noteq> [] \<Longrightarrow> test_thread i p (goto i Past_wait p)"
| wait_on: "at p i At_predicate \<Longrightarrow> \<not> p_stop p \<Longrightarrow> p_queue p = [] \<Longrightarrow> test_thread i p (goto i At_wait p)"
| wait_block: "at p i At_wait \<Longrightarrow> test_thread i p (goto i Asleep (p\<lparr>p_mutex := None\<rparr>))"
| wait_lock: "at p i Woken \<Longrightarrow> p_mutex p = None \<Longrightarrow>
    test_thread i p (goto i At_predicate (p\<lparr>p_mutex := Some i\<rparr>))"
| leave: "at p i Past_wait \<Longrightarrow> p_stop p \<Longrightarrow> p_queue p = [] \<Longrightarrow>
    test_thread i p (goto i Exited (p\<lparr>p_mutex := None\<rparr>))"
| front: "at p i Past_wait \<Longrightarrow> p_queue p = t # q \<Longrightarrow>
    test_thread i p (goto i (Running t)
      (p\<lparr>p_mutex := None, p_queue := q, p_started := p_started p @ [t]\<rparr>))"
| task: "at p i (Running t) \<Longrightarrow>
    test_thread i p (goto i At_loop (p\<lparr>p_done := p_done p @ [t]\<rparr>))"

definition test_addtask :: "'t \<Rightarrow> 't pool \<Rightarrow> 't pool" where
  "test_addtask t p =
     p\<lparr>p_queue := p_queue p @ [t], p_submitted := p_submitted p @ [t], p_notify := Suc (p_notify p)\<rparr>"

text \<open>It does what the thread pool of the server does.\<close>

lemma test_pool_same: "test_new = ThreadPool_new" "test_addtask = ThreadPool_addtask"
  by (simp_all add: fun_eq_iff test_new_def ThreadPool_new_def test_addtask_def ThreadPool_addtask_def)

lemma test_thread_same: "test_thread i p p' \<longleftrightarrow> thread_step i p p'"
proof
  show "thread_step i p p'" if "test_thread i p p'"
    using that by cases (auto simp: wait_predicate_def intro: thread_step.intros)
  show "test_thread i p p'" if "thread_step i p p'"
    using that by cases (auto simp: wait_predicate_def intro: test_thread.intros)
qed

subsection \<open>The tasks\<close>

datatype test_task = Show_task nat bytes | Test_task

definition main_name :: bytes where
  "main_name = [232, 165, 191, 230, 150, 189]"

text \<open>What the functions \<^verbatim>\<open>show\<close> and \<^verbatim>\<open>test\<close> print, in UTF-8; \<open>tid\<close> is the calling thread.\<close>

fun task_output :: "nat \<Rightarrow> test_task \<Rightarrow> bytes" where
  "task_output tid (Show_task no name) =
     [229, 176, 143, 229, 147, 165, 229, 147, 165, 228, 187, 172, 229, 165, 189, 239, 188, 140, 230, 136, 145,
      230, 152, 175, 231, 172, 172] @ digits no @
     [229, 143, 183, 232, 182, 133, 231, 186, 167, 229, 165, 179, 231, 148, 159] @ takeWhile (\<lambda>b. b \<noteq> 0) name @ lit '','' @
     lit ''thread is '' @ digits tid @ lit ''.'' @ [10]"
| "task_output tid Test_task =
     [230, 136, 145, 230, 156, 137, 228, 184, 128, 229, 143, 170, 229, 176, 143, 229, 176, 143, 233, 184, 159, 44, 32] @
     lit ''thread is '' @ digits tid @ lit ''.'' @ [10]"

subsection \<open>The program\<close>

text \<open>The destructor: \<^verbatim>\<open>ThreadPool::Stop\<close> without the test of the flag.\<close>

inductive ThreadPool_destroy :: "'t pool \<times> pool_stop \<Rightarrow> 't pool \<times> pool_stop \<Rightarrow> bool" where
  stop: "ThreadPool_destroy (p, Stop_test) (p\<lparr>p_stop := True, p_mark := length (p_started p)\<rparr>, Stop_notify)"
| further: "a \<noteq> Stop_test \<Longrightarrow> ThreadPool_Stop None (p, a) s \<Longrightarrow> ThreadPool_destroy (p, a) s"

datatype test_state = Add_show | Notify_show | Add_test | Notify_test | Destroy pool_stop | Test_end

definition notify_one :: "'t pool \<Rightarrow> 't pool \<Rightarrow> bool" where
  "notify_one p p' \<longleftrightarrow> env_step p p' \<and> p_notify p = Suc (p_notify p')"

inductive test_main :: "test_task pool \<times> test_state \<Rightarrow> test_task pool \<times> test_state \<Rightarrow> bool" where
  add_show: "p_mutex p = None \<Longrightarrow> test_main (p, Add_show) (test_addtask (Show_task 8 main_name) p, Notify_show)"
| notify_show: "notify_one p p' \<Longrightarrow> test_main (p, Notify_show) (p', Add_test)"
| add_test: "p_mutex p = None \<Longrightarrow> test_main (p, Add_test) (test_addtask Test_task p, Notify_test)"
| notify_test: "notify_one p p' \<Longrightarrow> test_main (p, Notify_test) (p', Destroy Stop_test)"
| destroy: "ThreadPool_destroy (p, a) (p', b) \<Longrightarrow> test_main (p, Destroy a) (p', Destroy b)"
| test_end: "test_main (p, Destroy Stop_returned) (p, Test_end)"

inductive test_step :: "test_task pool \<times> test_state \<Rightarrow> test_task pool \<times> test_state \<Rightarrow> bool" where
  main: "test_main s s' \<Longrightarrow> test_step s s'"
| thread: "test_thread i p p' \<Longrightarrow> test_step (p, a) (p', a)"
| spurious: "at p i Asleep \<Longrightarrow> test_step (p, a) (goto i Woken p, a)"

definition test_init :: "test_task pool \<times> test_state \<Rightarrow> bool" where
  "test_init s \<longleftrightarrow> s = (test_new 3, Add_show)"

subsection \<open>What it comes to\<close>

definition test_inv :: "test_task pool \<times> test_state \<Rightarrow> bool" where
  "test_inv s \<longleftrightarrow> (case s of (p, a) \<Rightarrow> task_inv p \<and>
     (case a of
        Add_show \<Rightarrow> p_submitted p = [] \<and> \<not> p_stop p
      | Notify_show \<Rightarrow> p_submitted p = [Show_task 8 main_name] \<and> \<not> p_stop p
      | Add_test \<Rightarrow> p_submitted p = [Show_task 8 main_name] \<and> \<not> p_stop p
      | Notify_test \<Rightarrow> p_submitted p = [Show_task 8 main_name, Test_task] \<and> \<not> p_stop p
      | Destroy b \<Rightarrow> p_submitted p = [Show_task 8 main_name, Test_task] \<and> stop_progress p b
      | Test_end \<Rightarrow> p_submitted p = [Show_task 8 main_name, Test_task] \<and> joinable p))"

lemma notify_one_keeps:
  assumes "notify_one p p'"
  shows "p_submitted p' = p_submitted p \<and> p_stop p' = p_stop p \<and> pool_step p p'"
  using assms unfolding notify_one_def pool_step_def
  by (auto elim!: env_step.cases)

lemma test_others:
  assumes "pool_step p p'" and "quiet p p'" and "p_submitted p' = p_submitted p" and "test_inv (p, a)"
  shows "test_inv (p', a)"
  using assms(2-4) task_inv_step [OF _ assms(1)] quiet_progress [OF assms(1,2)] joinable_step [OF assms(1)]
  by (auto simp: test_inv_def quiet_def split: test_state.splits)

lemma destroy_keeps:
  assumes "ThreadPool_destroy (p, a) (p', b)" and "task_inv p" and "stop_progress p a"
  shows "task_inv p' \<and> p_submitted p' = p_submitted p \<and> stop_progress p' b"
  using assms(1)
proof (cases rule: ThreadPool_destroy.cases)
  case stop
  with assms show ?thesis by (simp add: task_inv_def stop_progress_def)
next
  case further
  from further(2) have "p_submitted p' = p_submitted p \<and> task_inv p'"
    using assms(2) by (cases rule: ThreadPool_Stop.cases) (auto simp: task_inv_def)
  with Stop_step_progress [OF further(2) assms(3)] show ?thesis by simp
qed

lemma test_main_inv:
  assumes "test_main s s'" and "test_inv s"
  shows "test_inv s'"
  using assms(1)
proof (cases rule: test_main.cases)
  case (add_show p)
  then have "pool_step p (ThreadPool_addtask (Show_task 8 main_name) p)" by (auto simp: pool_step_def env_step.addtask_push)
  with add_show assms(2) show ?thesis by (auto simp: test_inv_def test_pool_same dest: task_inv_step)
next
  case (notify_show p p')
  with assms(2) notify_one_keeps [of p p'] show ?thesis by (auto simp: test_inv_def dest: task_inv_step)
next
  case (add_test p)
  then have "pool_step p (ThreadPool_addtask Test_task p)" by (auto simp: pool_step_def env_step.addtask_push)
  with add_test assms(2) show ?thesis by (auto simp: test_inv_def test_pool_same dest: task_inv_step)
next
  case (notify_test p p')
  with assms(2) notify_one_keeps [of p p'] show ?thesis by (auto simp: test_inv_def stop_progress_def dest: task_inv_step)
next
  case (destroy p a p' b)
  with assms(2) destroy_keeps [of p a p' b] show ?thesis by (simp add: test_inv_def)
next
  case (test_end p)
  with assms(2) show ?thesis by (simp add: test_inv_def stop_progress_def)
qed

interpretation pool_test: invariant_system test_init test_step test_inv
proof
  show "test_inv s" if "test_init s" for s
    using that by (simp add: test_init_def test_pool_same test_inv_def task_inv_def ThreadPool_new_def running_def running_task_def)
  show "test_inv t" if inv: "test_inv s" and step: "test_step s t" for s t
    using step
  proof (cases rule: test_step.cases)
    case main
    then show ?thesis using inv by (rule test_main_inv)
  next
    case (thread i p p' a)
    note thread = thread(1,2) thread(3) [unfolded test_thread_same]
    have "pool_step p p'" and "p_submitted p' = p_submitted p"
      using thread(3) by (auto simp: pool_step_def elim: thread_step.cases)
    with thread inv thread_step_stop show ?thesis by (auto intro: test_others)
  next
    case (spurious p i a)
    have "pool_step p (goto i Woken p)" using spurious(3) by (auto simp: pool_step_def env_step.spurious)
    with spurious inv show ?thesis by (auto intro: test_others simp: quiet_def)
  qed
qed

text \<open>
  When the test program ends its threads have left; tasks have been run in order, each at most once
  and to the end. (A task that no thread has taken when the destructor sets the flag may be dropped.)
\<close>

theorem pool_test_outcome:
  assumes "reachable test_init test_step (p, Test_end)"
  shows "joinable p \<and> mset (p_done p) = mset (p_started p) \<and> prefix (p_started p) [Show_task 8 main_name, Test_task]"
proof -
  have inv: "task_inv p" "p_submitted p = [Show_task 8 main_name, Test_task]" "joinable p"
    using pool_test.reachable_inv [OF assms] by (simp_all add: test_inv_def)
  have "running (p_threads p) = []"
    using inv(3) by (auto simp: running_def running_task_def joinable_def)
  moreover have "prefix (p_started p) (p_submitted p)"
    using inv(1) by (auto simp: task_inv_def intro: prefixI [of _ _ "p_queue p"])
  ultimately show ?thesis using inv by (simp add: task_inv_def)
qed

end
