(* ===== verification/Client.thy ===== *)
theory Client
  imports Framing Net
begin

text \<open>
  \<^verbatim>\<open>client.cpp\<close>: the test client. It sends two requests, and after each it reads one reply with two
  calls of \<^verbatim>\<open>recv\<close>, the header and the text, without looking at what \<^verbatim>\<open>send\<close> and \<^verbatim>\<open>recv\<close> return.
  The other end of the connection is a function \<open>peer\<close> from the bytes that were sent (and its own
  state) to the bytes that come in; the results of the system calls are inputs.
\<close>

subsection \<open>A request\<close>

text \<open>The text of the source is UTF-8: "this is the <ii>-th super girl".\<close>

definition client_text :: "nat \<Rightarrow> bytes" where
  "client_text ii =
     [232, 191, 153, 230, 152, 175, 231, 172, 172] @ digits ii @
     [228, 184, 170, 232, 182, 133, 231, 186, 167, 229, 165, 179, 231, 148, 159, 227, 128, 130]"

text \<open>
  The C string in \<^verbatim>\<open>buf\<close> after \<^verbatim>\<open>memset\<close> and \<^verbatim>\<open>sprintf\<close>, what \<^verbatim>\<open>strlen\<close> and \<^verbatim>\<open>%s\<close> see of a region,
  and \<^verbatim>\<open>memcpy\<close> into one; \<open>char_array\<close> is the size of \<^verbatim>\<open>buf\<close> and of \<^verbatim>\<open>tmpbuf\<close>.
\<close>

definition char_array :: nat where
  "char_array = 1024"

definition write_mem :: "nat \<Rightarrow> bytes \<Rightarrow> bytes \<Rightarrow> bytes res" where
  "write_mem pos bs region =
     (if length region < pos + length bs then Inl (Undefined Out_of_bounds_write)
      else Inr (take pos region @ bs @ drop (pos + length bs) region))"

definition c_string :: "bytes \<Rightarrow> bytes res" where
  "c_string region =
     (if 0 \<in> set region then Inr (takeWhile (\<lambda>b. b \<noteq> 0) region) else Inl (Undefined Out_of_bounds_read))"

text \<open>What \<^verbatim>\<open>send\<close> is given, and the value of \<^verbatim>\<open>len\<close>.\<close>

definition client_request :: "nat \<Rightarrow> (bytes \<times> u32) res" where
  "client_request ii =
     bind_res (write_mem 0 (client_text ii @ [0]) (replicate char_array 0)) (\<lambda>buf.
     bind_res (c_string buf) (\<lambda>text.
     let len = of_nat (length text) in
     bind_res (write_mem 0 (le_bytes4 len) (replicate char_array 0)) (\<lambda>tmpbuf.
     bind_res (write_mem 4 (take (nat (sint len)) buf) tmpbuf) (\<lambda>tmpbuf.
     Inr (take (nat (sint len) + 4) tmpbuf, len)))))"

subsection \<open>A reply\<close>

text \<open>A result of \<^verbatim>\<open>recv\<close>; \<open>Recv_bytes k\<close> gives \<open>k\<close> bytes at most, and 0 at the end of the stream.\<close>

datatype recv_result = Recv_failed | Recv_bytes nat

text \<open>\<^verbatim>\<open>recv(fd, region, n, 0)\<close> with the stream that has come in so far.\<close>

definition recv_mem :: "recv_result \<Rightarrow> nat \<Rightarrow> bytes \<Rightarrow> bytes \<Rightarrow> (bytes \<times> bytes) res" where
  "recv_mem r n region stream =
     (case r of
        Recv_failed \<Rightarrow> Inr (region, stream)
      | Recv_bytes k \<Rightarrow>
          bind_res (write_mem 0 (take (min k n) stream) region) (\<lambda>region.
          Inr (region, drop (min k n) stream)))"

record client_io =
  io_send :: int
  io_recv_len :: recv_result
  io_recv_buf :: recv_result

definition client_reply :: "client_io \<Rightarrow> u32 \<Rightarrow> bytes \<Rightarrow> (bytes \<times> bytes) res" where
  "client_reply io len stream =
     bind_res (recv_mem (io_recv_len io) 4 (le_bytes4 len) stream) (\<lambda>(lenmem, stream).
     let len = of_le4 (lenmem ! 0) (lenmem ! 1) (lenmem ! 2) (lenmem ! 3) in
     bind_res (recv_mem (io_recv_buf io) (size_t (sint len)) (replicate char_array 0) stream) (\<lambda>(buf, stream).
     bind_res (c_string buf) (\<lambda>text.
     Inr (lit ''recv:'' @ text @ [10], stream))))"

subsection \<open>The program\<close>

text \<open>The loop over \<^verbatim>\<open>ii\<close>, with the printed lines.\<close>

fun client_rounds ::
  "(bytes \<Rightarrow> 's \<Rightarrow> bytes \<times> 's) \<Rightarrow> nat \<Rightarrow> client_io list \<Rightarrow> bytes \<Rightarrow> 's \<Rightarrow> (bytes list \<times> bytes \<times> 's) res" where
  "client_rounds peer ii [] stream s = Inr ([], stream, s)"
| "client_rounds peer ii (io # ios) stream s =
     bind_res (client_request ii) (\<lambda>(request, len).
     let (incoming, s) = peer (take (nat (io_send io)) request) s in
     bind_res (client_reply io len (stream @ incoming)) (\<lambda>(line, stream).
     bind_res (client_rounds peer (Suc ii) ios stream s) (\<lambda>(lines, r).
     Inr (line # lines, r))))"

text \<open>
  \<^verbatim>\<open>main\<close>: the exit code and the printed lines. \<open>sockrc\<close> is the result of \<^verbatim>\<open>socket\<close>, \<open>connect\<close>
  that of \<^verbatim>\<open>connect\<close> for an address, \<open>ios ii\<close> are the system calls of a round.
\<close>

definition client_main ::
  "(bytes \<Rightarrow> u32) \<Rightarrow> (bytes \<Rightarrow> int) \<Rightarrow> int \<Rightarrow> (sockaddr_in \<Rightarrow> int) \<Rightarrow> (nat \<Rightarrow> client_io) \<Rightarrow>
   (bytes \<Rightarrow> 's \<Rightarrow> bytes \<times> 's) \<Rightarrow> bytes list \<Rightarrow> 's \<Rightarrow> (int \<times> bytes list \<times> 's) res" where
  "client_main inet_addr atoi sockrc connect ios peer argv s =
     (if length argv \<noteq> 3 then
        Inr (- 1, [lit ''usage:./client ip port'' @ [10], lit ''example:./client 192.168.145.128 5050'' @ [10]], s)
      else if sockrc < 0 then Inr (- 1, [lit ''socket() failed.'' @ [10]], s)
      else
        let servaddr = \<lparr>sin_family = AF_INET, sin_port = swap16 (of_int (atoi (argv ! 2))),
              sin_addr = inet_addr (argv ! 1)\<rparr> in
        if connect servaddr \<noteq> 0 then
          Inr (- 1, [lit ''connect('' @ argv ! 1 @ lit '':'' @ argv ! 2 @ lit '') failed.'' @ [10]], s)
        else
          bind_res (client_rounds peer 0 (map ios [0..<2]) [] s) (\<lambda>(lines, _, s).
          Inr (0, (lit ''connect ok.'' @ [10]) # lines, s)))"

subsection \<open>What it sends and reads\<close>

lemma client_text_simps [simp]: "ii < 10 \<Longrightarrow> length (client_text ii) = 28"
  by (simp add: client_text_def)

lemma client_text_no_nul: "ii < 10 \<Longrightarrow> 0 \<notin> set (client_text ii)"
proof -
  assume "ii < 10"
  then have "ii \<in> {0, 1, 2, 3, 4, 5, 6, 7, 8, 9}" by auto
  then show ?thesis by (auto simp: client_text_def)
qed

lemma takeWhile_c_string: "0 \<notin> set s \<Longrightarrow> c_string (s @ 0 # t) = Inr s"
  by (auto simp: c_string_def takeWhile_tail intro: takeWhile_eq_all_conv [THEN iffD2])

lemma client_request_frame:
  assumes "ii < 10"
  shows "client_request ii = Inr (frame (client_text ii), 28)"
proof -
  have buf: "write_mem 0 (client_text ii @ [0]) (replicate char_array 0) =
      Inr (client_text ii @ 0 # replicate 995 0)"
    using assms by (simp add: write_mem_def char_array_def)
  have str: "c_string (client_text ii @ 0 # replicate 995 0) = Inr (client_text ii)"
    using assms by (intro takeWhile_c_string client_text_no_nul)
  show ?thesis
    using assms
    by (simp add: client_request_def buf str write_mem_def char_array_def frame_def size_header_def le_bytes4_def)
qed

definition recv_all :: "nat \<Rightarrow> client_io \<Rightarrow> bool" where
  "recv_all n io \<longleftrightarrow>
     (\<exists>j k. io_recv_len io = Recv_bytes j \<and> io_recv_buf io = Recv_bytes k \<and> 4 \<le> j \<and> n \<le> k)"

lemma client_reply_header:
  assumes "recv_all n io" and "n < 2 ^ 31"
  shows "client_reply io len (size_header n @ t) =
    bind_res (write_mem 0 (take n t) (replicate char_array 0)) (\<lambda>buf.
    bind_res (c_string buf) (\<lambda>str. Inr (lit ''recv:'' @ str @ [10], drop n t)))"
proof -
  obtain j k where io: "io_recv_len io = Recv_bytes j" "io_recv_buf io = Recv_bytes k" "4 \<le> j" "n \<le> k"
    using assms(1) by (auto simp: recv_all_def)
  have "recv_mem (io_recv_len io) 4 (le_bytes4 len) (size_header n @ t) = Inr (size_header n, t)"
    using io by (simp add: recv_mem_def write_mem_def min_absorb2)
  moreover have "recv_mem (io_recv_buf io) n (replicate char_array 0) t =
      bind_res (write_mem 0 (take n t) (replicate char_array 0)) (\<lambda>buf. Inr (buf, drop n t))"
    using io by (simp add: recv_mem_def min_absorb2)
  moreover have "size_t (int n) = n" using assms(2) by simp
  ultimately show ?thesis
    using size_header_len [OF assms(2)]
    by (simp add: client_reply_def Let_def bind_res_assoc)
qed

lemma client_reply_text:
  assumes "recv_all (length m) io" and "0 \<notin> set m" and "length m < char_array"
  shows "client_reply io len (frame m @ rest) = Inr (lit ''recv:'' @ m @ [10], rest)"
proof -
  have "drop (length m) (replicate char_array 0) = (0 :: byte) # replicate (char_array - length m - 1) 0"
    using assms(3) by (cases "char_array - length m") simp_all
  with assms(3) have "write_mem 0 m (replicate char_array 0) = Inr (m @ 0 # replicate (char_array - length m - 1) 0)"
    by (simp add: write_mem_def)
  then show ?thesis
    using client_reply_header [OF assms(1), of len "m @ rest"] assms(2,3)
    by (simp add: frame_def takeWhile_c_string char_array_def)
qed

text \<open>
  What the client does with a reply that comes in as a whole: up to 1023 bytes it prints the text and the rest of the
  stream is untouched; with 1024 bytes the array is full and \<^verbatim>\<open>printf\<close> reads behind it; a longer reply is written
  behind the array.
\<close>

theorem client_reply_framed:
  assumes "recv_all (length m) io" and "0 \<notin> set m" and "length m < 2 ^ 31"
  shows "client_reply io len (frame m @ rest) =
    (if length m < char_array then Inr (lit ''recv:'' @ m @ [10], rest)
     else if length m = char_array then Inl (Undefined Out_of_bounds_read)
     else Inl (Undefined Out_of_bounds_write))"
proof -
  have reply: "client_reply io len (frame m @ rest) =
      bind_res (write_mem 0 m (replicate char_array 0)) (\<lambda>buf.
      bind_res (c_string buf) (\<lambda>str. Inr (lit ''recv:'' @ str @ [10], rest)))"
    using client_reply_header [OF assms(1,3), of len "m @ rest"] by (simp add: frame_def)
  consider "length m < char_array" | "length m = char_array" | "char_array < length m" by linarith
  then show ?thesis
  proof cases
    case 1
    with client_reply_text [OF assms(1,2)] show ?thesis by simp
  next
    case 2
    then have "write_mem 0 m (replicate char_array 0) = Inr m" by (simp add: write_mem_def)
    with 2 assms(2) show ?thesis by (simp add: reply c_string_def)
  next
    case 3
    then show ?thesis by (simp add: reply write_mem_def)
  qed
qed

lemma client_reply_framed_witness:
  "client_reply \<lparr>io_send = 32, io_recv_len = Recv_bytes 4, io_recv_buf = Recv_bytes 2000\<rparr> 28
     (frame (replicate 1500 65) @ []) = Inl (Undefined Out_of_bounds_write)"
  by (subst client_reply_framed) (simp_all add: recv_all_def char_array_def)

text \<open>The number of bytes \<^verbatim>\<open>recv\<close> may take, where \<open>n\<close> are asked for.\<close>

definition recv_count :: "recv_result \<Rightarrow> nat \<Rightarrow> nat" where
  "recv_count r n = (case r of Recv_failed \<Rightarrow> 0 | Recv_bytes k \<Rightarrow> min k n)"

lemma recv_mem_count:
  "recv_mem r n region stream =
    (if length region < length (take (recv_count r n) stream) then Inl (Undefined Out_of_bounds_write)
     else Inr (take (recv_count r n) stream @ drop (length (take (recv_count r n) stream)) region,
       drop (recv_count r n) stream))"
  by (cases r) (simp_all add: recv_mem_def recv_count_def write_mem_def)

text \<open>A text in the array, which was zero before.\<close>

lemma c_string_in_array:
  assumes "length text \<le> n"
  shows "c_string (text @ drop (length text) (replicate n 0)) =
    (if length text = n \<and> 0 \<notin> set text then Inl (Undefined Out_of_bounds_read)
     else Inr (takeWhile (\<lambda>b. b \<noteq> 0) text))"
proof (cases "0 \<in> set text")
  case True
  then have "takeWhile (\<lambda>b. b \<noteq> 0) (text @ t) = takeWhile (\<lambda>b. b \<noteq> 0) text" for t
    by (rule takeWhile_append1) simp
  with True show ?thesis by (auto simp: c_string_def)
next
  case False
  then have "takeWhile (\<lambda>b. b \<noteq> 0) text = text" by (auto simp: takeWhile_eq_all_conv)
  moreover have "c_string (text @ 0 # t) = Inr text" for t using False by (rule takeWhile_c_string)
  moreover have "\<exists>k. drop (length text) (replicate n (0 :: byte)) = 0 # replicate k 0" if "length text \<noteq> n"
    using that assms by (cases "n - length text") simp_all
  ultimately show ?thesis using False assms
    by (cases "length text = n") (simp add: c_string_def, metis)
qed

lemma read_text:
  "bind_res (recv_mem r n (replicate char_array 0) stream) (\<lambda>(buf, stream).
     bind_res (c_string buf) (\<lambda>text. Inr (lit ''recv:'' @ text @ [10], stream))) =
    (let text = take (recv_count r n) stream in
     if char_array < length text then Inl (Undefined Out_of_bounds_write)
     else if length text = char_array \<and> 0 \<notin> set text then Inl (Undefined Out_of_bounds_read)
     else Inr (lit ''recv:'' @ takeWhile (\<lambda>b. b \<noteq> 0) text @ [10], drop (length text) stream))"
proof -
  define str where "str = take (recv_count r n) stream"
  have rest: "drop (length str) stream = drop (recv_count r n) stream"
    by (cases "recv_count r n \<le> length stream") (simp_all add: str_def)
  have recv: "recv_mem r n (replicate char_array 0) stream =
      (if char_array < length str then Inl (Undefined Out_of_bounds_write)
       else Inr (str @ drop (length str) (replicate char_array 0), drop (length str) stream))"
    unfolding recv_mem_count str_def [symmetric] rest length_replicate ..
  show ?thesis
  proof (cases "char_array < length str")
    case False
    then have len: "length str \<le> char_array" by simp
    show ?thesis
      unfolding recv Let_def str_def [symmetric] if_not_P [OF False] bind_res.simps prod.case c_string_in_array [OF len]
      by simp
  qed (simp add: recv Let_def str_def [symmetric])
qed

text \<open>
  C37. The complete behaviour of the client on a reply, for any bytes that have come in, any results of its two calls
  of \<^verbatim>\<open>recv\<close>, and any value of the header, negative ones included. The header is what the first call
  has stored, in front of what is left of the old value of \<^verbatim>\<open>len\<close>; the second call may take that number of bytes
  (as a \<^verbatim>\<open>size_t\<close>) without regard to the array. Of what it takes the client prints the part before the first NUL; if
  it fills the array and has no NUL, \<^verbatim>\<open>printf\<close> reads behind the array; if there is more, it has been written behind it.
\<close>

theorem client_reply_any_length:
  "client_reply io len stream =
    (let header = take (recv_count (io_recv_len io) 4) stream;
         stream' = drop (recv_count (io_recv_len io) 4) stream;
         mem = header @ drop (length header) (le_bytes4 len);
         n = size_t (sint (of_le4 (mem ! 0) (mem ! 1) (mem ! 2) (mem ! 3)));
         text = take (recv_count (io_recv_buf io) n) stream'
     in if char_array < length text then Inl (Undefined Out_of_bounds_write)
        else if length text = char_array \<and> 0 \<notin> set text then Inl (Undefined Out_of_bounds_read)
        else Inr (lit ''recv:'' @ takeWhile (\<lambda>b. b \<noteq> 0) text @ [10], drop (length text) stream'))"
proof -
  have four: "recv_count (io_recv_len io) 4 \<le> 4" by (simp add: recv_count_def split: recv_result.splits)
  then have header: "\<not> length (le_bytes4 len) < length (take (recv_count (io_recv_len io) 4) stream)" by simp
  show ?thesis
    unfolding client_reply_def recv_mem_count [of _ 4] if_not_P [OF header] bind_res.simps prod.case Let_def
      read_text [unfolded Let_def] ..
qed

text \<open>A header of -1, with 10 bytes behind it, and a reply of which only 3 bytes have come in.\<close>

lemma client_reply_any_length_witness:
  "client_reply \<lparr>io_send = 32, io_recv_len = Recv_bytes 4, io_recv_buf = Recv_bytes 2000\<rparr> 28
     ([255, 255, 255, 255] @ lit ''0123456789'') = Inr (lit ''recv:0123456789'' @ [10], []) \<and>
   client_reply \<lparr>io_send = 32, io_recv_len = Recv_bytes 4, io_recv_buf = Recv_bytes 3\<rparr> 28
     ([5, 0, 0, 0] @ lit ''hello'') = Inr (lit ''recv:hel'' @ [10], lit ''lo'')"
  unfolding client_reply_any_length
  by (simp add: Let_def recv_count_def char_array_def of_le4_def size_t_def lit_def)

end
