(* ===== verification/Echo_Session.thy ===== *)
theory Echo_Session
  imports Echo_Service Client Samples
begin

text \<open>
  The client and the server together: what the client sends goes through the rounds of the echo
  service, and what the service sends is what the client reads.
\<close>

text \<open>
  The server as the other end of the client's connection: \<open>frag\<close> is how the network cuts a request
  into reads and bursts, \<open>ns\<close> how much of the output it takes each time.
\<close>

definition echo_peer ::
  "epoll_ctl \<Rightarrow> (u64 \<Rightarrow> u64) \<Rightarrow> (u64 \<Rightarrow> u64) \<Rightarrow> int \<Rightarrow> int \<Rightarrow> (bytes \<Rightarrow> ((nat \<Rightarrow> byte) \<times> read_result list) list) \<Rightarrow>
   int list \<Rightarrow> bytes \<Rightarrow> echoserver world cstate \<Rightarrow> bytes \<times> echoserver world cstate" where
  "echo_peer ctl evread evwrite iotid worktid frag ns request s =
     (case echo_round ctl evread evwrite iotid worktid (frag request) ns s of
        Some (Inr (s', reply)) \<Rightarrow> (reply, s')
      | _ \<Rightarrow> ([], s))"

definition network_ok :: "(bytes \<Rightarrow> ((nat \<Rightarrow> byte) \<times> read_result list) list) \<Rightarrow> int list \<Rightarrow> bool" where
  "network_ok frag ns \<longleftrightarrow>
     (\<forall>out. list_all (list_all reads_on \<circ> snd) (frag out) \<and> bursts_bytes (frag out) = out) \<and>
     list_all (\<lambda>n. 1 \<le> n) ns \<and> 50 \<le> length ns"

definition client_line :: "nat \<Rightarrow> bytes" where
  "client_line ii = lit ''recv:reply:WORK thread '' @ client_text ii @ [10]"

lemma echo_peer_replies:
  assumes "epoll_reliable ctl" and "service_idle worktid s" and "network_ok frag ns" and "ii < 10"
  shows "\<exists>s'. echo_peer ctl evread evwrite iotid worktid frag ns (frame (client_text ii)) s =
      (frame (echo_reply (client_text ii)), s') \<and> service_idle worktid s'"
proof -
  have "frame_ok (client_text ii)" "nul_free (client_text ii)"
    using assms(4) client_text_no_nul [of ii] by (simp_all add: frame_ok_def nul_free_def)
  moreover have "length (echo_reply (client_text ii)) = 46"
    using assms(4) by (simp add: echo_reply_def)
  ultimately have "\<exists>s'. echo_round ctl evread evwrite iotid worktid (frag (frame (client_text ii))) ns s =
      Some (Inr (s', frame (echo_reply (client_text ii)))) \<and> service_idle worktid s'"
    using echo_round_idle [OF assms(1,2), of "[client_text ii]" "frag (frame (client_text ii))" ns evread evwrite iotid]
      assms(3)
    by (simp add: network_ok_def)
  then show ?thesis by (auto simp: echo_peer_def)
qed

lemma client_round_echo:
  assumes "epoll_reliable ctl" and "service_idle worktid s" and "network_ok frag ns" and "ii < 10"
    and "32 \<le> io_send io" and "recv_all 46 io"
  shows "\<exists>s'. service_idle worktid s' \<and>
    client_rounds (echo_peer ctl evread evwrite iotid worktid frag ns) ii (io # ios) [] s =
      bind_res (client_rounds (echo_peer ctl evread evwrite iotid worktid frag ns) (Suc ii) ios [] s')
        (\<lambda>(lines, r). Inr (client_line ii # lines, r))"
proof -
  obtain s' where peer: "echo_peer ctl evread evwrite iotid worktid frag ns (frame (client_text ii)) s =
      (frame (echo_reply (client_text ii)), s')" and idle: "service_idle worktid s'"
    using echo_peer_replies [OF assms(1-4)] by blast
  have len: "length (echo_reply (client_text ii)) = 46"
    using assms(4) by (simp add: echo_reply_def)
  have "0 \<notin> set (echo_reply (client_text ii))"
    using client_text_no_nul [OF assms(4)] by (simp add: echo_reply_def lit_def)
  then have "client_reply io 28 (frame (echo_reply (client_text ii)) @ []) = Inr (client_line ii, [])"
    using client_reply_text [of "echo_reply (client_text ii)" io 28 "[]"] assms(6) len
    by (simp add: char_array_def client_line_def echo_reply_def lit_def)
  moreover have "take (nat (io_send io)) (frame (client_text ii)) = frame (client_text ii)"
    using assms(4,5) by simp
  ultimately show ?thesis
    using peer idle assms(4) by (intro exI [of _ s']) (simp add: client_request_frame)
qed

text \<open>
  C10. The test client gets its two answers. However the network cuts the bytes in either
  direction, if the client's \<^verbatim>\<open>send\<close> and \<^verbatim>\<open>recv\<close> calls are not cut short, then the program prints
  that it is connected and the two echoed requests, in order, and ends with exit code 0; the server
  is idle again.
\<close>

theorem client_gets_its_echo:
  assumes "epoll_reliable ctl" and "service_idle worktid s" and "network_ok frag ns"
    and "length argv = 3" and "0 \<le> sockrc" and "\<forall>a. connect a = 0"
    and "\<forall>ii<2. 32 \<le> io_send (ios ii) \<and> recv_all 46 (ios ii)"
  shows "\<exists>s'. client_main inet_addr atoi sockrc connect ios (echo_peer ctl evread evwrite iotid worktid frag ns) argv s =
      Inr (0, [lit ''connect ok.'' @ [10], client_line 0, client_line 1], s') \<and> service_idle worktid s'"
proof -
  let ?peer = "echo_peer ctl evread evwrite iotid worktid frag ns"
  have io: "32 \<le> io_send (ios 0)" "recv_all 46 (ios 0)" "32 \<le> io_send (ios 1)" "recv_all 46 (ios 1)"
    using assms(7) by auto
  obtain s1 where s1: "service_idle worktid s1"
    "client_rounds ?peer 0 [ios 0, ios 1] [] s =
      bind_res (client_rounds ?peer 1 [ios 1] [] s1) (\<lambda>(lines, r). Inr (client_line 0 # lines, r))"
    using client_round_echo [OF assms(1-3), of 0 "ios 0" evread evwrite iotid "[ios 1]"] io by auto
  obtain s2 where s2: "service_idle worktid s2"
    "client_rounds ?peer 1 [ios 1] [] s1 =
      bind_res (client_rounds ?peer 2 [] [] s2) (\<lambda>(lines, r). Inr (client_line 1 # lines, r))"
    using client_round_echo [OF assms(1) s1(1) assms(3), of 1 "ios 1" evread evwrite iotid "[]"] io
    by (auto simp: numeral_2_eq_2)
  have "map ios [0..<2] = [ios 0, ios 1]" by (simp add: numeral_2_eq_2)
  with s1(2) s2 assms(4-6) show ?thesis
    by (simp add: client_main_def Let_def)
qed

lemma sample_idle: "service_idle 200 (sample_conn, sample_loop, sample_world)"
  using sample_conn_open sample_conn_ready sample_world_ready by (simp add: service_idle_def)

lemma client_gets_its_echo_witness:
  "\<exists>s'. client_main (\<lambda>_. 0) (\<lambda>_. 5005) 3 (\<lambda>_. 0)
      (\<lambda>_. \<lparr>io_send = 32, io_recv_len = Recv_bytes 4, io_recv_buf = Recv_bytes 1024\<rparr>)
      (echo_peer interest_ctl (\<lambda>_. 0) (\<lambda>n. n + 1) 100 200 (\<lambda>out. sample_reads (map (\<lambda>b. [b]) out)) (replicate 50 1))
      [lit ''client'', lit ''10.0.0.2'', lit ''5005''] (sample_conn, sample_loop, sample_world) =
    Inr (0, [lit ''connect ok.'' @ [10], client_line 0, client_line 1], s') \<and> service_idle 200 s'"
proof (rule client_gets_its_echo)
  have "bursts_bytes (sample_reads (map (\<lambda>b. [b]) out)) = out" for out
    by (induction out) (simp_all add: sample_reads_def bursts_bytes_def reads_bytes_def)
  then show "network_ok (\<lambda>out. sample_reads (map (\<lambda>b. [b]) out)) (replicate 50 1)"
    by (auto simp: network_ok_def sample_reads_def list_all_iff reads_on_def)
qed (simp_all add: linux_epoll.epoll_reliable_axioms sample_idle recv_all_def)

end
