(* ===== verification/Pool_Refinement.thy ===== *)
theory Pool_Refinement
  imports ThreadPool
begin

text \<open>
  The specification of the worker pool: a queue of waiting tasks of which at most \<open>n\<close> run at a time.
  The threads, the mutex and the condition variable of \<open>ThreadPool\<close> implement it.
\<close>

record 't fifo =
  f_waiting :: "'t list"
  f_running :: "'t multiset"
  f_done :: "'t list"
  f_stopped :: bool

inductive fifo_step :: "nat \<Rightarrow> 't fifo \<Rightarrow> 't fifo \<Rightarrow> bool" for n where
  submit: "fifo_step n f (f\<lparr>f_waiting := f_waiting f @ [t]\<rparr>)"
| begin_task: "f_waiting f = t # q \<Longrightarrow> size (f_running f) < n \<Longrightarrow>
    fifo_step n f (f\<lparr>f_waiting := q, f_running := add_mset t (f_running f)\<rparr>)"
| end_task: "t \<in># f_running f \<Longrightarrow>
    fifo_step n f (f\<lparr>f_running := f_running f - {#t#}, f_done := f_done f @ [t]\<rparr>)"
| halt: "\<not> f_stopped f \<Longrightarrow> fifo_step n f (f\<lparr>f_stopped := True\<rparr>)"

definition fifo_init :: "'t fifo \<Rightarrow> bool" where
  "fifo_init f \<longleftrightarrow> f = \<lparr>f_waiting = [], f_running = {#}, f_done = [], f_stopped = False\<rparr>"

definition fifo_of :: "'t pool \<Rightarrow> 't fifo" where
  "fifo_of p =
     \<lparr>f_waiting = p_queue p, f_running = mset (running (p_threads p)), f_done = p_done p, f_stopped = p_stop p\<rparr>"

text \<open>A thread that is not running a task leaves room for one more.\<close>

lemma running_room:
  assumes "i < length ws" and "running_task (ws ! i) = []"
  shows "length (running ws) < length ws"
proof -
  have "ws = take i ws @ ws ! i # drop (Suc i) ws" using assms(1) by (rule id_take_nth_drop)
  then have "running ws = running (take i ws) @ running (drop (Suc i) ws)"
    using assms(2) by (metis append_Nil concat.simps(2) concat_append list.simps(9) map_append running_def)
  then show ?thesis
    using assms(1) running_size_le [of "take i ws"] running_size_le [of "drop (Suc i) ws"] by simp
qed

lemma thread_step_refines:
  assumes "thread_step i p p'"
  shows "fifo_step (length (p_threads p)) (fifo_of p) (fifo_of p') \<or> fifo_of p' = fifo_of p"
  using assms
proof (cases rule: thread_step.cases)
  case (pop t q)
  then have i: "i < length (p_threads p)" "running_task (p_threads p ! i) = []"
    by (auto simp: at_def running_task_def)
  have "fifo_of p' = (fifo_of p)\<lparr>f_waiting := q, f_running := add_mset t (f_running (fifo_of p))\<rparr>"
    using running_update_eq [OF i(1), of "Running t"] i(2) by (simp add: fifo_of_def pop running_task_def)
  moreover have "size (f_running (fifo_of p)) < length (p_threads p)"
    using running_room [OF i] by (simp add: fifo_of_def)
  moreover have "f_waiting (fifo_of p) = t # q" using pop by (simp add: fifo_of_def)
  ultimately show ?thesis by (simp add: fifo_step.begin_task)
next
  case (finish t)
  then have i: "i < length (p_threads p)" "running_task (p_threads p ! i) = [t]"
    by (auto simp: at_def running_task_def)
  have "fifo_of p' = (fifo_of p)\<lparr>f_running := f_running (fifo_of p) - {#t#}, f_done := f_done (fifo_of p) @ [t]\<rparr>"
    using running_update_eq [OF i(1), of At_loop] i(2) by (simp add: fifo_of_def finish running_task_def)
  moreover have "t \<in># f_running (fifo_of p)"
    using running_ge_nth [OF i(1)] i(2) by (simp add: fifo_of_def)
  ultimately show ?thesis by (simp add: fifo_step.end_task)
qed (auto simp: fifo_of_def at_def running_update_eq running_task_def)

lemma env_step_refines:
  assumes "env_step p p'"
  shows "fifo_step n (fifo_of p) (fifo_of p') \<or> fifo_of p' = fifo_of p"
  using assms
proof (cases rule: env_step.cases)
  case (addtask_push t)
  then have "fifo_of p' = (fifo_of p)\<lparr>f_waiting := f_waiting (fifo_of p) @ [t]\<rparr>" by (simp add: fifo_of_def)
  then show ?thesis by (simp add: fifo_step.submit)
next
  case stop_set
  then have "fifo_of p' = (fifo_of p)\<lparr>f_stopped := True\<rparr>" and "\<not> f_stopped (fifo_of p)"
    by (simp_all add: fifo_of_def)
  then show ?thesis by (simp add: fifo_step.halt)
qed (auto simp: fifo_of_def at_def running_update_eq running_task_def)

interpretation pool_spec: refinement "pool_init n" pool_step fifo_init "fifo_step n" fifo_of for n
proof
  show "fifo_init (fifo_of p)" if "pool_init n p" for p :: "'a pool"
    using that by (simp add: pool_init_def fifo_init_def fifo_of_def ThreadPool_new_def running_def running_task_def)
  show "(fifo_step n)\<^sup>*\<^sup>* (fifo_of p) (fifo_of p')"
    if reach: "reachable (pool_init n) pool_step p" and step: "pool_step p p'" for p p' :: "'a pool"
  proof -
    have "fifo_step n (fifo_of p) (fifo_of p') \<or> fifo_of p' = fifo_of p"
      using step
    proof (cases rule: pool_step_cases)
      case (thread i)
      with thread_step_refines pool_length.reachable_inv [OF reach] show ?thesis by auto
    qed (rule env_step_refines)
    then show ?thesis by auto
  qed
qed

text \<open>
  C9. The thread pool implements its specification: every run of the threads, of \<^verbatim>\<open>addtask\<close> and of
  \<^verbatim>\<open>Stop\<close>, from any reachable state and with any interleaving, is a run of the queue that starts
  waiting tasks in their order, runs at most as many at a time as there are threads, and ends only
  tasks that are running.
\<close>

theorem pool_refines_fifo:
  assumes "reachable (pool_init n) pool_step p" and "pool_step\<^sup>*\<^sup>* p p'"
  shows "reachable fifo_init (fifo_step n) (fifo_of p) \<and> (fifo_step n)\<^sup>*\<^sup>* (fifo_of p) (fifo_of p')"
  using pool_spec.reachable_refines [OF assms(1)] pool_spec.run_refines [OF assms(2,1)] by blast

lemma pool_refines_fifo_witness:
  "let p = ThreadPool_new 2 :: nat pool in
   reachable fifo_init (fifo_step 2) (fifo_of p) \<and>
   (fifo_step 2)\<^sup>*\<^sup>* (fifo_of p) \<lparr>f_waiting = [7], f_running = {#}, f_done = [], f_stopped = False\<rparr>"
proof -
  let ?p = "ThreadPool_new 2 :: nat pool"
  have "env_step ?p (ThreadPool_addtask 7 ?p)"
    by (rule env_step.addtask_push) (simp add: ThreadPool_new_def)
  then have step: "pool_step\<^sup>*\<^sup>* ?p (ThreadPool_addtask 7 ?p)"
    by (auto simp: pool_step_def)
  have "reachable (pool_init 2) pool_step ?p"
    by (rule reachable.start) (simp add: pool_init_def)
  from pool_refines_fifo [OF this step] show ?thesis
    by (simp add: fifo_of_def ThreadPool_new_def running_def running_task_def)
qed

end
