(* ===== verification/Server_Round.thy ===== *)
theory Server_Round
  imports Server_Objects
begin

text \<open>
  The turns of \<^verbatim>\<open>EventLoop::run\<close> for one connection on the state of the whole server: a turn that reads
  requests, a turn in which the eventfd wakes the loop, a turn that writes; the other connections are left alone.
\<close>

subsection \<open>A connection, its loop and the rest of the server\<close>

text \<open>The server \<open>S\<close> with another state of one connection, its loop, the registry and the application.\<close>

definition put_conn :: "nat \<Rightarrow> nat \<Rightarrow> echoserver world cstate \<Rightarrow> echoserver server \<Rightarrow> echoserver server" where
  "put_conn lid cid s S =
     (case s of (c, l, ts, x) \<Rightarrow>
        set_loop lid l (S\<lparr>sv_heap := (sv_heap S)(cid \<mapsto> c), sv_tcpserver := ts, sv_app := x\<rparr>))"

lemma put_conn_simps [simp]:
  "sv_heap (put_conn lid cid (c, l, w) S) = (sv_heap S)(cid \<mapsto> c)"
  "sv_tcpserver (put_conn lid cid (c, l, w) S) = fst w"
  "sv_app (put_conn lid cid (c, l, w) S) = snd w"
  "get_loop lid S \<noteq> None \<Longrightarrow> get_loop lid (put_conn lid cid (c, l, w) S) = Some l"
  "get_loop lid S \<noteq> None \<Longrightarrow> get_loop lid' (put_conn lid cid (c, l, w) S) \<noteq> None \<longleftrightarrow> get_loop lid' S \<noteq> None"
  by (cases w; auto simp: put_conn_def)+

lemma put_conn_again [simp]: "put_conn lid cid s' (put_conn lid cid s S) = put_conn lid cid s' S"
  by (cases s; cases s') (auto simp: put_conn_def set_loop_def split: nat.splits)

lemma put_conn_same:
  assumes "sv_heap S cid = Some c" and "get_loop lid S = Some l"
  shows "put_conn lid cid (c, l, sv_tcpserver S, sv_app S) S = S"
  using assms by (cases lid) (auto simp: put_conn_def set_loop_def get_loop_def fun_upd_idem split: if_splits)

lemma on_connection_at:
  assumes "sv_heap S cid = Some c" and "cn_loop c = lid" and "get_loop lid S = Some l"
    and "f (c, l, sv_tcpserver S, sv_app S) = Some (Inr s')"
  shows "on_connection f cid S = Some (Inr (put_conn lid cid s' S))"
  using assms by (cases s') (simp add: on_connection_def put_conn_def)

lemma on_connection_put:
  assumes "cn_loop c = lid" and "get_loop lid S \<noteq> None" and "f (c, l, w) = Some (Inr s')"
  shows "on_connection f cid (put_conn lid cid (c, l, w) S) = Some (Inr (put_conn lid cid s' S))"
  using on_connection_at [of "put_conn lid cid (c, l, w) S" cid c lid l f s'] assms by simp

text \<open>Every connection is registered with the server, so that nothing is destroyed.\<close>

definition registered_all :: "'x server \<Rightarrow> bool" where
  "registered_all S \<longleftrightarrow> dom (sv_heap S) \<subseteq> snd ` set (ts_conns (sv_tcpserver S))"

lemma release_registered:
  assumes "registered_all S"
  shows "release app_owns S = S"
proof -
  have own: "dom (sv_heap S) \<subseteq> set (owners app_owns S)"
    using assms by (auto simp: registered_all_def owners_def)
  then have "orphans app_owns S = []"
    by (auto simp: orphans_def List.map_filter_def filter_empty_conv)
  moreover have "Socket_close [] = id" by (simp add: Socket_close_def fun_eq_iff)
  moreover have "sv_heap S |` set (owners app_owns S) = sv_heap S"
  proof (rule ext)
    show "(sv_heap S |` set (owners app_owns S)) x = sv_heap S x" for x
      using own by (cases "sv_heap S x") (auto simp: restrict_map_def)
  qed
  ultimately show ?thesis by (simp add: release_def Let_def)
qed

subsection \<open>Turns\<close>

definition reported :: "u32 \<Rightarrow> connection \<Rightarrow> connection" where
  "reported ev c = c\<lparr>cn_clientchannel := Channel_setrevents ev (cn_clientchannel c)\<rparr>"

lemma reported_simps [simp]:
  "cn_id (reported ev c) = cn_id c" "cn_loop (reported ev c) = cn_loop c"
  "conn_out (reported ev c) = conn_out c" "cn_inputbuffer (reported ev c) = cn_inputbuffer c"
  "cn_disconnect (reported ev c) = cn_disconnect c" "cn_owned (reported ev c) = cn_owned c"
  "cn_sendcompletecallback (reported ev c) = cn_sendcompletecallback c"
  "conn_open (reported ev c) l \<longleftrightarrow> conn_open c l" "conn_ready (reported ev c) \<longleftrightarrow> conn_ready c"
  by (simp_all add: reported_def Channel_setrevents_def conn_open_def conn_out_def chan_open_def chan_synced_def
      conn_ready_def)

text \<open>A turn with one event of a connection runs one member function of it.\<close>

lemma client_turn:
  assumes c: "sv_heap S cid = Some c" "cn_loop c = lid" and l: "get_loop lid S = Some l"
    and event: "Channel_handleevent (Channel_setrevents ev (cn_clientchannel c)) = Inr cb"
    and bound: "\<And>S. run_callback env tid (inps 0) cb cid S = on_connection f cid S"
    and run: "f (reported ev c, l, sv_tcpserver S, sv_app S) = Some (Inr s')"
    and reg: "registered_all (put_conn lid cid s' S)"
  shows "EventLoop_turn env lid tid (Wait_events [(ev, Client_channel cid)], inps) S = Some (Inr (put_conn lid cid s' S))"
proof -
  let ?S = "S\<lparr>sv_heap := (sv_heap S)(cid \<mapsto> reported ev c)\<rparr>"
  have put: "chan_put (Client_channel cid) (Channel_setrevents ev (cn_clientchannel c)) S = ?S"
    using c(1) by (simp add: chan_put_def reported_def)
  have "on_connection f cid ?S = Some (Inr (put_conn lid cid s' S))"
    using run c(2) l by (cases s') (simp add: on_connection_def put_conn_def)
  then have "run_channels env tid [(Client_channel cid, inps 0)] ?S = Some (Inr (put_conn lid cid s' S))"
    using event bound release_registered [OF reg]
    by (simp add: chan_deref_def reported_def)
  then show ?thesis
    using l c(1) put by (simp add: EventLoop_turn_def Epoll_loop_def chan_deref_def)
qed

text \<open>The connection is connected to its loop and its member functions; so is the eventfd of the loop.\<close>

definition wired :: "nat \<Rightarrow> nat \<Rightarrow> connection \<Rightarrow> bool" where
  "wired lid cid c \<longleftrightarrow> cn_id c = cid \<and> cn_loop c = lid \<and> ch_this (cn_clientchannel c) = Client_channel cid \<and>
     ch_readcallback (cn_clientchannel c) = Some Cb_connection_onmessage \<and>
     ch_writecallback (cn_clientchannel c) = Some Cb_connection_write"

definition loop_wired :: "eventloop \<Rightarrow> bool" where
  "loop_wired l \<longleftrightarrow> ch_readcallback (el_wakechannel l) = Some Cb_handlewakeup"

lemma wired_simps [simp]:
  "wired lid cid (reported ev c) \<longleftrightarrow> wired lid cid c"
  "wired lid cid (received c ms p now) \<longleftrightarrow> wired lid cid c"
  by (simp_all add: wired_def reported_def received_def Channel_setrevents_def)

lemma wired_read: "wired lid cid c \<Longrightarrow>
    Channel_handleevent (Channel_setrevents EPOLLIN (cn_clientchannel c)) = Inr Cb_connection_onmessage"
  by (simp add: wired_def Channel_handleevent_def Channel_setrevents_def call_function_def)

lemma wired_write: "wired lid cid c \<Longrightarrow>
    Channel_handleevent (Channel_setrevents EPOLLOUT (cn_clientchannel c)) = Inr Cb_connection_write"
  by (simp add: wired_def Channel_handleevent_def Channel_setrevents_def call_function_def)

definition turn_io :: "machine \<Rightarrow> (nat \<Rightarrow> byte) \<Rightarrow> read_result list \<Rightarrow> int \<Rightarrow> nat \<Rightarrow> io_input" where
  "turn_io mc stale rs n i =
     \<lparr>in_reads = rs @ [Read_eagain], in_stale = stale, in_writen = n, in_accept = (- 1, mc_blank mc), in_now = 0\<rparr>"

text \<open>Reading.\<close>

lemma read_turn_stream:
  assumes c: "sv_heap S cid = Some c" "wired lid cid c" "conn_ready c"
    and l: "get_loop lid S = Some l" and reg: "registered_all S"
    and ready: "echo_ready (sv_tcpserver S, sv_app S)" (is "echo_ready ?w")
    and rs: "list_all reads_on rs" "stream_of frame frame_ok (b_buf (cn_inputbuffer c) @ reads_bytes rs) ms p"
  shows "EventLoop_turn (echo_env mc) lid tid (Wait_events [(EPOLLIN, Client_channel cid)], turn_io mc stale rs n) S =
    Some (Inr (put_conn lid cid (received (reported EPOLLIN c) ms p (clock ?w), l, echo_sink.take_all cid ms ?w) S))"
proof (rule client_turn [OF c(1) _ l wired_read [OF c(2)]])
  show "cn_loop c = lid" using c(2) by (simp add: wired_def)
  show "run_callback (echo_env mc) tid (turn_io mc stale rs n 0) Cb_connection_onmessage cid S =
      on_connection (Connection_onmessage (mc_ctl mc) (echo_server_call (mc_ctl mc) (mc_evwrite mc) tid) clock
        stale (rs @ [Read_eagain])) cid S" for S
    by (simp add: echo_env_def turn_io_def)
  show "Connection_onmessage (mc_ctl mc) (echo_server_call (mc_ctl mc) (mc_evwrite mc) tid) clock stale (rs @ [Read_eagain])
      (reported EPOLLIN c, l, ?w) =
      Some (Inr (received (reported EPOLLIN c) ms p (clock ?w), l, echo_sink.take_all cid ms ?w))"
    using c(2,3) rs(2) by (subst echo_sink.onmessage_burst [OF ready _ rs(1)]) (simp_all add: wired_def)
  show "registered_all (put_conn lid cid (received (reported EPOLLIN c) ms p (clock ?w), l, echo_sink.take_all cid ms ?w) S)"
    using reg c(1) by (auto simp: registered_all_def take_all_queue)
qed

lemma read_turn:
  assumes "sv_heap S cid = Some c" and "wired lid cid c" and "conn_ready c" and "b_buf (cn_inputbuffer c) = []"
    and "get_loop lid S = Some l" and "registered_all S"
    and "echo_ready (sv_tcpserver S, sv_app S)" (is "echo_ready ?w")
    and "list_all reads_on rs" and "reads_bytes rs = concat (map frame ms)" and "list_all frame_ok ms"
  shows "EventLoop_turn (echo_env mc) lid tid (Wait_events [(EPOLLIN, Client_channel cid)], turn_io mc stale rs n) S =
    Some (Inr (put_conn lid cid (received (reported EPOLLIN c) ms [] (clock ?w), l, echo_sink.take_all cid ms ?w) S))"
  using assms by (intro read_turn_stream) (simp_all add: stream_of_def)

subsection \<open>The other descriptors of the loop\<close>

text \<open>From one state of a connection and its loop to another, what the kernel watches for the other descriptors stays.\<close>

definition watch_local :: "connection \<Rightarrow> eventloop \<Rightarrow> connection \<Rightarrow> eventloop \<Rightarrow> bool" where
  "watch_local c l c' l' \<longleftrightarrow> ch_fd (cn_clientchannel c') = ch_fd (cn_clientchannel c) \<and>
     (\<forall>f. f \<noteq> ch_fd (cn_clientchannel c) \<longrightarrow> ep_interest (el_ep l') f = ep_interest (el_ep l) f)"

lemma watch_local_refl [simp]: "watch_local c l c l"
  by (simp add: watch_local_def)

lemma watch_local_trans: "watch_local c l c' l' \<Longrightarrow> watch_local c' l' c'' l'' \<Longrightarrow> watch_local c l c'' l''"
  by (simp add: watch_local_def)

lemma watch_local_same:
  "ch_fd (cn_clientchannel c1) = ch_fd (cn_clientchannel c) \<Longrightarrow> el_ep l1 = el_ep l \<Longrightarrow>
    ch_fd (cn_clientchannel c2) = ch_fd (cn_clientchannel c') \<Longrightarrow> el_ep l2 = el_ep l' \<Longrightarrow>
    watch_local c1 l1 c2 l2 \<longleftrightarrow> watch_local c l c' l'"
  by (simp add: watch_local_def)

context epoll_kernel
begin

lemma channel_update_watch:
  assumes "Channel_update ctl (ch\<lparr>ch_events := ev\<rparr>) ep = Inr (ch', ep')"
  shows "ch_fd ch' = ch_fd ch \<and> (\<forall>f. f \<noteq> ch_fd ch \<longrightarrow> ep_interest ep' f = ep_interest ep f)"
  using assms
  by (auto simp: Channel_update_def EventLoop_updatechannel_def split: option.splits dest!: update_effect)

lemma on_channel_watch:
  assumes "on_channel op (c, l, w) = Inr (c', l', w')"
    and "op = Channel_enablewriting ctl \<or> op = Channel_disablewriting ctl"
  shows "watch_local c l c' l'"
  using assms
  by (auto simp: on_channel_def bind_res_eq_Inr watch_local_def Channel_enablewriting_def Channel_disablewriting_def
      dest!: channel_update_watch)

lemma sendinloop_watch:
  assumes "Connection_sendinloop ctl data n (c, l, w) = Inr (c', l', w')"
  shows "watch_local c l c' l'"
proof -
  obtain b where "on_channel (Channel_enablewriting ctl) (c\<lparr>cn_outputbuffer := b\<rparr>, l, w) = Inr (c', l', w')"
    using assms by (auto simp: Connection_sendinloop_def bind_res_eq_Inr)
  from on_channel_watch [OF this] show ?thesis by (simp add: watch_local_def)
qed

lemma exec_all_watch:
  "exec_all (loop_exec ctl) (map (\<lambda>m. reply_task (i, m)) ms) (l, h) = Inr (l', h') \<Longrightarrow> h i = Some c \<Longrightarrow>
    \<exists>c'. h' i = Some c' \<and> watch_local c l c' l'"
proof (induction ms arbitrary: l h c)
  case (Cons m ms)
  obtain c1 l1 where send: "task_sendinloop ctl (str_data m) (length m) (c, l, ()) = Inr (c1, l1, ())"
    and rest: "exec_all (loop_exec ctl) (map (\<lambda>m. reply_task (i, m)) ms) (l1, h(i \<mapsto> c1)) = Inr (l', h')"
    using Cons.prems(1,2) by (auto simp: bind_res_eq_Inr reply_task_def)
  have "watch_local c l c1 l1"
    using send by (auto simp: task_sendinloop_def bind_res_eq_Inr intro: sendinloop_watch)
  with Cons.IH [OF rest] show ?case by (auto intro: watch_local_trans)
qed simp

lemma writecallback_watch:
  assumes "Connection_writecallback ctl (echo_server_call ctl evwrite tid) n (c, l, w) = Inr (c', l', w')"
    and "ts_sendcompletecb (fst w) = Some Cb_HandleSendComplete" and "cn_sendcompletecallback c = Some Cb_sendcomplete"
  shows "watch_local c l c' l'"
  using assms
  by (cases w)
    (auto simp: Connection_writecallback_def bind_res_eq_Inr Let_def on_channel_def call_server_def watch_local_def
      TcpServer_sendcomplete_def server_of_def call_handler_def Channel_disablewriting_def split: if_splits
      dest!: channel_update_watch)

end

subsection \<open>The loop is woken\<close>

text \<open>Tasks of one connection leave the other connections of the server alone.\<close>

lemma exec_all_others:
  assumes "exec_all (loop_exec ctl) (map (\<lambda>m. reply_task (i, m)) ms) (l, h) = Inr (l', h')"
    and "h i = Some c" and "g i = Some c"
  shows "exec_all (loop_exec ctl) (map (\<lambda>m. reply_task (i, m)) ms) (l, g) = Inr (l', g(i := h' i))"
  using assms
proof (induction ms arbitrary: l c g h)
  case Nil
  then show ?case by (auto simp: fun_upd_idem)
next
  case (Cons m ms)
  obtain c1 l1 where send: "task_sendinloop ctl (str_data m) (length m) (c, l, ()) = Inr (c1, l1, ())"
    and rest: "exec_all (loop_exec ctl) (map (\<lambda>m. reply_task (i, m)) ms) (l1, h(i \<mapsto> c1)) = Inr (l', h')"
    using Cons.prems(1,2) by (auto simp: bind_res_eq_Inr reply_task_def)
  have "exec_all (loop_exec ctl) (map (\<lambda>m. reply_task (i, m)) ms) (l1, g(i \<mapsto> c1)) = Inr (l', g(i := h' i))"
    using Cons.IH [OF rest, of c1 "g(i \<mapsto> c1)"] by (simp only: fun_upd_same fun_upd_upd)
  with send Cons.prems(3) show ?case by (simp add: reply_task_def fun_upd_def)
qed

text \<open>The handlers do not touch the callbacks of the channel.\<close>

lemma channel_callbacks:
  "Channel_enablewriting ctl ch ep = Inr (ch', ep') \<Longrightarrow>
     ch_readcallback ch' = ch_readcallback ch \<and> ch_writecallback ch' = ch_writecallback ch \<and> ch_this ch' = ch_this ch"
  "Channel_disablewriting ctl ch ep = Inr (ch', ep') \<Longrightarrow>
     ch_readcallback ch' = ch_readcallback ch \<and> ch_writecallback ch' = ch_writecallback ch \<and> ch_this ch' = ch_this ch"
  by (auto simp: chan_op_defs Epoll_updatechannel_def Channel_setinepoll_def Let_def split: option.splits prod.splits if_splits)

lemma sendinloop_wired:
  "Connection_sendinloop ctl data n (c, l, w) = Inr (c', l', w') \<Longrightarrow> wired lid cid c \<Longrightarrow> wired lid cid c'"
  by (auto simp: Connection_sendinloop_def bind_res_eq_Inr on_channel_def wired_def dest: channel_callbacks)

lemma exec_all_wired:
  "exec_all (loop_exec ctl) (map (\<lambda>m. reply_task (i, m)) ms) (l, h) = Inr (l', h') \<Longrightarrow>
    h i = Some c \<Longrightarrow> wired lid cid c \<Longrightarrow> \<exists>c'. h' i = Some c' \<and> wired lid cid c'"
proof (induction ms arbitrary: l h c)
  case (Cons m ms)
  obtain c1 l1 where send: "task_sendinloop ctl (str_data m) (length m) (c, l, ()) = Inr (c1, l1, ())"
    and rest: "exec_all (loop_exec ctl) (map (\<lambda>m. reply_task (i, m)) ms) (l1, h(i \<mapsto> c1)) = Inr (l', h')"
    using Cons.prems(1,2) by (auto simp: bind_res_eq_Inr reply_task_def)
  have "wired lid cid c1"
    using send Cons.prems(3) by (auto simp: task_sendinloop_def bind_res_eq_Inr intro: sendinloop_wired)
  with Cons.IH [OF rest] show ?case by simp
qed simp

lemma writecallback_wired:
  assumes "Connection_writecallback ctl (echo_server_call ctl evwrite tid) n (c, l, w) = Inr (c', l', w')"
    and "ts_sendcompletecb (fst w) = Some Cb_HandleSendComplete" and "cn_sendcompletecallback c = Some Cb_sendcomplete"
    and "wired lid cid c"
  shows "wired lid cid c'"
  using assms
  by (cases w)
    (auto simp: Connection_writecallback_def bind_res_eq_Inr Let_def on_channel_def call_server_def
      TcpServer_sendcomplete_def server_of_def call_handler_def wired_def split: if_splits; drule channel_callbacks(2); simp)

text \<open>The eventfd is reported: the tasks of the workers run, the other connections stay as they are.\<close>

lemma put_conn_loop: "get_loop lid S \<noteq> None \<Longrightarrow>
    set_loop lid l' (put_conn lid cid (c, l, w) S) = put_conn lid cid (c, l', w) S"
  by (cases w) (auto simp: put_conn_def set_loop_def split: nat.splits)

lemma put_conn_heap: "get_loop lid S \<noteq> None \<Longrightarrow>
    set_loop lid l' ((put_conn lid cid (c, l, w) S)\<lparr>sv_heap := (sv_heap S)(cid \<mapsto> c')\<rparr>) = put_conn lid cid (c', l', w) S"
  by (cases w) (auto simp: put_conn_def set_loop_def split: nat.splits)

lemma put_conn_app: "(put_conn lid cid (c, l, w) S)\<lparr>sv_app := x\<rparr> = put_conn lid cid (c, l, fst w, x) S"
  by (cases w) (auto simp: put_conn_def set_loop_def split: nat.splits)

lemma registered_put: "registered_all S \<Longrightarrow> sv_heap S cid \<noteq> None \<Longrightarrow> fst w = sv_tcpserver S \<Longrightarrow>
    registered_all (put_conn lid cid (c, l, w) S)"
  by (auto simp: registered_all_def)

lemma same_loop_wake: "same_loop l l' \<Longrightarrow> el_wakechannel l' = el_wakechannel l"
  by (drule arg_cong [where f = el_wakechannel, OF same_loop_def [THEN iffD1]]) simp

lemma wake_turn:
  assumes "epoll_reliable (mc_ctl mc)" and l: "loop_wired l" "\<not> el_locked l" "get_loop lid S \<noteq> None"
    and q: "el_taskqueue l = map (\<lambda>m. reply_task (cid, m)) ms"
    and c: "conn_open c l" "wired lid cid c" and reg: "registered_all (put_conn lid cid (c, l, w) S)"
  shows "\<exists>c' l'. EventLoop_turn (echo_env mc) lid tid (Wait_events [(EPOLLIN, Wake_channel lid)], inps)
        (put_conn lid cid (c, l, w) S) = Some (Inr (put_conn lid cid (c', l', w) S)) \<and>
    conn_open c' l' \<and> same_conn c c' \<and> wired lid cid c' \<and> conn_out c' = conn_out c @ concat (map frame ms) \<and>
    watch_local c l c' l' \<and> loop_wired l' \<and> el_taskqueue l' = [] \<and> \<not> el_locked l' \<and> el_threadid l' = el_threadid l"
proof -
  define l0 where "l0 = l\<lparr>el_wakechannel := Channel_setrevents EPOLLIN (el_wakechannel l)\<rparr>"
  let ?l = "l0\<lparr>el_wakecount := mc_evread mc (el_wakecount l0), el_locked := True\<rparr>"
  have l0: "conn_open c l0" "\<not> el_locked l0" "el_taskqueue l0 = map (\<lambda>m. reply_task (cid, m)) ms"
    using l q c(1) conn_open_ep [of l0 l c] by (simp_all add: l0_def)
  from epoll_reliable.wakeup_one [OF assms(1) this, of "mc_evread mc"] obtain l' c' where
    wake: "EventLoop_handlewakeup (mc_evread mc) (loop_exec (mc_ctl mc)) (l0, [cid \<mapsto> c]) = Some (Inr (l', [cid \<mapsto> c']))"
    and c': "conn_open c' l'" "same_conn c c'" "conn_out c' = conn_out c @ concat (map frame ms)"
    by blast
  obtain l1 where run: "exec_all (loop_exec (mc_ctl mc)) (map (\<lambda>m. reply_task (cid, m)) ms) (?l, [cid \<mapsto> c]) =
      Inr (l1, [cid \<mapsto> c'])" and l': "l' = l1\<lparr>el_taskqueue := [], el_locked := False\<rparr>"
    using wake l0(2,3)
    by (cases "exec_all (loop_exec (mc_ctl mc)) (el_taskqueue l0) (?l, [cid \<mapsto> c])") (auto simp: loop_tasks.handlewakeup_runs)
  have "watch_local c ?l c' l1"
    using epoll_kernel.exec_all_watch [OF epoll_reliable.axioms(1) [OF assms(1)] run, of c] by auto
  then have "watch_local c l c' l'" by (simp add: watch_local_def l' l0_def)
  moreover have "wired lid cid c'" using exec_all_wired [OF run _ c(2)] by simp
  moreover have "same_loop ?l l1" using exec_all_same_loop [OF run] .
  then have "el_wakechannel l1 = el_wakechannel l0" and "el_threadid l1 = el_threadid l0"
    using same_loopD(1) [of ?l l1] same_loop_wake [of ?l l1] by simp_all
  then have "loop_wired l'" "el_taskqueue l' = []" "\<not> el_locked l'" "el_threadid l' = el_threadid l"
    using l(1) by (simp_all add: l' l0_def loop_wired_def Channel_setrevents_def)
  moreover have "EventLoop_handlewakeup (mc_evread mc) (loop_exec (mc_ctl mc)) (l0, (sv_heap S)(cid \<mapsto> c)) =
      Some (Inr (l', (sv_heap S)(cid \<mapsto> c')))"
    using exec_all_others [OF run, of c "(sv_heap S)(cid \<mapsto> c)"] l0(2,3) by (simp add: loop_tasks.handlewakeup_runs l')
  then have "on_wakeup (echo_env mc) lid (put_conn lid cid (c, l0, w) S) = Some (Inr (put_conn lid cid (c', l', w) S))"
    using l(3) by (simp add: on_wakeup_def echo_env_def put_conn_heap)
  moreover have "registered_all (put_conn lid cid (c', l', w) S)"
    using reg by (simp add: registered_all_def)
  moreover have "chan_put (Wake_channel lid) (Channel_setrevents EPOLLIN (el_wakechannel l)) (put_conn lid cid (c, l, w) S) =
      put_conn lid cid (c, l0, w) S"
    using l(3) by (simp add: chan_put_def put_conn_loop l0_def)
  moreover have "Channel_handleevent (el_wakechannel l0) = Inr Cb_handlewakeup"
    using l(1) by (simp add: l0_def loop_wired_def Channel_handleevent_def Channel_setrevents_def call_function_def)
  moreover have "env_owns (echo_env mc) = echo_owns" by (simp add: echo_env_def)
  ultimately show ?thesis
    using l(3) c' by (intro exI [of _ c'] exI [of _ l'])
      (simp add: EventLoop_turn_def Epoll_loop_def chan_deref_def release_registered)
qed

subsection \<open>The socket is writable\<close>

lemma same_conn_reported: "same_conn c (reported ev c)"
  by (simp add: same_conn_def reported_def)

definition writing :: "nat \<Rightarrow> nat \<Rightarrow> echoserver world cstate \<Rightarrow> bool" where
  "writing lid cid s \<longleftrightarrow>
     (case s of (c, l, w) \<Rightarrow>
        conn_open c l \<and> echo_ready w \<and> cn_owned c \<and> cn_sendcompletecallback c = Some Cb_sendcomplete \<and> wired lid cid c)"

lemma write_turn:
  assumes rel: "epoll_reliable (mc_ctl mc)" and send: "writing lid cid (c, l, w)"
    and out: "conn_out c \<noteq> []" "n \<le> int (length (conn_out c))"
    and S: "get_loop lid S \<noteq> None" "registered_all (put_conn lid cid (c, l, w) S)"
  shows "\<exists>c' l'. EventLoop_turn (echo_env mc) lid tid
        (Wait_events [(EPOLLOUT, Client_channel cid)], turn_io mc stale rs n) (put_conn lid cid (c, l, w) S) =
      Some (Inr (put_conn lid cid (c', l', w) S)) \<and> writing lid cid (c', l', w) \<and>
    conn_out c' = drop (nat n) (conn_out c) \<and> same_conn c c' \<and> same_loop l l' \<and> watch_local c l c' l'"
proof -
  note replies = echo_reply_stream [OF rel, of "mc_evwrite mc" tid]
  let ?srv = "echo_server_call (mc_ctl mc) (mc_evwrite mc) tid" and ?c = "reported EPOLLOUT c"
  have c: "conn_open c l" "echo_ready w" "cn_owned c" "cn_sendcompletecallback c = Some Cb_sendcomplete" "wired lid cid c"
    using send by (simp_all add: writing_def)
  have "reply_stream.sender echo_ready (?c, l, w)"
    using c by (simp add: reply_stream.sender_def [OF replies])
  from reply_stream.sender_write [OF replies this, of n] out obtain c' l' w' where
    run: "Connection_writecallback (mc_ctl mc) ?srv n (?c, l, w) = Inr (c', l', w')"
    and "reply_stream.sender echo_ready (c', l', w')" and c': "conn_out c' = drop (nat n) (conn_out c)"
    by auto
  have complete: "ts_sendcompletecb (fst w) = Some Cb_HandleSendComplete" using c(2) by (simp add: echo_ready_def)
  from writecallback_same [OF run this] c(4) have same: "same_conn ?c c'" "same_loop l l'" "w' = w" by simp_all
  have "watch_local ?c l c' l'"
    using epoll_kernel.writecallback_watch [OF epoll_reliable.axioms(1) [OF rel] run complete] c(4) by simp
  then have watch: "watch_local c l c' l'" by (simp add: watch_local_def reported_def Channel_setrevents_def)
  have "wired lid cid c'" using writecallback_wired [OF run complete] c(4,5) by simp
  with \<open>reply_stream.sender echo_ready (c', l', w')\<close> same(3) have "writing lid cid (c', l', w)"
    by (simp add: writing_def reply_stream.sender_def [OF replies])
  moreover have "EventLoop_turn (echo_env mc) lid tid
      (Wait_events [(EPOLLOUT, Client_channel cid)], turn_io mc stale rs n) (put_conn lid cid (c, l, w) S) =
      Some (Inr (put_conn lid cid (c', l', w) (put_conn lid cid (c, l, w) S)))"
  proof (rule client_turn [OF _ _ _ wired_write [OF c(5)]])
    show "run_callback (echo_env mc) tid (turn_io mc stale rs n 0) Cb_connection_write cid S =
        on_connection (\<lambda>s. Some (Connection_writecallback (mc_ctl mc) ?srv n s)) cid S" for S
      by (simp add: echo_env_def turn_io_def)
    show "registered_all (put_conn lid cid (c', l', w) (put_conn lid cid (c, l, w) S))"
      using S(2) by (simp add: registered_all_def)
  qed (use c(5) S(1) run same(3) in \<open>auto simp: wired_def\<close>)
  moreover have "same_conn c c'" using same_conn_reported same(1) by (rule same_conn_trans)
  ultimately show ?thesis using c' same(2) watch by auto
qed

subsection \<open>Nothing to do\<close>

text \<open>
  A server that has nothing to do for a connection: all the queues between its socket and back are
  empty, and the thread of the loop is not a worker.
\<close>

definition server_idle :: "nat \<Rightarrow> nat \<Rightarrow> int \<Rightarrow> echoserver server \<Rightarrow> bool" where
  "server_idle lid cid worktid S \<longleftrightarrow>
     (case (sv_heap S cid, get_loop lid S) of
        (Some c, Some l) \<Rightarrow>
          wired lid cid c \<and> loop_wired l \<and> service_idle worktid (c, l, sv_tcpserver S, sv_app S)
      | _ \<Rightarrow> False)"

lemma put_conn_others:
  "cid' \<noteq> cid \<Longrightarrow> sv_heap (put_conn lid cid (c, l, w) S) cid' = sv_heap S cid'"
  "lid' \<noteq> lid \<Longrightarrow> get_loop lid' (put_conn lid cid (c, l, w) S) = get_loop lid' S"
  by (cases w; auto simp: put_conn_def get_loop_def set_loop_def split: nat.splits)+

text \<open>The other connections of the server, on this loop and on the others, are as idle as before.\<close>

lemma watch_local_open:
  assumes "watch_local c l c' l'" and "conn_open c l" and "ch_this (cn_clientchannel c) = Client_channel cid"
    and "conn_open ci l" and "ch_this (cn_clientchannel ci) = Client_channel i" and "i \<noteq> cid"
  shows "conn_open ci l'"
proof -
  have "ch_fd (cn_clientchannel ci) \<noteq> ch_fd (cn_clientchannel c)"
    using assms(2-6) by (auto simp: conn_open_def chan_open_def chan_synced_def)
  with assms(1,4) show ?thesis
    by (simp add: watch_local_def conn_open_def chan_open_def chan_synced_def)
qed

lemma idle_others:
  assumes idle: "server_idle lid' i worktid S" "i \<noteq> cid" and l: "get_loop lid S = Some l"
    and watch: "watch_local c l c' l'" "conn_open c l" "wired lid cid c"
    and l': "loop_wired l'" "el_taskqueue l' = []" "\<not> el_locked l'" "el_threadid l' = el_threadid l"
    and w: "echo_ready w" "p_queue (es_threadpool (snd w)) = []"
  shows "server_idle lid' i worktid (put_conn lid cid (c', l', w) S)"
proof -
  obtain ci k where ci: "sv_heap S i = Some ci" "get_loop lid' S = Some k" "wired lid' i ci" "loop_wired k"
    and serv: "service_idle worktid (ci, k, sv_tcpserver S, sv_app S)"
    using idle(1) by (auto simp: server_idle_def split: option.splits)
  have heap: "sv_heap (put_conn lid cid (c', l', w) S) i = Some ci" using ci(1) idle(2) by simp
  show ?thesis
  proof (cases "lid' = lid")
    case True
    with l ci(2) have k: "k = l" by simp
    have "conn_open ci l"
      using serv by (simp add: service_idle_def k)
    from watch_local_open [OF watch(1,2) _ this _ idle(2)] watch(3) ci(3) have "conn_open ci l'"
      by (simp add: wired_def)
    with serv ci(3) heap l l' w True show ?thesis by (simp add: server_idle_def service_idle_def k)
  next
    case False
    with serv ci heap w put_conn_others(2) [OF False] show ?thesis by (simp add: server_idle_def service_idle_def)
  qed
qed

text \<open>The sample server is idle.\<close>

lemma sample_waiting_idle: "server_idle 1 0 200 sample_waiting" "registered_all sample_waiting"
proof -
  let ?l = "sample_loop\<lparr>el_wakechannel := Channel_setreadcallback Cb_handlewakeup (Channel_new (Wake_channel 1) (Some 1) 5)\<rparr>"
  have "get_loop 1 sample_waiting = Some ?l" "sv_heap sample_waiting = [0 \<mapsto> sample_conn]"
    "sv_tcpserver sample_waiting = fst sample_world" "sv_app sample_waiting = snd sample_world"
    by (simp_all add: sample_waiting_def sample_server_def get_loop_def sample_world_def)
  moreover have "wired 1 0 sample_conn" by (simp add: wired_def sample_conn_def sample_channel_def)
  moreover have "loop_wired ?l" by (simp add: loop_wired_def Channel_setreadcallback_def)
  moreover have "conn_open sample_conn ?l" using sample_conn_open conn_open_ep [of ?l sample_loop] by simp
  ultimately show "server_idle 1 0 200 sample_waiting"
    using sample_conn_ready sample_world_ready by (simp add: server_idle_def service_idle_def)
  show "registered_all sample_waiting"
    by (simp add: registered_all_def sample_waiting_def sample_server_def sample_tcpserver_simps)
qed


end
