(* ===== verification/Overtaking.thy ===== *)
theory Overtaking
  imports Prelude
begin

text \<open>
  Tasks that are taken off a list by several hands: at any time one of the first \<open>n\<close> tasks left is
  finished next. The order of the list is kept up to \<open>n - 1\<close> places, and entirely where \<open>n\<close> is 1.
\<close>

text \<open>\<open>picked n xs ys zs\<close>: of the tasks \<open>xs\<close>, \<open>ys\<close> have been finished in this order, \<open>zs\<close> are left.\<close>

inductive picked :: "nat \<Rightarrow> 'a list \<Rightarrow> 'a list \<Rightarrow> 'a list \<Rightarrow> bool" for n xs where
  none: "picked n xs [] xs"
| pick: "picked n xs ys (as @ x # bs) \<Longrightarrow> length as < n \<Longrightarrow> picked n xs (ys @ [x]) (as @ bs)"

lemma picked_more: "picked n xs ys zs \<Longrightarrow> picked n (xs @ ws) ys (zs @ ws)"
proof (induction rule: picked.induct)
  case (pick ys as x bs)
  from picked.pick [OF pick.IH [unfolded append_assoc append_Cons] pick.hyps(2)] show ?case by simp
qed (rule picked.none)

lemma picked_mset: "picked n xs ys zs \<Longrightarrow> mset xs = mset ys + mset zs"
  by (induction rule: picked.induct) simp_all

text \<open>What is left behind the first \<open>n - 1\<close> tasks has not been touched.\<close>

lemma picked_drop:
  assumes "picked n xs ys zs" and "0 < n"
  shows "drop (n - 1) zs = drop (length ys + (n - 1)) xs"
  using assms
proof (induction rule: picked.induct)
  case (pick ys as x bs)
  obtain k where n: "n = Suc k" "length as \<le> k" using pick.hyps(2) by (cases n) auto
  then obtain j where k: "k = length as + j" by (auto simp: le_iff_add)
  have "drop k (as @ bs) = drop 1 (drop k (as @ x # bs))" by (simp add: k)
  also have "\<dots> = drop 1 (drop (length ys + k) xs)" using pick.IH [OF pick.prems] n(1) by simp
  finally show ?case by (simp add: n(1))
qed simp

lemma picked_take:
  assumes "picked n xs ys zs"
  shows "\<exists>zs'. picked n xs (take k ys) zs'"
  using assms
proof (induction rule: picked.induct)
  case (pick ys as x bs)
  show ?case
  proof (cases "k \<le> length ys")
    case True
    with pick.IH show ?thesis by simp
  next
    case False
    with picked.pick [OF pick.hyps] show ?thesis by auto
  qed
qed (auto intro: picked.none)

text \<open>No task overtakes more than \<open>n - 1\<close> others.\<close>

lemma picked_overtakes:
  assumes "picked n xs ys zs" and "0 < n" and "k \<le> length ys"
  shows "mset (take k ys) \<subseteq># mset (take (k + (n - 1)) xs)"
proof -
  obtain zs' where zs': "picked n xs (take k ys) zs'" using picked_take [OF assms(1)] by blast
  have "mset (take k ys) + (mset (take (n - 1) zs') + mset (drop (n - 1) zs')) = mset xs"
    using picked_mset [OF zs'] by (simp only: mset_append [symmetric] append_take_drop_id)
  also have "\<dots> = mset (take (k + (n - 1)) xs) + mset (drop (k + (n - 1)) xs)"
    by (simp only: mset_append [symmetric] append_take_drop_id)
  also have "drop (k + (n - 1)) xs = drop (n - 1) zs'"
    using picked_drop [OF zs' assms(2)] assms(3) by simp
  finally have "mset (take (k + (n - 1)) xs) = mset (take k ys) + mset (take (n - 1) zs')"
    by (simp add: ac_simps)
  then show ?thesis by simp
qed

lemma picked_one: "picked 1 xs ys zs \<Longrightarrow> xs = ys @ zs"
proof (induction rule: picked.induct)
  case (pick ys as x bs)
  then show ?case by simp
qed simp

end
