(* ===== verification/Pool_Order.thy ===== *)
theory Pool_Order
  imports Echo_Objects Overtaking
begin

text \<open>
  The order in which the tasks of the pool are begun and finished: a task that is finished is one of
  the oldest, as many as there are threads.
\<close>

definition unfinished :: "'t pool \<Rightarrow> 't list" where
  "unfinished p = fold remove1 (p_done p) (p_started p)"

text \<open>The tasks that are not finished, in the order of their submission.\<close>

definition pending :: "'t pool \<Rightarrow> 't list" where
  "pending p = unfinished p @ p_queue p"

lemma fold_remove1_append:
  "mset ds \<subseteq># mset xs \<Longrightarrow> fold remove1 ds (xs @ ys) = fold remove1 ds xs @ ys"
proof (induction ds arbitrary: xs)
  case (Cons d ds)
  then have "d \<in> set xs" "mset ds \<subseteq># mset (remove1 d xs)"
    by (auto simp: insert_subset_eq_iff dest: mset_subset_eq_insertD)
  with Cons.IH [of "remove1 d xs"] show ?case by (simp add: remove1_append)
qed simp

lemma mset_fold_remove1: "mset (fold remove1 ds xs) = mset xs - mset ds"
  by (induction ds arbitrary: xs) simp_all

lemma mset_unfinished: "task_inv p \<Longrightarrow> mset (unfinished p) = mset (running (p_threads p))"
  by (simp add: unfinished_def mset_fold_remove1 task_inv_def)

lemma mset_pending: "task_inv p \<Longrightarrow> mset (pending p) = mset (pool_tasks p)"
  by (simp add: pending_def pool_tasks_def mset_unfinished)

lemma unfinished_length:
  assumes "task_inv p"
  shows "length (unfinished p) \<le> ThreadPool_size p"
  using mset_eq_length [OF mset_unfinished [OF assms]] running_size_le [of "p_threads p"] by (simp add: ThreadPool_size_def)

lemma remove1_split:
  assumes "x \<in> set xs"
  obtains as bs where "xs = as @ x # bs" and "remove1 x xs = as @ bs" and "length as < length xs"
proof -
  obtain as bs where "xs = as @ x # bs" "x \<notin> set as" using split_list_first [OF assms] by blast
  then show ?thesis by (intro that [of as bs]) (simp_all add: remove1_append)
qed

text \<open>Only submitting a task and finishing one change them.\<close>

lemma pending_addtask [simp]: "pending (ThreadPool_addtask t p) = pending p @ [t]"
  by (simp add: pending_def unfinished_def)

lemma task_inv_addtask: "task_inv p \<Longrightarrow> task_inv (ThreadPool_addtask t p)"
  by (simp add: task_inv_def flip: append_assoc)

text \<open>Nothing is submitted and nothing finished.\<close>

lemma pending_same:
  assumes "pool_step p p'" and "p_submitted p' = p_submitted p" and "p_done p' = p_done p" and "task_inv p"
  shows "pending p' = pending p"
  using assms(1)
proof (cases rule: pool_step_cases)
  case (thread i)
  have "mset (p_done p) \<subseteq># mset (p_started p)" using assms(4) by (simp add: task_inv_def)
  with thread show ?thesis
    by cases (use assms(3) in \<open>auto simp: pending_def unfinished_def fold_remove1_append\<close>)
next
  case env
  then show ?thesis by cases (use assms(2) in \<open>auto simp: pending_def unfinished_def\<close>)
qed

lemma finish_pending:
  assumes "task_inv p" and "at p i (Running t)" and "thread_step i p p'" and "at p' i At_loop"
  obtains as bs where "pending p = as @ t # bs" and "pending p' = as @ bs" and "length as < ThreadPool_size p"
    and "p_submitted p' = p_submitted p"
proof -
  from assms(3) have p': "p' = goto i At_loop (p\<lparr>p_done := p_done p @ [t]\<rparr>)"
    by cases (use assms(2,4) in \<open>auto simp: at_def\<close>)
  have "t \<in># mset (running (p_threads p))"
    using assms(2) running_ge_nth [of i "p_threads p"] by (simp add: at_def running_task_def)
  then have "t \<in> set (unfinished p)" using mset_unfinished [OF assms(1)] by (metis in_multiset_in_set)
  then obtain as bs where "unfinished p = as @ t # bs" "remove1 t (unfinished p) = as @ bs" "length as < length (unfinished p)"
    by (rule remove1_split)
  with unfinished_length [OF assms(1)] show ?thesis
    by (intro that [of as "bs @ p_queue p"]) (simp_all add: p' pending_def unfinished_def)
qed

lemma pool_step_size: "pool_step p p' \<Longrightarrow> ThreadPool_size p' = ThreadPool_size p"
  using pool_threads_step by (simp add: ThreadPool_size_def)

end
