(* ===== verification/Decoder.thy ===== *)
theory Decoder
  imports Samples
begin

text \<open>
  A reference decoder of the wire format, a function on the bytes that have arrived: four bytes
  of length, then the message. It knows nothing of buffers, bursts or the memory behind a string.
\<close>

definition header :: "bytes \<Rightarrow> int" where
  "header s = sint (of_le4 (s ! 0) (s ! 1) (s ! 2) (s ! 3))"

definition complete :: "bytes \<Rightarrow> bool" where
  "complete s \<longleftrightarrow> 4 \<le> length s \<and> 0 \<le> header s \<and> nat (header s) + 4 \<le> length s"

function decode :: "bytes \<Rightarrow> bytes list \<times> bytes" where
  "decode s =
     (if complete s then
        (let n = nat (header s); (ms, p) = decode (drop (4 + n) s) in (take n (drop 4 s) # ms, p))
      else ([], s))"
  by auto
termination
  by (relation "measure length") (auto simp: complete_def)

declare decode.simps [simp del]

lemma decode_complete:
  "complete s \<Longrightarrow> decode s = (take (nat (header s)) (drop 4 s) # fst (decode (drop (4 + nat (header s)) s)),
    snd (decode (drop (4 + nat (header s)) s)))"
  by (subst decode.simps) (simp add: Let_def case_prod_unfold)

lemma decode_incomplete: "\<not> complete s \<Longrightarrow> decode s = ([], s)"
  by (subst decode.simps) simp

text \<open>
  The headers the server can deal with: no length is negative or so large that four more
  overflow an int. (\<open>pickmessage_any_header\<close> is about the others.)
\<close>

definition headers_ok :: "bytes \<Rightarrow> bool" where
  "headers_ok s \<longleftrightarrow> list_all frame_ok (fst (decode s)) \<and>
     (4 \<le> length (snd (decode s)) \<longrightarrow> 0 \<le> header (snd (decode s)) \<and> header (snd (decode s)) + 4 < 2 ^ 31)"

subsection \<open>Decoding is taking a stream apart\<close>

lemma header_append: "4 \<le> length s \<Longrightarrow> header (s @ d) = header s"
  by (cases s) (auto simp: header_def nth_append)

lemma complete_append:
  assumes "complete s"
  shows "complete (s @ d)" and "header (s @ d) = header s"
proof -
  show "header (s @ d) = header s" using assms by (simp add: complete_def header_append)
  then show "complete (s @ d)" using assms by (simp add: complete_def)
qed

lemma le_bytes4_of_le4: "le_bytes4 (ucast (of_le4 a b c d) :: u64) = [a, b, c, d]"
  by (auto simp: le_bytes4_def intro!: bit_word_eqI simp: bit_ucast_iff bit_drop_bit_eq bit_of_le4)

lemma size_header_of_bytes:
  assumes "0 \<le> sint (of_le4 a b c d)"
  shows "size_header (nat (sint (of_le4 a b c d))) = [a, b, c, d]"
proof -
  have "uint (of_le4 a b c d) < 2 ^ 32"
    using unsigned_less [of "of_le4 a b c d"] by simp
  then have "int (unat (of_le4 a b c d)) < 2 ^ 32" by simp
  then have "nat (sint (of_le4 a b c d)) = unat (of_le4 a b c d)"
    using assms by (cases "unat (of_le4 a b c d) < 2 ^ 31") (simp_all add: sint_as_unat)
  then have "(of_nat (nat (sint (of_le4 a b c d))) :: u64) = ucast (of_le4 a b c d)"
    by simp
  then show ?thesis by (simp only: size_header_def le_bytes4_of_le4)
qed

lemma size_header_of:
  assumes "4 \<le> length s" and "0 \<le> header s"
  shows "size_header (nat (header s)) = take 4 s"
proof -
  have "take 4 s = [s ! 0, s ! 1, s ! 2, s ! 3]"
    using assms(1) by (intro nth_equalityI) (auto simp: nth_Cons less_Suc_eq numeral_eq_Suc split: nat.splits)
  with assms(2) show ?thesis by (simp add: header_def size_header_of_bytes)
qed

lemma frame_of_complete:
  assumes "complete s"
  shows "s = frame (take (nat (header s)) (drop 4 s)) @ drop (4 + nat (header s)) s"
proof -
  let ?n = "nat (header s)"
  have "?n \<le> length s - 4" using assms unfolding complete_def by linarith
  then have "length (take ?n (drop 4 s)) = ?n" by simp
  then have "frame (take ?n (drop 4 s)) = take 4 s @ take ?n (drop 4 s)"
    using assms size_header_of [of s] by (simp add: frame_def complete_def)
  also have "\<dots> = take (4 + ?n) s" by (simp only: take_add)
  finally show ?thesis by simp
qed

text \<open>The header of at most three bytes filled up with zeros is small.\<close>

definition three_bytes :: "byte \<Rightarrow> byte \<Rightarrow> byte \<Rightarrow> int" where
  "three_bytes a b c = uint a + 256 * uint b + 65536 * uint c"

lemma three_bytes_less: "three_bytes a b c < 2 ^ 24"
proof -
  have "uint x < 256" for x :: byte using unsigned_less [of x] by simp
  from this [of a] this [of b] this [of c] show ?thesis by (simp add: three_bytes_def)
qed

lemma three_bytes_nonneg: "0 \<le> three_bytes a b c"
  by (simp add: three_bytes_def)

lemma three_bytes_frame: "nat (three_bytes a b c) + 4 < 2 ^ 31"
  using three_bytes_less [of a b c] three_bytes_nonneg [of a b c] by simp

lemma sint_three_bytes: "sint (of_le4 a b c 0) = three_bytes a b c"
proof -
  have int: "int (unat (of_le4 a b c 0)) = three_bytes a b c"
    by (simp add: unat_of_le4 three_bytes_def)
  then have "unat (of_le4 a b c 0) = nat (three_bytes a b c)" by linarith
  then have "unat (of_le4 a b c 0) < 2 ^ 31" using three_bytes_frame [of a b c] by linarith
  with int show ?thesis by (simp only: sint_as_unat if_True)
qed

lemma header_three_bytes:
  "s ! 3 = 0 \<Longrightarrow> header s = three_bytes (s ! 0) (s ! 1) (s ! 2)"
  by (simp add: header_def sint_three_bytes)

text \<open>What is left is the beginning of a frame.\<close>

lemma partial_frame:
  assumes "\<not> complete p" and "4 \<le> length p \<longrightarrow> 0 \<le> header p \<and> header p + 4 < 2 ^ 31"
  shows "\<exists>m. frame_ok m \<and> strict_prefix p (frame m)"
proof (cases "4 \<le> length p")
  case True
  let ?n = "nat (header p)"
  let ?m = "drop 4 p @ replicate (?n - (length p - 4)) 0"
  have n: "length p < ?n + 4" "0 \<le> header p" "header p + 4 < 2 ^ 31"
    using assms True by (auto simp: complete_def)
  then have len: "length ?m = ?n" using True by simp
  have "frame ?m = take 4 p @ ?m"
    unfolding frame_def len using size_header_of [OF True n(2)] by simp
  then have "frame ?m = p @ replicate (?n - (length p - 4)) 0" by simp
  moreover have "frame_ok ?m" unfolding frame_ok_def len using n(2,3) by simp
  moreover have "?n - (length p - 4) \<noteq> 0" using n(1) True by simp
  ultimately show ?thesis by (metis strict_prefixI' replicate_empty prefixI strict_prefix_def append_self_conv)
next
  case False
  let ?s = "p @ replicate (4 - length p) 0"
  have four: "length ?s = 4" using False by simp
  then have "?s ! 3 = 0" using False by (simp add: nth_append)
  then have header: "header ?s = three_bytes (?s ! 0) (?s ! 1) (?s ! 2)"
    by (simp add: header_three_bytes)
  let ?m = "replicate (nat (header ?s)) 0"
  have "frame ?m = ?s @ ?m"
    using size_header_of [of ?s] four by (simp add: frame_def header three_bytes_nonneg)
  then have "frame ?m = p @ (replicate (4 - length p) 0 @ ?m)" by simp
  moreover have "frame_ok ?m" unfolding frame_ok_def length_replicate header by (rule three_bytes_frame)
  moreover have "replicate (4 - length p) 0 @ ?m \<noteq> []" using False by simp
  ultimately show ?thesis by (metis prefixI strict_prefix_def append_self_conv)
qed

lemma decode_rest: "\<not> complete (snd (decode s))"
  by (induction s rule: decode.induct) (metis decode_complete decode_incomplete snd_conv)

lemma decode_concat: "concat (map frame (fst (decode s))) @ snd (decode s) = s"
proof (induction s rule: decode.induct)
  case (1 s)
  show ?case
  proof (cases "complete s")
    case True
    have "concat (map frame (fst (decode (drop (4 + nat (header s)) s)))) @ snd (decode (drop (4 + nat (header s)) s)) =
        drop (4 + nat (header s)) s"
      using "1.IH" [OF True refl] .
    with frame_of_complete [OF True] show ?thesis by (simp add: decode_complete [OF True])
  qed (simp add: decode_incomplete)
qed

lemma decode_stream:
  assumes "headers_ok s"
  shows "stream_of frame frame_ok s (fst (decode s)) (snd (decode s))"
  using assms partial_frame [OF decode_rest [of s]] decode_concat [of s]
  by (auto simp: stream_of_def headers_ok_def)

text \<open>And the other way round: the decoder gives back what has been framed.\<close>

lemma header_frame:
  assumes "frame_ok m"
  shows "header (frame m @ t) = int (length m)" and "complete (frame m @ t)"
proof -
  have "(frame m @ t) ! i = size_header (length m) ! i" if "i < 4" for i
    using that by (simp add: frame_def nth_append)
  then show "header (frame m @ t) = int (length m)"
    using assms size_header_len [of "length m"] by (simp add: header_def frame_ok_def)
  then show "complete (frame m @ t)" by (simp add: complete_def frame_def)
qed

lemma decode_frame:
  assumes "frame_ok m"
  shows "decode (frame m @ t) = map_prod ((#) m) id (decode t)"
  using header_frame [OF assms, of t] by (simp add: decode_complete frame_def prod_eq_iff)

lemma stream_decode:
  "stream_of frame frame_ok s ms p \<Longrightarrow> decode s = (ms, p)"
proof (induction ms arbitrary: s)
  case Nil
  then have s: "s = p" and "p = [] \<or> (\<exists>m. frame_ok m \<and> strict_prefix p (frame m))"
    by (simp_all add: stream_of_def)
  have "\<not> complete p"
  proof
    assume complete: "complete p"
    then have "p \<noteq> []" by (auto simp: complete_def)
    with \<open>p = [] \<or> _\<close> obtain m t where m: "frame_ok m" "frame m = p @ t" "t \<noteq> []"
      by (auto simp: strict_prefix_def prefix_def)
    have "header p = header (p @ t)" using complete complete_append(2) [of p t] by simp
    then have "header p = int (length m)" using header_frame(1) [OF m(1), of "[]"] m(2) by simp
    moreover have "length p < 4 + length m" using arg_cong [OF m(2), of length] m(3) by (simp add: frame_def)
    ultimately show False using complete by (simp add: complete_def)
  qed
  with s show ?case by (simp add: decode_incomplete)
next
  case (Cons m ms)
  from Cons.prems have s: "s = frame m @ (concat (map frame ms) @ p)" and m: "frame_ok m"
    and "stream_of frame frame_ok (concat (map frame ms) @ p) ms p"
    by (auto simp: stream_of_def)
  from Cons.IH [OF this(3)] show ?case unfolding s decode_frame [OF m] by simp
qed

text \<open>A stream is a beginning of the frames of messages that can be completed.\<close>

lemma stream_prefix:
  assumes "stream_of frame frame_ok s ms p"
  shows "\<exists>ms'. list_all frame_ok (ms @ ms') \<and> prefix s (concat (map frame (ms @ ms')))"
proof -
  from assms consider "p = []" | m where "frame_ok m" "strict_prefix p (frame m)"
    by (auto simp: stream_of_def)
  then show ?thesis
  proof cases
    case 1
    with assms show ?thesis by (intro exI [of _ "[]"]) (simp add: stream_of_def)
  next
    case (2 m)
    with assms show ?thesis
      by (intro exI [of _ "[m]"]) (auto simp: stream_of_def strict_prefix_def)
  qed
qed

text \<open>
  C7. The reading side computes the reference decoder. Whatever bytes arrive at a connection, in
  whatever pieces and bursts, as long as no header is negative or overflows: the messages that
  reach the workers and the bytes that stay in the buffer are those of \<open>decode\<close> on all that has
  arrived.
\<close>

theorem reads_equal_reference_decoder:
  assumes "echo_ready w" and "conn_ready c" and "b_buf (cn_inputbuffer c) = []"
    and "list_all (list_all reads_on \<circ> snd) bs" and "headers_ok (bursts_bytes bs)"
  shows "\<exists>c' w'. onmessage_bursts ctl (echo_server_call ctl evwrite tid) clock bs (c, l, w) = Some (Inr (c', l, w')) \<and>
    p_queue (es_threadpool (snd w')) =
      p_queue (es_threadpool (snd w)) @ map (request_task (cn_id c)) (fst (decode (bursts_bytes bs))) \<and>
    b_buf (cn_inputbuffer c') = snd (decode (bursts_bytes bs))"
proof -
  let ?s = "bursts_bytes bs"
  note stream = decode_stream [OF assms(5)]
  obtain ms' where ms: "list_all frame_ok (fst (decode ?s) @ ms')"
    and pre: "prefix ?s (concat (map frame (fst (decode ?s) @ ms')))"
    using stream_prefix [OF stream] by blast
  have "stream_of frame frame_ok [] (take 0 (fst (decode ?s) @ ms')) (b_buf (cn_inputbuffer c))"
    using assms(3) by (simp add: stream_of_def)
  moreover have "prefix ([] @ ?s) (concat (map frame (fst (decode ?s) @ ms')))" using pre by simp
  ultimately have "\<exists>n p. 0 + n \<le> length (fst (decode ?s) @ ms') \<and>
      stream_of frame frame_ok ([] @ ?s) (take (0 + n) (fst (decode ?s) @ ms')) p \<and>
      onmessage_bursts ctl (echo_server_call ctl evwrite tid) clock bs (c, l, w) =
        Some (Inr (received c (take n (drop 0 (fst (decode ?s) @ ms'))) p (clock w), l,
          echo_sink.take_all (cn_id c) (take n (drop 0 (fst (decode ?s) @ ms'))) w))"
    by (intro echo_sink.bursts_stream [OF assms(1,2,4)] ms) simp_all
  then obtain n p where part: "stream_of frame frame_ok ?s (take n (fst (decode ?s) @ ms')) p"
    and run: "onmessage_bursts ctl (echo_server_call ctl evwrite tid) clock bs (c, l, w) =
      Some (Inr (received c (take n (fst (decode ?s) @ ms')) p (clock w), l,
        echo_sink.take_all (cn_id c) (take n (fst (decode ?s) @ ms')) w))"
    by auto
  have eq: "take n (fst (decode ?s) @ ms') = fst (decode ?s)" "p = snd (decode ?s)"
    using wire.unique_decoding [OF part stream] by blast+
  from run [unfolded eq] show ?thesis
    by (intro exI [of _ "received c (fst (decode ?s)) (snd (decode ?s)) (clock w)"]
        exI [of _ "echo_sink.take_all (cn_id c) (fst (decode ?s)) w"]) (simp add: take_all_queue)
qed

lemma reads_equal_reference_decoder_witness:
  "\<exists>c' w'. onmessage_bursts interest_ctl (echo_server_call interest_ctl id 100) clock
      (sample_reads [[2, 0, 0], [0, 104, 105, 9, 0], [0, 0, 1]]) (sample_conn, sample_loop, sample_world) =
      Some (Inr (c', sample_loop, w')) \<and>
    p_queue (es_threadpool (snd w')) = [request_task 0 [104, 105]] \<and>
    b_buf (cn_inputbuffer c') = [9, 0, 0, 0, 1]"
proof -
  have bytes: "bursts_bytes (sample_reads [[2, 0, 0], [0, 104, 105, 9, 0], [0, 0, 1]]) =
      [2, 0, 0, 0, 104, 105, 9, 0, 0, 0, 1]"
    by (simp add: sample_reads_def bursts_bytes_def reads_bytes_def)
  have decode: "decode [2, 0, 0, 0, 104, 105, 9, 0, 0, 0, 1] = ([[104, 105]], [9, 0, 0, 0, 1])"
    by (simp add: decode_complete decode_incomplete complete_def header_def of_le4_def)
  show ?thesis
    using reads_equal_reference_decoder [OF sample_world_ready sample_conn_ready,
        of "sample_reads [[2, 0, 0], [0, 104, 105, 9, 0], [0, 0, 1]]" interest_ctl id 100 sample_loop]
    by (simp add: bytes decode headers_ok_def header_def of_le4_def frame_ok_def sample_reads_def reads_on_def)
qed

end
