(* ===== verification/Service_Spec.thy ===== *)
theory Service_Spec
  imports Decoder Overtaking
begin

text \<open>
  What the server promises to one connection, as a transition system of its own: requests are taken
  off the received bytes, worked on by a number of workers, answered, and the framed answers are sent. It knows
  neither threads nor event loops nor objects.
\<close>

subsection \<open>The service of one connection\<close>

datatype service_state = Unborn | Open | Closed | Gone

record service =
  sr_state :: service_state
  sr_received :: bytes
  sr_input :: bytes               \<comment> \<open>received, but not taken yet\<close>
  sr_requests :: "bytes list"     \<comment> \<open>taken so far\<close>
  sr_workers :: nat
  sr_working :: "bytes list"      \<comment> \<open>taken, but not answered yet\<close>
  sr_replies :: "bytes list"      \<comment> \<open>answered, but not framed yet\<close>
  sr_output :: bytes              \<comment> \<open>framed, but not sent yet\<close>
  sr_sent :: bytes

definition existing :: "service \<Rightarrow> bool" where
  "existing v \<longleftrightarrow> sr_state v = Open \<or> sr_state v = Closed"

text \<open>The text a request has for the workers, and the answer to it.\<close>

definition work_text :: "bytes \<Rightarrow> bytes" where
  "work_text m = lit ''WORK thread '' @ m"

definition answer :: "bytes \<Rightarrow> bytes" where
  "answer m = lit ''reply:'' @ m"

text \<open>
  \<open>take\<close>: what has been received is decoded, if its headers can be; \<open>drop\<close>: a connection is closed,
  \<open>d\<close> has been received but is not looked at; \<open>work\<close>: the requests are begun in their order, so that the one
  that is answered next is one of the oldest, as many as there are workers; an answer to a closed connection may be
  dropped, and one with a NUL in it spoiled; \<open>reply\<close>: the first answers are framed; \<open>free\<close>: what has not been sent is lost.
\<close>

inductive service_step :: "service \<Rightarrow> service \<Rightarrow> bool" where
  connect: "sr_state v = Unborn \<Longrightarrow> service_step v (v\<lparr>sr_state := Open\<rparr>)"
| take: "existing v \<Longrightarrow> headers_ok (sr_input v @ d) \<longrightarrow> (ms, p) = map_prod (map work_text) id (decode (sr_input v @ d)) \<Longrightarrow>
    service_step v (v\<lparr>sr_received := sr_received v @ d, sr_input := p, sr_requests := sr_requests v @ ms,
      sr_working := sr_working v @ ms\<rparr>)"
| close: "existing v \<Longrightarrow> 
    service_step v (v\<lparr>sr_state := Closed, sr_received := sr_received v @ d, sr_input := sr_input v @ d\<rparr>)"
| work: "existing v \<Longrightarrow> sr_working v = as @ m # bs \<Longrightarrow> length as < sr_workers v \<Longrightarrow>
    sr_state v = Open \<longrightarrow> nul_free m \<longrightarrow> kept \<Longrightarrow>
    service_step v (v\<lparr>sr_working := as @ bs, sr_replies := sr_replies v @ (if kept then [answer m] else [])\<rparr>)"
| reply: "existing v \<Longrightarrow> sr_replies v = rs @ rs' \<Longrightarrow>
    service_step v (v\<lparr>sr_replies := rs', sr_output := sr_output v @ concat (map frame rs)\<rparr>)"
| send: "existing v \<Longrightarrow>
    service_step v (v\<lparr>sr_output := drop n (sr_output v), sr_sent := sr_sent v @ take n (sr_output v)\<rparr>)"
| free: "existing v \<Longrightarrow> service_step v (v\<lparr>sr_state := Gone, sr_input := [], sr_output := []\<rparr>)"

inductive_cases service_step_cases: "service_step v v'"

definition service_init :: "service \<Rightarrow> bool" where
  "service_init v \<longleftrightarrow> v = \<lparr>sr_state = Unborn, sr_received = [], sr_input = [], sr_requests = [], sr_workers = sr_workers v,
     sr_working = [], sr_replies = [], sr_output = [], sr_sent = []\<rparr>"

subsection \<open>Decoding in pieces\<close>

lemma decode_append:
  "decode (s @ d) = map_prod ((@) (fst (decode s))) id (decode (snd (decode s) @ d))"
proof (induction s rule: decode.induct)
  case (1 s)
  show ?case
  proof (cases "complete s")
    case True
    let ?n = "nat (header s)"
    have n: "4 + ?n \<le> length s" using True unfolding complete_def by linarith
    have "take ?n (drop 4 (s @ d)) = take ?n (drop 4 s)" "drop (4 + ?n) (s @ d) = drop (4 + ?n) s @ d"
      using n by simp_all
    with "1.IH" [OF True refl] show ?thesis
      by (simp add: decode_complete [OF True] decode_complete [OF complete_append(1) [OF True]] complete_append(2) [OF True]
          prod_eq_iff)
  qed (simp add: decode_incomplete prod_eq_iff)
qed

lemma frame_ok_header:
  assumes "complete p" and "frame_ok (take (nat (header p)) (drop 4 p))"
  shows "0 \<le> header p \<and> header p + 4 < 2 ^ 31"
proof -
  have "nat (header p) \<le> length p - 4" using assms(1) unfolding complete_def by linarith
  with assms show ?thesis by (simp add: frame_ok_def complete_def)
qed

lemma headers_ok_append:
  assumes "headers_ok (s @ d)"
  shows "headers_ok s" and "headers_ok (snd (decode s) @ d)"
proof -
  let ?p = "snd (decode s)"
  show rest: "headers_ok (?p @ d)" using assms by (simp add: headers_ok_def decode_append [of s d])
  have "0 \<le> header ?p \<and> header ?p + 4 < 2 ^ 31" if len: "4 \<le> length ?p"
  proof -
    note same = header_append [OF len, of d]
    show ?thesis
    proof (cases "complete (?p @ d)")
      case True
      then have "frame_ok (take (nat (header (?p @ d))) (drop 4 (?p @ d)))"
        using rest by (simp add: headers_ok_def decode_complete)
      from frame_ok_header [OF True this] same show ?thesis by simp
    next
      case False
      with rest len same show ?thesis by (simp add: headers_ok_def decode_incomplete)
    qed
  qed
  then show "headers_ok s" using assms by (simp add: headers_ok_def decode_append [of s d])
qed

subsection \<open>The accounts\<close>

text \<open>
  Nothing has happened before the connection is made; every byte that leaves belongs to the frame of an answer
  to a request, each request is answered at most once. While the connection is open and no request has a NUL in it, every
  request is accounted for, and the order is that of as many hands as there are workers.
\<close>

definition accounts :: "service \<Rightarrow> bytes list \<Rightarrow> bool" where
  "accounts v rs \<longleftrightarrow>
     mset rs + mset (sr_replies v) + mset (map answer (sr_working v)) \<subseteq># mset (map answer (sr_requests v)) \<and>
     (sr_state v = Open \<longrightarrow> list_all nul_free (sr_requests v) \<longrightarrow>
       picked (sr_workers v) (map answer (sr_requests v)) (rs @ sr_replies v) (map answer (sr_working v))) \<and>
     (existing v \<longrightarrow> sr_sent v @ sr_output v = concat (map frame rs)) \<and>
     prefix (sr_sent v) (concat (map frame rs))"

definition decoded :: "service \<Rightarrow> bool" where
  "decoded v \<longleftrightarrow> (sr_state v = Open \<longrightarrow> headers_ok (sr_received v) \<longrightarrow>
     map_prod (map work_text) id (decode (sr_received v)) = (sr_requests v, sr_input v))"

definition service_inv :: "service \<Rightarrow> bool" where
  "service_inv v \<longleftrightarrow> (\<exists>rs. accounts v rs) \<and> decoded v \<and> (sr_state v = Unborn \<longrightarrow> service_init v)"

lemma service_initD:
  assumes "service_init v"
  shows "sr_state v = Unborn" "sr_received v = []" "sr_input v = []" "sr_requests v = []" "sr_working v = []"
    "sr_replies v = []" "sr_output v = []" "sr_sent v = []"
  using assms by (cases v; simp add: service_init_def)+

lemma service_init_inv: "service_init v \<Longrightarrow> service_inv v"
  by (auto simp: service_initD service_inv_def accounts_def decoded_def existing_def decode_incomplete complete_def)

lemma accounts_step:
  assumes "service_step v v'" and "accounts v rs" and "sr_state v = Unborn \<longrightarrow> service_init v"
  shows "\<exists>rs'. accounts v' rs'"
  using assms(1)
proof cases
  case connect
  with assms(3) show ?thesis
    by (intro exI [of _ "[]"]) (auto simp: accounts_def service_initD existing_def intro: picked.none)
next
  case (take d ms p)
  have "mset rs + mset (sr_replies v) + mset (map answer (sr_working v)) + mset (map answer ms) \<subseteq>#
      mset (map answer (sr_requests v)) + mset (map answer ms)"
    using assms(2) by (simp add: accounts_def)
  with take assms(2) show ?thesis
    by (intro exI [of _ rs]) (auto simp: accounts_def existing_def union_assoc intro: picked_more)
next
  case (close d)
  with assms(2) show ?thesis by (intro exI [of _ rs]) (auto simp: accounts_def existing_def)
next
  case (work as m bs kept)
  have all: "mset rs + mset (sr_replies v) + mset (map answer (as @ m # bs)) \<subseteq># mset (map answer (sr_requests v))"
    using assms(2) by (simp add: accounts_def work)
  show ?thesis
  proof (cases kept)
    case True
    have "picked (sr_workers v) (map answer (sr_requests v)) ((rs @ sr_replies v) @ [answer m]) (map answer as @ map answer bs)"
      if "sr_state v = Open" "list_all nul_free (sr_requests v)"
      using assms(2) that work(3,4) by (intro picked.pick) (simp_all add: accounts_def)
    with True work assms(2) all show ?thesis by (intro exI [of _ rs]) (auto simp: accounts_def existing_def)
  next
    case False
    have "answer m \<in># mset (map answer (sr_requests v))" by (rule mset_subset_eqD [OF all]) simp
    then have "m \<in> set (sr_requests v)" by (auto simp: answer_def)
    with False work(5) have "sr_state v = Open \<longrightarrow> \<not> list_all nul_free (sr_requests v)" by (auto simp: list_all_iff)
    moreover have "mset rs + mset (sr_replies v) + mset (map answer (as @ bs)) \<subseteq># mset (map answer (sr_requests v))"
      by (rule subset_mset.order_trans [OF _ all]) simp
    ultimately show ?thesis
      using False work assms(2) by (intro exI [of _ rs]) (auto simp: accounts_def existing_def)
  qed
next
  case (reply bs)
  with assms(2) show ?thesis
    by (intro exI [of _ "rs @ bs"]) (auto simp: accounts_def existing_def union_assoc intro: prefix_prefix)
next
  case (send n)
  have "prefix (sr_sent v @ take n (sr_output v)) (sr_sent v @ sr_output v)"
    by (simp add: take_is_prefix)
  with send assms(2) show ?thesis by (intro exI [of _ rs]) (auto simp: accounts_def existing_def)
next
  case free
  with assms(2) show ?thesis by (intro exI [of _ rs]) (auto simp: accounts_def existing_def)
qed

lemma decoded_step:
  assumes "service_step v v'" and "decoded v" and "sr_state v = Unborn \<longrightarrow> service_init v"
  shows "decoded v'"
  using assms(1)
proof cases
  case connect
  with assms(3) show ?thesis by (auto simp: decoded_def service_initD decode_incomplete complete_def)
next
  case (take d ms p)
  show ?thesis
    unfolding decoded_def
  proof (intro impI)
    assume "sr_state v' = Open" and ok: "headers_ok (sr_received v')"
    then have "map_prod (map work_text) id (decode (sr_received v)) = (sr_requests v, sr_input v)"
      using assms(2) take headers_ok_append(1) [of "sr_received v" d] by (simp add: decoded_def)
    moreover have "(ms, p) = map_prod (map work_text) id (decode (sr_input v @ d))"
      using take ok calculation headers_ok_append(2) [of "sr_received v" d] by (simp add: prod_eq_iff)
    ultimately show "map_prod (map work_text) id (decode (sr_received v')) = (sr_requests v', sr_input v')"
      using take by (simp add: decode_append [of "sr_received v"] prod_eq_iff)
  qed
qed (use assms(2) in \<open>auto simp: decoded_def\<close>)

lemma service_inv_step:
  assumes "service_inv v" and "service_step v v'"
  shows "service_inv v'"
proof -
  have "sr_state v' \<noteq> Unborn" using assms(2) by (cases rule: service_step_cases) (auto simp: existing_def)
  with assms accounts_step [OF assms(2)] decoded_step [OF assms(2)] show ?thesis
    by (auto simp: service_inv_def)
qed

interpretation service: invariant_system service_init service_step service_inv
  by unfold_locales (blast intro: service_init_inv service_inv_step)+

end
