(* ===== verification/Service_Effects.thy ===== *)
theory Service_Effects
  imports Pool_Order Service_Spec
begin

text \<open>
  What the handlers of the echo server do to the requests and replies of a connection: the handlers that read and
  close hand over requests at most, writing takes bytes off the output buffer, the tasks of a loop
  append frames to it.
\<close>

subsection \<open>Handing over requests\<close>

definition add_tasks :: "worker_task list \<Rightarrow> echoserver \<Rightarrow> echoserver" where
  "add_tasks ts es = es\<lparr>es_threadpool := foldl (\<lambda>p t. ThreadPool_addtask t p) (es_threadpool es) ts\<rparr>"

lemma add_tasks_simps [simp]:
  "add_tasks [] es = es" "add_tasks ts' (add_tasks ts es) = add_tasks (ts @ ts') es"
  by (simp_all add: add_tasks_def)

lemma add_tasks_pool [simp]:
  "p_submitted (es_threadpool (add_tasks ts es)) = p_submitted (es_threadpool es) @ ts"
  "p_queue (es_threadpool (add_tasks ts es)) = p_queue (es_threadpool es) @ ts"
  "pending (es_threadpool (add_tasks ts es)) = pending (es_threadpool es) @ ts"
  "p_threads (es_threadpool (add_tasks ts es)) = p_threads (es_threadpool es)"
  "ThreadPool_size (es_threadpool (add_tasks ts es)) = ThreadPool_size (es_threadpool es)"
  unfolding add_tasks_def
  by (induction ts rule: rev_induct) (simp_all add: ThreadPool_size_def)

lemma add_tasks_inv: "task_inv (es_threadpool es) \<Longrightarrow> task_inv (es_threadpool (add_tasks ts es))"
  unfolding add_tasks_def by (induction ts rule: rev_induct) (simp_all add: task_inv_addtask)

text \<open>The connection is the same for its peer and for the server.\<close>

definition same_service :: "connection \<Rightarrow> connection \<Rightarrow> bool" where
  "same_service c c' \<longleftrightarrow>
     cn_id c' = cn_id c \<and> cn_loop c' = cn_loop c \<and> cn_owned c' = cn_owned c \<and>
     cn_onmessagecallback c' = cn_onmessagecallback c \<and> cn_closecallback c' = cn_closecallback c \<and>
     cn_errorcallback c' = cn_errorcallback c \<and> cn_sendcompletecallback c' = cn_sendcompletecallback c \<and>
     b_sep (cn_inputbuffer c') = b_sep (cn_inputbuffer c) \<and> b_sep (cn_outputbuffer c') = b_sep (cn_outputbuffer c) \<and>
     (cn_disconnect c \<longrightarrow> cn_disconnect c')"

lemma same_service_refl [simp]: "same_service c c"
  by (simp add: same_service_def)

lemma same_service_trans: "same_service c c' \<Longrightarrow> same_service c' c'' \<Longrightarrow> same_service c c''"
  by (simp add: same_service_def)

definition workers :: "echoserver \<Rightarrow> bool" where
  "workers es \<longleftrightarrow> ThreadPool_size (es_threadpool es) \<noteq> 0"

lemma workers_add_tasks [simp]: "workers (add_tasks ts es) \<longleftrightarrow> workers es"
  by (simp add: workers_def)

definition takes_requests :: "echoserver world cstate \<Rightarrow> echoserver world cstate \<Rightarrow> bool" where
  "takes_requests s s' \<longleftrightarrow>
     (case (s, s') of ((c, l, ts, es), (c', l', ts', es')) \<Rightarrow> workers es \<longrightarrow>
        same_service c c' \<and> conn_out c' = conn_out c \<and> el_taskqueue l' = el_taskqueue l \<and>
        ts'\<lparr>ts_conns := ts_conns ts\<rparr> = ts \<and>
        (\<exists>ms. es' = add_tasks (map (EchoServer_OnMessage_task (cn_id c)) ms) es))"

lemma takes_requests_refl [simp]: "takes_requests s s"
  by (auto simp: takes_requests_def split: prod.splits intro: exI [of _ "[]"])

lemma takes_requests_trans:
  assumes "takes_requests s s'" and "takes_requests s' s''"
  shows "takes_requests s s''"
proof -
  obtain c l ts es c' l' ts' es' c'' l'' ts'' es''
    where s: "s = (c, l, ts, es)" "s' = (c', l', ts', es')" "s'' = (c'', l'', ts'', es'')"
    by (cases s; cases s'; cases s'')
  show ?thesis
    unfolding s takes_requests_def prod.case
  proof (intro impI)
    assume w: "workers es"
    then obtain ms where 1: "same_service c c'" "conn_out c' = conn_out c" "el_taskqueue l' = el_taskqueue l"
      "ts'\<lparr>ts_conns := ts_conns ts\<rparr> = ts" and es': "es' = add_tasks (map (EchoServer_OnMessage_task (cn_id c)) ms) es"
      using assms(1) by (auto simp: s takes_requests_def)
    moreover obtain ms' where 2: "same_service c' c''" "conn_out c'' = conn_out c'" "el_taskqueue l'' = el_taskqueue l'"
      "ts''\<lparr>ts_conns := ts_conns ts'\<rparr> = ts'" and "es'' = add_tasks (map (EchoServer_OnMessage_task (cn_id c')) ms') es'"
      using assms(2) w es' by (auto simp: s takes_requests_def)
    moreover have "cn_id c' = cn_id c" using 1(1) by (simp add: same_service_def)
    moreover have "ts''\<lparr>ts_conns := ts_conns ts\<rparr> = ts" using 1(4) 2(4) by (cases ts; cases ts'; cases ts'') simp
    ultimately show "same_service c c'' \<and> conn_out c'' = conn_out c \<and> el_taskqueue l'' = el_taskqueue l \<and>
        ts''\<lparr>ts_conns := ts_conns ts\<rparr> = ts \<and>
        (\<exists>ms. es'' = add_tasks (map (EchoServer_OnMessage_task (cn_id c)) ms) es)"
      by (auto intro: same_service_trans exI [of _ "ms @ ms'"])
  qed
qed

lemma on_channel_takes: "on_channel op s = Inr s' \<Longrightarrow> takes_requests s s'"
  by (cases s) (auto simp: on_channel_def bind_res_eq_Inr takes_requests_def same_service_def conn_out_def
    intro: exI [of _ "[]"])

lemma takes_request:
  "es' = add_tasks [EchoServer_OnMessage_task (cn_id c) m] es \<Longrightarrow> takes_requests (c, l, ts, es) (c, l, ts, es')"
  by (auto simp: takes_requests_def intro: exI [of _ "[m]"])

lemma echo_call_takes:
  assumes "echo_call ctl evwrite tid h m s = Inr (m', s')"
  shows "takes_requests s s'"
proof (cases h)
  case Cb_HandleMessage
  obtain c l ts es where s: "s = (c, l, ts, es)" by (cases s)
  show ?thesis
  proof (cases "workers es")
    case True
    with assms Cb_HandleMessage show ?thesis
      by (auto simp: s EchoServer_HandleMessage_def Let_def workers_def add_tasks_def intro: takes_request)
  qed (auto simp: s takes_requests_def split: prod.splits)
qed (use assms in auto)

lemma call_handler_takes: "call_handler (echo_call ctl evwrite tid) f m s = Inr (m', s') \<Longrightarrow> takes_requests s s'"
  by (auto simp: call_handler_def split: option.splits dest: echo_call_takes)

lemma erase_conn_takes: "takes_requests (c, l, w) (c, l, erase_conn fd w)"
  by (cases w) (auto simp: takes_requests_def erase_conn_def intro: exI [of _ "[]"])

lemma server_call_takes:
  assumes "echo_server_call ctl evwrite tid cb m s = Inr (m', s')"
  shows "takes_requests s s'"
  using assms
  by (cases cb; cases s)
    (auto simp: TcpServer_closeconnection_def TcpServer_errorconnection_def TcpServer_onmessage_def
      TcpServer_sendcomplete_def bind_res_eq_Inr map_sum_def split: sum.splits
      dest!: call_handler_takes intro: takes_requests_trans erase_conn_takes)

lemma call_server_takes:
  "call_server (echo_server_call ctl evwrite tid) f m s = Inr (m', s') \<Longrightarrow> takes_requests s s'"
  by (auto simp: call_server_def split: if_splits option.splits dest: server_call_takes)

interpretation echo_handlers: handler_relation ctl "echo_server_call ctl evwrite tid" takes_requests
  for ctl evwrite tid
proof
  show "takes_requests s s''" if "takes_requests s s'" "takes_requests s' s''" for s s' s''
    using that by (rule takes_requests_trans)
  show "takes_requests s s'" if "on_channel (Channel_remove ctl) s = Inr s'" for s s'
    using that by (rule on_channel_takes)
  show "takes_requests s s'"
    if "call_server (echo_server_call ctl evwrite tid) f m s = Inr (m', s')" for s f m m' s'
    using that by (rule call_server_takes)
qed (auto simp: takes_requests_def same_service_def conn_out_def split: prod.splits intro: exI [of _ "[]"])

subsection \<open>Writing\<close>

lemma erase_front: "Buffer_erase 0 n b = Inr (b\<lparr>b_buf := drop n (b_buf b)\<rparr>)"
  by (simp add: Buffer_erase_def str_erase_def)

lemma writecallback_takes:
  assumes "Connection_writecallback ctl (echo_server_call ctl evwrite tid) n (c, l, w) = Inr s'"
  shows "takes_requests (c\<lparr>cn_outputbuffer := (cn_outputbuffer c)\<lparr>b_buf := drop (nat n) (conn_out c)\<rparr>\<rparr>, l, w) s'"
proof -
  let ?c = "c\<lparr>cn_outputbuffer := (cn_outputbuffer c)\<lparr>b_buf := drop (nat n) (conn_out c)\<rparr>\<rparr>"
  have "(if 0 < n then Buffer_erase 0 (nat n) (cn_outputbuffer c) else Inr (cn_outputbuffer c)) =
      Inr ((cn_outputbuffer c)\<lparr>b_buf := drop (nat n) (conn_out c)\<rparr>)"
    by (simp add: erase_front conn_out_def)
  with assms have "(if Buffer_size (cn_outputbuffer ?c) = 0 then
        bind_res (on_channel (Channel_disablewriting ctl) (?c, l, w)) (\<lambda>s.
        bind_res (call_server (echo_server_call ctl evwrite tid) (cn_sendcompletecallback (fst s)) [] s) (\<lambda>(_, s). Inr s))
      else Inr (?c, l, w)) = Inr s'"
    by (simp add: Connection_writecallback_def Let_def)
  then show ?thesis
    by (auto simp: bind_res_eq_Inr split: if_splits
        intro: takes_requests_trans dest!: on_channel_takes call_server_takes)
qed

subsection \<open>The workers\<close>

text \<open>The text of a request and of a reply.\<close>

fun task_text :: "worker_task \<Rightarrow> bytes" where
  "task_text (EchoServer_OnMessage_task cid m) = m"

fun task_to :: "task \<Rightarrow> nat" where
  "task_to (Task_sendinloop cid copy n) = cid"

fun task_reply :: "task \<Rightarrow> bytes" where
  "task_reply (Task_sendinloop cid copy n) = take n copy"

fun task_whole :: "task \<Rightarrow> bool" where
  "task_whole (Task_sendinloop cid copy n) \<longleftrightarrow> n \<le> length copy"

text \<open>A copy made by \<^verbatim>\<open>strdup\<close> is the whole reply, or too short.\<close>

lemma strdup_reply:
  assumes "strdup (Ptr (str_data m) k) = Inr copy" and "length m \<le> length (region copy)"
  shows "take (length m) (region copy) = m"
proof -
  let ?p = "\<lambda>b. b \<noteq> 0" and ?s = "m @ [0]"
  let ?n = "length (takeWhile ?p ?s)"
  have "?n < length ?s" by (induction m) auto
  moreover from this have "?s ! ?n = 0" using nth_length_takeWhile [of ?p ?s] by simp
  ultimately have "take (Suc ?n) ?s = takeWhile ?p ?s @ [0]"
    by (simp only: take_Suc_conv_app_nth flip: takeWhile_eq_take)
  moreover have "region copy = takeWhile ?p ?s @ [0]"
    using assms(1) by (auto simp: strdup_def str_data_def)
  ultimately have copy: "region copy = take (Suc ?n) ?s" by simp
  with assms(2) have "length m \<le> Suc ?n" by simp
  then show ?thesis unfolding copy by (simp add: min_def)
qed

text \<open>A worker queues the answer for the loop, or does nothing for a closed connection.\<close>

definition queues_answer :: "bytes \<Rightarrow> nat \<Rightarrow> task \<Rightarrow> bool" where
  "queues_answer m cid r \<longleftrightarrow> task_to r = cid \<and> (task_whole r \<longrightarrow> task_reply r = answer m) \<and> (nul_free m \<longrightarrow> task_whole r)"

lemma worker_exec_effect:
  assumes "worker_exec ctl evwrite tid t (c, l, w) = Inr s'"
  shows "\<exists>l' rs. s' = (c, l', w) \<and> el_taskqueue l' = el_taskqueue l @ rs \<and>
    (if cn_disconnect c then rs = [] else \<exists>r. rs = [r] \<and> queues_answer (task_text t) (cn_id c) r)"
proof -
  obtain cid m where t: "t = EchoServer_OnMessage_task cid m" by (cases t)
  let ?m = "answer m"
  have send: "Connection_send ctl evwrite tid (Ptr (str_data ?m) False) (length ?m) (c, l, w) = Inr s'"
    using assms by (auto simp: t EchoServer_OnMessage_def Let_def bind_res_eq_Inr map_sum_def answer_def split: sum.splits)
  show ?thesis
  proof (cases "cn_disconnect c")
    case False
    have "\<not> EventLoop_isinloopthread tid l"
      using send False by (auto simp: Connection_send_def Connection_sendinloop_def bind_res_eq_Inr free_def)
    with send False obtain copy where copy: "strdup (Ptr (str_data ?m) False) = Inr copy"
      and s': "s' = (c, EventLoop_queueinloop evwrite (Task_sendinloop (cn_id c) (region copy) (length ?m)) l, w)"
      by (auto simp: Connection_send_def bind_res_eq_Inr)
    let ?r = "Task_sendinloop (cn_id c) (region copy) (length ?m)"
    have "task_whole ?r" if "nul_free m"
    proof -
      have "nul_free ?m" using that by (simp add: nul_free_def answer_def lit_def)
      with copy have "region copy = str_data ?m" by (auto simp: strdup_nul_free)
      then show ?thesis by (simp add: str_data_def)
    qed
    with strdup_reply [OF copy] have "queues_answer (task_text t) (cn_id c) ?r"
      by (simp add: queues_answer_def t)
    with False s' show ?thesis by simp
  qed (use send in \<open>auto simp: Connection_send_def\<close>)
qed

subsection \<open>The tasks of a loop\<close>

lemma sendinloop_effect:
  assumes "Connection_sendinloop ctl data n (c, l, w) = Inr (c', l', w')" and "b_sep (cn_outputbuffer c) = 1"
  shows "n \<le> length (region data) \<and> same_service c c' \<and> conn_out c' = conn_out c @ frame (take n (region data)) \<and>
    b_buf (cn_inputbuffer c') = b_buf (cn_inputbuffer c) \<and> cn_disconnect c' = cn_disconnect c \<and>
    el_taskqueue l' = el_taskqueue l"
  using assms
  by (auto simp: Connection_sendinloop_def bind_res_eq_Inr Buffer_appendwithsep_def str_append_def on_channel_def
      same_service_def conn_out_def frame_def split: if_splits)

text \<open>The replies in a list of tasks that are for one connection.\<close>

definition replies_for :: "nat \<Rightarrow> task list \<Rightarrow> bytes list" where
  "replies_for cid ts = map task_reply (filter (\<lambda>t. task_to t = cid \<and> task_whole t) ts)"

lemma replies_for_simps [simp]:
  "replies_for cid [] = []"
  "replies_for cid (t # ts) = (if task_to t = cid \<and> task_whole t then [task_reply t] else []) @ replies_for cid ts"
  "replies_for cid (ts @ ts') = replies_for cid ts @ replies_for cid ts'"
  by (simp_all add: replies_for_def)

text \<open>Every connection gets the frames of its replies.\<close>

definition gets_replies :: "bytes list \<Rightarrow> connection option \<Rightarrow> connection option \<Rightarrow> bool" where
  "gets_replies rs o1 o2 \<longleftrightarrow>
     (case o1 of
        None \<Rightarrow> o2 = None \<and> rs = []
      | Some c \<Rightarrow> \<exists>c'. o2 = Some c' \<and> same_service c c' \<and> conn_out c' = conn_out c @ concat (map frame rs) \<and>
          b_buf (cn_inputbuffer c') = b_buf (cn_inputbuffer c) \<and> cn_disconnect c' = cn_disconnect c)"

definition frames_out :: "heap \<Rightarrow> bool" where
  "frames_out h \<longleftrightarrow> (\<forall>cid c. h cid = Some c \<longrightarrow> b_sep (cn_outputbuffer c) = 1)"

lemma gets_replies_refl [simp]: "gets_replies [] x x"
  by (auto simp: gets_replies_def split: option.splits)

lemma gets_replies_trans:
  "gets_replies rs x y \<Longrightarrow> gets_replies rs' y z \<Longrightarrow> gets_replies (rs @ rs') x z"
  by (auto simp: gets_replies_def split: option.splits intro: same_service_trans)

lemma loop_exec_effect:
  assumes "loop_exec ctl t (l, h) = Inr (l', h')" and "frames_out h"
  shows "el_taskqueue l' = el_taskqueue l \<and> frames_out h' \<and> gets_replies (replies_for cid [t]) (h cid) (h' cid)"
proof -
  obtain i copy n where t: "t = Task_sendinloop i copy n" by (cases t)
  obtain c c' where c: "h i = Some c" and h': "h' = h(i \<mapsto> c')"
    and send: "Connection_sendinloop ctl (Ptr copy True) n (c, l, ()) = Inr (c', l', ())"
    using assms(1) by (auto simp: t task_sendinloop_def bind_res_eq_Inr split: option.splits)
  have sep: "b_sep (cn_outputbuffer c) = 1" using assms(2) c by (simp add: frames_out_def)
  from sendinloop_effect [OF send sep] c assms(2) show ?thesis
    by (auto simp: t h' frames_out_def gets_replies_def same_service_def split: option.splits)
qed

lemma exec_all_effect:
  "exec_all (loop_exec ctl) ts (l, h) = Inr (l', h') \<Longrightarrow> frames_out h \<Longrightarrow>
    el_taskqueue l' = el_taskqueue l \<and> frames_out h' \<and> gets_replies (replies_for cid ts) (h cid) (h' cid)"
proof (induction ts arbitrary: l h)
  case (Cons t ts)
  obtain l1 h1 where one: "loop_exec ctl t (l, h) = Inr (l1, h1)"
    and rest: "exec_all (loop_exec ctl) ts (l1, h1) = Inr (l', h')"
    using Cons.prems(1) by (auto simp: bind_res_eq_Inr)
  note eff = loop_exec_effect [OF one Cons.prems(2), of cid]
  then have IH: "el_taskqueue l' = el_taskqueue l1 \<and> frames_out h' \<and> gets_replies (replies_for cid ts) (h1 cid) (h' cid)"
    using Cons.IH [OF rest] by blast
  have "gets_replies (replies_for cid [t] @ replies_for cid ts) (h cid) (h' cid)"
    using eff IH by (blast intro: gets_replies_trans)
  moreover have "replies_for cid (t # ts) = replies_for cid [t] @ replies_for cid ts" by simp
  ultimately show ?case using eff IH by (simp only: simp_thms)
qed simp

lemma handlewakeup_effect:
  assumes "EventLoop_handlewakeup evread (loop_exec ctl) (l, h) = Some (Inr (l', h'))" and "frames_out h"
  shows "el_taskqueue l' = [] \<and> frames_out h' \<and> gets_replies (replies_for cid (el_taskqueue l)) (h cid) (h' cid)"
proof -
  have free: "\<not> el_locked l" using assms(1) by (auto simp: EventLoop_handlewakeup_def Let_def split: if_splits)
  let ?l = "l\<lparr>el_wakecount := evread (el_wakecount l), el_locked := True\<rparr>"
  obtain l1 where "exec_all (loop_exec ctl) (el_taskqueue l) (?l, h) = Inr (l1, h')"
    and l': "l' = l1\<lparr>el_taskqueue := [], el_locked := False\<rparr>"
    using assms(1) free
    by (cases "exec_all (loop_exec ctl) (el_taskqueue l) (?l, h)") (auto simp: loop_tasks.handlewakeup_runs)
  from exec_all_effect [OF this(1) assms(2), of cid] show ?thesis by (simp add: l')
qed

subsection \<open>Reading and closing\<close>

text \<open>A connection and a server with the callbacks that the constructors set.\<close>

definition serving :: "connection \<Rightarrow> bool" where
  "serving c \<longleftrightarrow> conn_ready c \<and> b_sep (cn_outputbuffer c) = 1 \<and> cn_closecallback c = Some Cb_closeconnection \<and>
     cn_errorcallback c = Some Cb_errorconnection \<and> cn_sendcompletecallback c = Some Cb_sendcomplete"

definition handlers_set :: "tcpserver \<Rightarrow> bool" where
  "handlers_set ts \<longleftrightarrow> ts_newconnectioncb ts = Some Cb_HandleNewConnection \<and>
     ts_closeconnectioncb ts = Some Cb_HandleClose \<and> ts_errorconnectioncb ts = Some Cb_HandleError \<and>
     ts_onmessagecb ts = Some Cb_HandleMessage \<and> ts_sendcompletecb ts = Some Cb_HandleSendComplete"

lemma serving_same: "same_service c c' \<Longrightarrow> serving c \<Longrightarrow> serving c'"
  by (simp add: same_service_def serving_def conn_ready_def)

lemma handlers_ready: "handlers_set ts \<Longrightarrow> workers es \<Longrightarrow> echo_ready (ts, es)"
  by (simp add: handlers_set_def echo_ready_def workers_def)

lemma handlers_set_conns: "ts'\<lparr>ts_conns := ts_conns ts\<rparr> = ts \<Longrightarrow> handlers_set ts \<Longrightarrow> handlers_set ts'"
  by (cases ts; cases ts') (auto simp: handlers_set_def)

text \<open>The connection is closed, its buffers stay, and no request is taken.\<close>

definition closes :: "echoserver world cstate \<Rightarrow> echoserver world cstate \<Rightarrow> bool" where
  "closes s s' \<longleftrightarrow>
     (case (s, s') of ((c, l, ts, es), (c', l', ts', es')) \<Rightarrow>
        same_service c c' \<and> cn_disconnect c' \<and> conn_out c' = conn_out c \<and>
        b_buf (cn_inputbuffer c') = b_buf (cn_inputbuffer c) \<and> el_taskqueue l' = el_taskqueue l \<and>
        ts'\<lparr>ts_conns := ts_conns ts\<rparr> = ts \<and> es' = es)"

lemma closecallback_effect:
  assumes "Connection_closecallback ctl (echo_server_call ctl evwrite tid) (c, l, ts, es) = Inr s'"
    and "serving c" and "handlers_set ts"
  shows "closes (c, l, ts, es) s'"
  using assms
  by (auto simp: Connection_closecallback_def bind_res_eq_Inr on_channel_def call_server_def serving_def
      handlers_set_def TcpServer_closeconnection_def server_of_def call_handler_def map_sum_def closes_def
      same_service_def conn_out_def erase_conn_def conn_ready_def split: if_splits)

lemma errorcallback_effect:
  assumes "Connection_errorcallback ctl (echo_server_call ctl evwrite tid) (c, l, ts, es) = Inr s'"
    and "serving c" and "handlers_set ts"
  shows "closes (c, l, ts, es) s'"
  using assms
  by (auto simp: Connection_errorcallback_def bind_res_eq_Inr on_channel_def call_server_def serving_def
      handlers_set_def TcpServer_errorconnection_def server_of_def call_handler_def map_sum_def closes_def
      same_service_def conn_out_def erase_conn_def conn_ready_def split: if_splits)

lemma take_all_tasks:
  "echo_sink.take_all i ms (ts, es) = (ts, add_tasks (map (request_task i) ms) es)"
proof (induction ms arbitrary: es)
  case (Cons m ms)
  have "echo_take i m (ts, es) = (ts, add_tasks [request_task i m] es)"
    by (simp add: echo_take_def add_tasks_def)
  with Cons [of "add_tasks [request_task i m] es"] show ?case by simp
qed simp

text \<open>The bytes of a burst: those before the result that ends it.\<close>

definition burst_bytes :: "read_result list \<Rightarrow> bytes" where
  "burst_bytes rs = reads_bytes (takeWhile reads_on rs)"

lemma onmessage_burst_end:
  assumes "Connection_onmessage ctl srv clk stale rs (c, l, w) = Some (Inr s')"
  obtains (eagain) "message_loop srv clk stale [] (receive (burst_bytes rs) c, l, w) = Some (Inr s')"
  | (eof) "Connection_closecallback ctl srv (receive (burst_bytes rs) c, l, w) = Inr s'"
proof -
  have rs: "rs = takeWhile reads_on rs @ dropWhile reads_on rs" by simp
  have on: "list_all reads_on (takeWhile reads_on rs)" by (auto simp: list_all_iff dest: set_takeWhileD)
  have run: "Connection_onmessage ctl srv clk stale (dropWhile reads_on rs) (receive (burst_bytes rs) c, l, w) = Some (Inr s')"
    using assms onmessage_reads [OF on, of ctl srv clk stale "dropWhile reads_on rs" "(c, l, w)"]
    by (simp add: burst_bytes_def)
  then obtain r rest where drop: "dropWhile reads_on rs = r # rest" by (cases "dropWhile reads_on rs") auto
  then have "\<not> reads_on r" by (metis hd_dropWhile list.discI list.sel(1))
  then consider "r = Read_eagain" | "r = Read_eof" by (auto simp: reads_on_def)
  then show ?thesis
  proof cases
    case 1
    show ?thesis by (rule eagain) (use run in \<open>simp add: drop 1\<close>)
  next
    case 2
    show ?thesis by (rule eof) (use run in \<open>simp add: drop 2\<close>)
  qed
qed

lemma onmessage_eagain_effect:
  assumes "message_loop (echo_server_call ctl evwrite tid) clock stale [] (receive d c, l, ts, es) = Some (Inr (c', l', ts', es'))"
    and "serving c" and "handlers_set ts" and "workers es"
  shows "same_service c c' \<and> conn_out c' = conn_out c \<and> el_taskqueue l' = el_taskqueue l \<and>
    ts'\<lparr>ts_conns := ts_conns ts\<rparr> = ts \<and>
    (\<exists>ms. es' = add_tasks (map (EchoServer_OnMessage_task (cn_id c)) ms) es \<and>
      (headers_ok (b_buf (cn_inputbuffer c) @ d) \<longrightarrow>
        (ms, b_buf (cn_inputbuffer c')) = map_prod (map work_text) id (decode (b_buf (cn_inputbuffer c) @ d))))"
proof -
  let ?s = "b_buf (cn_inputbuffer c) @ d"
  have rel: "takes_requests (receive d c, l, ts, es) (c', l', ts', es')"
    using assms(1) by (rule echo_handlers.message_loop_rel)
  have recv: "same_service (receive d c) c' \<longleftrightarrow> same_service c c'" "conn_out (receive d c) = conn_out c"
    by (simp_all add: receive_def same_service_def conn_out_def)
  obtain ms where ms: "es' = add_tasks (map (EchoServer_OnMessage_task (cn_id c)) ms) es"
    using rel assms(4) by (auto simp: takes_requests_def)
  have "\<exists>ms. es' = add_tasks (map (EchoServer_OnMessage_task (cn_id c)) ms) es \<and>
      (ms, b_buf (cn_inputbuffer c')) = map_prod (map work_text) id (decode ?s)" if ok: "headers_ok ?s"
  proof -
    have "stream_of frame frame_ok (b_buf (cn_inputbuffer (receive d c))) (fst (decode ?s)) (snd (decode ?s))"
      using decode_stream [OF ok] by simp
    from echo_sink.message_loop_stream [OF handlers_ready [OF assms(3,4)] _ this] assms(1,2)
    have "c' = received (receive d c) (fst (decode ?s)) (snd (decode ?s)) (clock (ts, es))"
      and "(ts', es') = (ts, add_tasks (map (request_task (cn_id c)) (fst (decode ?s))) es)"
      by (auto simp: serving_def take_all_tasks)
    moreover have "map (request_task i) xs = map (EchoServer_OnMessage_task i) (map work_text xs)" for i xs
      by (simp add: request_task_def work_text_def)
    ultimately show ?thesis
      by (intro exI [of _ "map work_text (fst (decode ?s))"]) (simp add: prod_eq_iff)
  qed
  with ms have "\<exists>ms. es' = add_tasks (map (EchoServer_OnMessage_task (cn_id c)) ms) es \<and>
      (headers_ok ?s \<longrightarrow> (ms, b_buf (cn_inputbuffer c')) = map_prod (map work_text) id (decode ?s))"
    by (cases "headers_ok ?s") blast+
  with rel assms(4) recv show ?thesis by (simp add: takes_requests_def)
qed

lemma writecallback_effect:
  assumes "Connection_writecallback ctl (echo_server_call ctl evwrite tid) n (c, l, ts, es) = Inr (c', l', ts', es')"
    and "serving c" and "handlers_set ts" and "workers es"
  shows "same_service c c' \<and> cn_disconnect c' = cn_disconnect c \<and> conn_out c' = drop (nat n) (conn_out c) \<and>
    b_buf (cn_inputbuffer c') = b_buf (cn_inputbuffer c) \<and> el_taskqueue l' = el_taskqueue l \<and> ts' = ts \<and> es' = es"
proof -
  obtain w' where w': "(ts', es') = w'" by simp
  have "ts_sendcompletecb (fst (ts, es)) = Some Cb_HandleSendComplete" "cn_sendcompletecallback c = Some Cb_sendcomplete"
    using assms(2,3) by (simp_all add: handlers_set_def serving_def)
  from writecallback_same [OF assms(1) this] have same: "same_conn c c'" "same_loop l l'" "ts' = ts" "es' = es"
    by simp_all
  from writecallback_takes [OF assms(1)] assms(4)
  have "same_service c c'" "conn_out c' = drop (nat n) (conn_out c)"
    by (simp_all add: takes_requests_def same_service_def conn_out_def)
  with same same_connD [OF same(1)] same_loopD [OF same(2)] show ?thesis by simp
qed

end
