(* ===== verification/Service_View.thy ===== *)
theory Service_View
  imports Service_Effects
begin

text \<open>
  The server with the bytes that have come and gone on every connection, and what of it one connection
  sees: the state of its service, as \<open>Service_Spec\<close> has it.
\<close>

subsection \<open>The bytes of every connection\<close>

type_synonym traced = "echoserver server \<times> (nat \<Rightarrow> bytes) \<times> (nat \<Rightarrow> bytes)"

definition out_of :: "nat \<Rightarrow> echoserver server \<Rightarrow> bytes" where
  "out_of cid S = (case sv_heap S cid of None \<Rightarrow> [] | Some c \<Rightarrow> conn_out c)"

definition in_of :: "nat \<Rightarrow> echoserver server \<Rightarrow> bytes" where
  "in_of cid S = (case sv_heap S cid of None \<Rightarrow> [] | Some c \<Rightarrow> b_buf (cn_inputbuffer c))"

definition note_received :: "callback \<Rightarrow> nat \<Rightarrow> io_input \<Rightarrow> (nat \<Rightarrow> bytes) \<Rightarrow> nat \<Rightarrow> bytes" where
  "note_received cb n inp rcv =
     (if cb = Cb_connection_onmessage then rcv(n := rcv n @ burst_bytes (in_reads inp)) else rcv)"

definition note_sent :: "callback \<Rightarrow> nat \<Rightarrow> io_input \<Rightarrow> echoserver server \<Rightarrow> (nat \<Rightarrow> bytes) \<Rightarrow> nat \<Rightarrow> bytes" where
  "note_sent cb n inp S snt =
     (if cb = Cb_connection_write then snt(n := snt n @ take (nat (in_writen inp)) (out_of n S)) else snt)"

inductive traced_step :: "machine \<Rightarrow> traced \<Rightarrow> traced \<Rightarrow> bool" for mc where
  handle: "handles mc p cb inp S S' \<Longrightarrow>
    traced_step mc (S, rcv, snt)
      (release echo_owns S', note_received cb (owner_of p) inp rcv, note_sent cb (owner_of p) inp S snt)"
| background: "background_step mc S S' \<Longrightarrow> traced_step mc (S, rcv, snt) (S', rcv, snt)"

text \<open>A server with worker threads, before anything has happened.\<close>

definition traced_init :: "machine \<Rightarrow> traced \<Rightarrow> bool" where
  "traced_init mc x \<longleftrightarrow> echo_init mc (fst x) \<and> workers (sv_app (fst x)) \<and> snd x = ((\<lambda>_. []), (\<lambda>_. []))"

lemma traced_reachable: "reachable (traced_init mc) (traced_step mc) x \<Longrightarrow> reachable (echo_init mc) (echo_step mc) (fst x)"
proof (induction rule: reachable.induct)
  case (start x)
  then show ?case by (auto simp: traced_init_def intro: reachable.start)
next
  case (move x y)
  from move(2) have "echo_step mc (fst x) (fst y)"
    by cases (auto intro: echo_step.intros)
  with move(3) show ?case by (rule reachable.move)
qed

subsection \<open>The service of a connection\<close>

definition conn_state :: "nat \<Rightarrow> echoserver server \<Rightarrow> service_state" where
  "conn_state cid S =
     (case sv_heap S cid of
        None \<Rightarrow> if sv_next S \<le> cid then Unborn else Gone
      | Some c \<Rightarrow> if cn_disconnect c then Closed else Open)"

definition tasks_for :: "nat \<Rightarrow> worker_task list \<Rightarrow> bytes list" where
  "tasks_for cid ts = map task_text (filter (\<lambda>t. task_conn t = cid) ts)"

definition queues :: "'x server \<Rightarrow> task list list" where
  "queues S = map el_taskqueue (loops S)"

definition view :: "nat \<Rightarrow> traced \<Rightarrow> service" where
  "view cid x =
     (case x of (S, rcv, snt) \<Rightarrow>
       \<lparr>sr_state = conn_state cid S, sr_received = rcv cid, sr_input = in_of cid S,
        sr_requests = tasks_for cid (p_submitted (worker_pool S)),
        sr_workers = ThreadPool_size (worker_pool S), sr_working = tasks_for cid (pending (worker_pool S)),
        sr_replies = replies_for cid (concat (queues S)), sr_output = out_of cid S, sr_sent = snt cid\<rparr>)"

lemma tasks_for_simps [simp]:
  "tasks_for cid [] = []"
  "tasks_for cid (ts @ ts') = tasks_for cid ts @ tasks_for cid ts'"
  "tasks_for cid (map (EchoServer_OnMessage_task i) ms) = (if i = cid then ms else [])"
  by (auto simp: tasks_for_def filter_map comp_def)

lemma tasks_for_Cons [simp]:
  "tasks_for cid (t # ts) = (if task_conn t = cid then task_text t # tasks_for cid ts else tasks_for cid ts)"
  by (simp add: tasks_for_def)

lemma tasks_for_length: "length (tasks_for cid ts) \<le> length ts"
  by (simp add: tasks_for_def)

subsubsection \<open>The queues of the loops\<close>

lemma queues_set: "queues (set_loop lid l S) = (queues S)[lid := el_taskqueue l]"
  by (simp add: queues_def loops_set_loop map_update)

lemma queues_get: "get_loop lid S = Some l \<Longrightarrow> lid < length (queues S) \<and> queues S ! lid = el_taskqueue l"
  by (simp add: queues_def get_loop_nth)

lemma queues_fields [simp]:
  "queues (S\<lparr>sv_heap := h\<rparr>) = queues S" "queues (S\<lparr>sv_tcpserver := ts\<rparr>) = queues S"
  "queues (S\<lparr>sv_acceptor := a\<rparr>) = queues S" "queues (S\<lparr>sv_next := n\<rparr>) = queues S" "queues (S\<lparr>sv_app := x\<rparr>) = queues S"
  by (simp_all add: queues_def loops_def)

lemma queues_keep:
  "get_loop lid S = Some l \<Longrightarrow> el_taskqueue l' = el_taskqueue l \<Longrightarrow> queues (set_loop lid l' S) = queues S"
  by (simp add: queues_set list_update_same_conv queues_get)

text \<open>The replies to a connection are all in the queue of its loop, so that their order is that of the queue.\<close>

definition at_home :: "'x server \<Rightarrow> nat \<Rightarrow> task \<Rightarrow> bool" where
  "at_home S lid t \<longleftrightarrow> task_to t < sv_next S \<and> (\<forall>c. sv_heap S (task_to t) = Some c \<longrightarrow> cn_loop c = lid)"

definition homed :: "'x server \<Rightarrow> bool" where
  "homed S \<longleftrightarrow> (\<forall>lid < length (queues S). \<forall>t\<in>set (queues S ! lid). at_home S lid t)"

text \<open>No connection moves to another loop, none is born among the old ones.\<close>

definition keeps_homes :: "'x server \<Rightarrow> 'x server \<Rightarrow> bool" where
  "keeps_homes S S' \<longleftrightarrow> sv_next S \<le> sv_next S' \<and>
     (\<forall>cid c'. cid < sv_next S \<longrightarrow> sv_heap S' cid = Some c' \<longrightarrow> (\<exists>c. sv_heap S cid = Some c \<and> cn_loop c' = cn_loop c))"

lemma at_home_keeps: "at_home S lid t \<Longrightarrow> keeps_homes S S' \<Longrightarrow> at_home S' lid t"
  by (fastforce simp: at_home_def keeps_homes_def)

lemma homed_same: "homed S \<Longrightarrow> queues S' = queues S \<Longrightarrow> keeps_homes S S' \<Longrightarrow> homed S'"
  by (auto simp: homed_def intro: at_home_keeps)

lemma homed_update:
  assumes "homed S" and "queues S' = (queues S)[lid := q]" and "keeps_homes S S'"
    and "get_loop lid S = Some l" and "\<forall>t\<in>set q. t \<in> set (el_taskqueue l) \<or> at_home S lid t"
  shows "homed S'"
  unfolding homed_def
proof (intro allI impI ballI)
  fix i t assume "i < length (queues S')" and t: "t \<in> set (queues S' ! i)"
  then have "at_home S i t"
    using assms(1,2,5) queues_get [OF assms(4)] by (cases "i = lid") (auto simp: homed_def)
  then show "at_home S' i t" using assms(3) by (rule at_home_keeps)
qed

lemma replies_for_concat: "replies_for cid (concat qs) = concat (map (replies_for cid) qs)"
  by (induction qs) simp_all

lemma concat_only:
  assumes "i < length xs" and "\<forall>j < length xs. j \<noteq> i \<longrightarrow> xs ! j = []"
  shows "concat xs = xs ! i"
proof -
  have "set (take i xs) \<subseteq> {[]}" "set (drop (Suc i) xs) \<subseteq> {[]}"
    using assms by (auto simp: in_set_conv_nth)
  then have "concat (take i xs) = []" "concat (drop (Suc i) xs) = []" by auto
  then show ?thesis using id_take_nth_drop [OF assms(1)] by (metis append.right_neutral append_Nil concat.simps(2) concat_append)
qed

lemma replies_home:
  assumes "homed S" and "sv_heap S cid = Some c" and "get_loop (cn_loop c) S = Some l"
  shows "replies_for cid (concat ((queues S)[cn_loop c := q])) = replies_for cid q"
proof -
  let ?qs = "(queues S)[cn_loop c := q]"
  have "replies_for cid (?qs ! j) = []" if "j < length ?qs" "j \<noteq> cn_loop c" for j
    using assms(1,2) that by (auto simp: homed_def at_home_def replies_for_def filter_empty_conv)
  then show ?thesis
    using queues_get [OF assms(3)] concat_only [of "cn_loop c" "map (replies_for cid) ?qs"]
    by (simp add: replies_for_concat)
qed

lemma replies_now:
  assumes "homed S" and "sv_heap S cid = Some c" and "get_loop (cn_loop c) S = Some l"
  shows "replies_for cid (concat (queues S)) = replies_for cid (el_taskqueue l)"
  using replies_home [OF assms, of "el_taskqueue l"] queues_get [OF assms(3)] by (metis list_update_id)

lemma replies_other:
  assumes "get_loop lid S = Some l" and "replies_for cid q = replies_for cid (el_taskqueue l)"
  shows "replies_for cid (concat ((queues S)[lid := q])) = replies_for cid (concat (queues S))"
proof -
  have "(map (replies_for cid) (queues S))[lid := replies_for cid q] = map (replies_for cid) (queues S)"
    using queues_get [OF assms(1)] assms(2) by (simp add: list_update_same_conv)
  then show ?thesis by (simp add: replies_for_concat map_update)
qed

text \<open>A queue is emptied: of the replies to a connection, the first have been taken (all, or none).\<close>

lemma replies_clear:
  assumes "homed S" and "sv_heap S cid = Some c" and "get_loop lid S = Some l"
  shows "replies_for cid (concat (queues S)) =
    replies_for cid (el_taskqueue l) @ replies_for cid (concat ((queues S)[lid := []]))"
proof (cases "lid = cn_loop c")
  case True
  with assms(3) have "get_loop (cn_loop c) S = Some l" by simp
  from replies_now [OF assms(1,2) this] replies_home [OF assms(1,2) this, of "[]"] True show ?thesis by simp
next
  case False
  have "replies_for cid (el_taskqueue l) = []"
    using assms(1,2) False queues_get [OF assms(3)] by (fastforce simp: homed_def at_home_def replies_for_def filter_empty_conv)
  with replies_other [OF assms(3), of cid "[]"] show ?thesis by simp
qed

subsection \<open>One connection changes\<close>

definition server_serving :: "echoserver server \<Rightarrow> bool" where
  "server_serving S \<longleftrightarrow> workers (sv_app S) \<and> handlers_set (sv_tcpserver S) \<and> homed S \<and> task_inv (worker_pool S) \<and>
     (\<forall>cid c. sv_heap S cid = Some c \<longrightarrow> serving c)"

definition server_inv :: "echoserver server \<Rightarrow> bool" where
  "server_inv S \<longleftrightarrow> objects_ok echo_owns S \<and> server_serving S"

lemma server_inv_conn:
  assumes "server_inv S" and "sv_heap S cid = Some c"
  shows "cn_id c = cid" "serving c" "workers (sv_app S)" "handlers_set (sv_tcpserver S)"
  using assms by (auto simp: server_inv_def objects_ok_def heap_wf_def server_serving_def)

lemma server_inv_homed: "server_inv S \<Longrightarrow> homed S"
  by (simp add: server_inv_def server_serving_def)

text \<open>The connection \<open>n\<close>, its loop and the server after a handler or a task.\<close>

definition changed :: "nat \<Rightarrow> echoserver server \<Rightarrow> connection \<Rightarrow> eventloop \<Rightarrow> tcpserver \<Rightarrow> echoserver \<Rightarrow> echoserver server" where
  "changed n S c l ts x =
     set_loop (cn_loop (the (sv_heap S n))) l (S\<lparr>sv_heap := (sv_heap S)(n \<mapsto> c), sv_tcpserver := ts, sv_app := x\<rparr>)"

lemma changed_simps [simp]:
  "sv_heap (changed n S c l ts x) = (sv_heap S)(n \<mapsto> c)" "sv_next (changed n S c l ts x) = sv_next S"
  "sv_tcpserver (changed n S c l ts x) = ts" "sv_app (changed n S c l ts x) = x"
  by (simp_all add: changed_def)

lemma changed_queues: "sv_heap S n = Some c \<Longrightarrow> queues (changed n S c' l' ts x) = (queues S)[cn_loop c := el_taskqueue l']"
  by (simp add: changed_def queues_set)

lemma changed_serving:
  assumes "server_inv S" and c: "sv_heap S n = Some c" "get_loop (cn_loop c) S = Some l"
    and same: "same_service c c'" and "el_taskqueue l' = el_taskqueue l @ rs" and "\<forall>r\<in>set rs. task_to r = n"
    and "ts\<lparr>ts_conns := ts_conns (sv_tcpserver S)\<rparr> = sv_tcpserver S"
  shows "server_serving (changed n S c' l' ts (add_tasks ms (sv_app S)))"
proof -
  let ?S = "changed n S c' l' ts (add_tasks ms (sv_app S))"
  have "n < sv_next S" using assms(1) c(1) by (auto simp: server_inv_def objects_ok_def heap_wf_def)
  with c(1) assms(5,6) have new: "\<forall>t\<in>set (el_taskqueue l'). t \<in> set (el_taskqueue l) \<or> at_home S (cn_loop c) t"
    by (auto simp: at_home_def)
  have "keeps_homes S ?S" using c(1) same by (auto simp: keeps_homes_def same_service_def)
  moreover have "homed S" using assms(1) by (simp add: server_inv_def server_serving_def)
  ultimately have "homed ?S" using homed_update [OF _ changed_queues [OF c(1)] _ c(2) new] by blast
  then show ?thesis
    using assms serving_same [OF same] handlers_set_conns [OF assms(7)] add_tasks_inv
    by (auto simp: server_inv_def server_serving_def)
qed

text \<open>The service of a connection after a handler: \<open>c\<close> is the connection now, \<open>ms\<close> has been taken, \<open>rs\<close> answered.\<close>

definition served :: "service \<Rightarrow> connection \<Rightarrow> bytes list \<Rightarrow> bytes list \<Rightarrow> bytes \<Rightarrow> bytes \<Rightarrow> service" where
  "served v c ms rs rcv snt =
     \<lparr>sr_state = (if cn_disconnect c then Closed else Open), sr_received = rcv, sr_input = b_buf (cn_inputbuffer c),
      sr_requests = sr_requests v @ ms, sr_workers = sr_workers v, sr_working = sr_working v @ ms, sr_replies = sr_replies v @ rs,
      sr_output = conn_out c, sr_sent = snt\<rparr>"

lemma changed_view:
  assumes "homed S" and c: "sv_heap S n = Some c" "get_loop (cn_loop c) S = Some l" and "el_taskqueue l' = el_taskqueue l @ rs"
  shows "view n (changed n S c' l' ts (add_tasks (map (EchoServer_OnMessage_task n) ms) (sv_app S)), rcv', snt') =
    served (view n (S, rcv, snt)) c' ms (replies_for n rs) (rcv' n) (snt' n)"
  using replies_home [OF assms(1) c, of "el_taskqueue l'"] replies_now [OF assms(1) c] assms(4)
  by (simp add: served_def view_def conn_state_def in_of_def out_of_def changed_queues [OF c(1)])

lemma changed_view_other:
  assumes c: "sv_heap S n = Some c" "get_loop (cn_loop c) S = Some l" and "el_taskqueue l' = el_taskqueue l @ rs"
    and "\<forall>r\<in>set rs. task_to r = n" and "cid \<noteq> n" and "rcv' cid = rcv cid" and "snt' cid = snt cid"
  shows "view cid (changed n S c' l' ts (add_tasks (map (EchoServer_OnMessage_task n) ms) (sv_app S)), rcv', snt') =
    view cid (S, rcv, snt)"
proof -
  have "replies_for cid rs = []" using assms(4,5) by (auto simp: replies_for_def filter_empty_conv)
  then have "replies_for cid (el_taskqueue l') = replies_for cid (el_taskqueue l)" using assms(3) by simp
  from replies_other [OF c(2) this] show ?thesis
    using assms(5-7) by (simp add: view_def conn_state_def in_of_def out_of_def changed_queues [OF c(1)])
qed

lemma on_connection_changed:
  assumes "on_connection f n S = Some (Inr S')"
  obtains c l c' l' ts x where "sv_heap S n = Some c" and "get_loop (cn_loop c) S = Some l"
    and "f (c, l, sv_tcpserver S, sv_app S) = Some (Inr (c', l', ts, x))" and "S' = changed n S c' l' ts x"
  using assms by (auto simp: on_connection_def changed_def split: option.splits sum.splits)

end
