(* ===== verification/Service_Refinement.thy ===== *)
theory Service_Refinement
  imports Service_View
begin

text \<open>
  Every connection of the server gets the service of \<open>Service_Spec\<close>, whatever its threads do: the server, with the
  bytes that have come and gone on every connection, refines it.
\<close>

subsection \<open>The handlers of a connection\<close>

text \<open>From one server and the bytes on its connections to another, every connection is served.\<close>

definition serves :: "traced \<Rightarrow> traced \<Rightarrow> bool" where
  "serves x y \<longleftrightarrow> server_serving (fst y) \<and> (\<forall>cid. service_step\<^sup>*\<^sup>* (view cid x) (view cid y))"

lemma serves_same:
  "server_serving S' \<Longrightarrow> (\<And>cid. view cid (S', rcv, snt) = view cid (S, rcv, snt)) \<Longrightarrow> serves (S, rcv, snt) (S', rcv, snt)"
  by (simp add: serves_def)

lemma view_some:
  assumes "sv_heap S n = Some c"
  shows "sr_state (view n (S, rcv, snt)) = (if cn_disconnect c then Closed else Open)"
    and "existing (view n (S, rcv, snt))" and "sr_received (view n (S, rcv, snt)) = rcv n"
    and "sr_input (view n (S, rcv, snt)) = b_buf (cn_inputbuffer c)"
    and "sr_output (view n (S, rcv, snt)) = conn_out c" and "sr_sent (view n (S, rcv, snt)) = snt n"
  using assms by (simp_all add: view_def existing_def conn_state_def in_of_def out_of_def)

lemma serves_changed:
  assumes inv: "server_inv S" and c: "sv_heap S n = Some c" "get_loop (cn_loop c) S = Some l"
    and same: "same_service c c'" "el_taskqueue l' = el_taskqueue l @ rs" "\<forall>r\<in>set rs. task_to r = n"
      "ts\<lparr>ts_conns := ts_conns (sv_tcpserver S)\<rparr> = sv_tcpserver S"
      "x = add_tasks (map (EchoServer_OnMessage_task n) ms) (sv_app S)"
    and others: "\<And>cid. cid \<noteq> n \<Longrightarrow> rcv' cid = rcv cid \<and> snt' cid = snt cid"
    and own: "service_step\<^sup>*\<^sup>* (view n (S, rcv, snt))
      (served (view n (S, rcv, snt)) c' ms (replies_for n rs) (rcv' n) (snt' n))"
  shows "serves (S, rcv, snt) (changed n S c' l' ts x, rcv', snt')"
  unfolding serves_def fst_conv
proof (intro conjI allI)
  show "server_serving (changed n S c' l' ts x)"
    using changed_serving [OF inv c same(1-4)] by (simp add: same(5))
  show "service_step\<^sup>*\<^sup>* (view cid (S, rcv, snt)) (view cid (changed n S c' l' ts x, rcv', snt'))" for cid
  proof (cases "cid = n")
    case True
    then show ?thesis
      using own changed_view [OF server_inv_homed [OF inv] c same(2), of c' ts ms rcv' snt' rcv snt] by (simp add: same(5))
  next
    case False
    then show ?thesis
      using changed_view_other [OF c same(2,3) False, of rcv' rcv snt' snt] others [OF False] by (simp add: same(5))
  qed
qed

lemma closes_serves:
  assumes inv: "server_inv S" and c: "sv_heap S n = Some c" "get_loop (cn_loop c) S = Some l"
    and "closes (receive d c, l, sv_tcpserver S, sv_app S) (c', l', ts, x)"
    and "\<And>cid. cid \<noteq> n \<Longrightarrow> rcv' cid = rcv cid" and "rcv' n = rcv n @ d"
  shows "serves (S, rcv, snt) (changed n S c' l' ts x, rcv', snt)"
proof (rule serves_changed [OF inv c, where ms = "[]" and rs = "[]"])
  have "same_service (receive d c) c' \<longleftrightarrow> same_service c c'" "conn_out (receive d c) = conn_out c"
    by (simp_all add: receive_def same_service_def conn_out_def)
  then have closed: "same_service c c'" "cn_disconnect c'" "conn_out c' = conn_out c"
    "b_buf (cn_inputbuffer c') = b_buf (cn_inputbuffer c) @ d" "el_taskqueue l' = el_taskqueue l"
    "ts\<lparr>ts_conns := ts_conns (sv_tcpserver S)\<rparr> = sv_tcpserver S" "x = sv_app S"
    using assms(4) by (simp_all add: closes_def)
  then show "same_service c c'" "el_taskqueue l' = el_taskqueue l @ []"
    "ts\<lparr>ts_conns := ts_conns (sv_tcpserver S)\<rparr> = sv_tcpserver S"
    "x = add_tasks (map (EchoServer_OnMessage_task n) []) (sv_app S)"
    by simp_all
  let ?v = "view n (S, rcv, snt)"
  have "service_step ?v (?v\<lparr>sr_state := Closed, sr_received := sr_received ?v @ d, sr_input := sr_input ?v @ d\<rparr>)"
    using view_some(2) [OF c(1)] by (rule service_step.close)
  moreover have "?v\<lparr>sr_state := Closed, sr_received := sr_received ?v @ d, sr_input := sr_input ?v @ d\<rparr> =
      served ?v c' [] (replies_for n []) (rcv' n) (snt n)"
    by (rule service.equality) (use closed assms(6) view_some [OF c(1), of rcv snt] in \<open>simp_all add: served_def\<close>)
  ultimately show "service_step\<^sup>*\<^sup>* ?v (served ?v c' [] (replies_for n []) (rcv' n) (snt n))"
    by (metis r_into_rtranclp)
qed (use assms(5) in simp_all)

text \<open>What has been read is decoded; the connection may be closed by then.\<close>

lemma reading_served:
  assumes c: "sv_heap S n = Some c" and eff: "same_service c c'" "conn_out c' = conn_out c"
    and dec: "headers_ok (b_buf (cn_inputbuffer c) @ d) \<longrightarrow>
      (ms, b_buf (cn_inputbuffer c')) = map_prod (map work_text) id (decode (b_buf (cn_inputbuffer c) @ d))"
  shows "service_step\<^sup>*\<^sup>* (view n (S, rcv, snt)) (served (view n (S, rcv, snt)) c' ms [] (rcv n @ d) (snt n))"
proof -
  let ?v = "view n (S, rcv, snt)"
  note v = view_some [OF c, of rcv snt]
  define v1 where "v1 = ?v\<lparr>sr_received := sr_received ?v @ d, sr_input := b_buf (cn_inputbuffer c'),
    sr_requests := sr_requests ?v @ ms, sr_working := sr_working ?v @ ms\<rparr>"
  let ?v2 = "v1\<lparr>sr_state := if cn_disconnect c' then Closed else Open\<rparr>"
  have "service_step ?v v1" unfolding v1_def by (rule service_step.take [OF v(2)]) (use dec v(4) in simp)
  moreover have "service_step\<^sup>*\<^sup>* v1 ?v2"
  proof (cases "cn_disconnect c' = cn_disconnect c")
    case True
    then have "?v2 = v1" using v(1) by (simp add: v1_def)
    then show ?thesis by simp
  next
    case False
    with eff(1) have "cn_disconnect c'" by (auto simp: same_service_def)
    moreover have "existing v1" using v(2) by (simp add: v1_def existing_def)
    from service_step.close [OF this, of "[]"] have "service_step v1 (v1\<lparr>sr_state := Closed\<rparr>)" by simp
    ultimately show ?thesis by simp
  qed
  moreover have "?v2 = served ?v c' ms [] (rcv n @ d) (snt n)"
    by (rule service.equality) (use v eff(2) in \<open>simp_all add: v1_def served_def\<close>)
  ultimately show ?thesis by simp
qed

lemma onmessage_serves:
  assumes inv: "server_inv S"
    and run: "on_connection (Connection_onmessage ctl (echo_server_call ctl evwrite tid) clock stale reads) n S = Some (Inr S')"
  shows "serves (S, rcv, snt) (S', rcv(n := rcv n @ burst_bytes reads), snt)"
  using run
proof (rule on_connection_changed)
  fix c l c' l' ts x
  assume c: "sv_heap S n = Some c" "get_loop (cn_loop c) S = Some l"
    and call: "Connection_onmessage ctl (echo_server_call ctl evwrite tid) clock stale reads
      (c, l, sv_tcpserver S, sv_app S) = Some (Inr (c', l', ts, x))" and S': "S' = changed n S c' l' ts x"
  note wired = server_inv_conn [OF inv c(1)]
  let ?d = "burst_bytes reads"
  from call show ?thesis
  proof (cases rule: onmessage_burst_end)
    case eagain
    from onmessage_eagain_effect [OF this wired(2,4,3)] wired(1) obtain ms where
      eff: "same_service c c'" "conn_out c' = conn_out c" "el_taskqueue l' = el_taskqueue l @ []"
        "ts\<lparr>ts_conns := ts_conns (sv_tcpserver S)\<rparr> = sv_tcpserver S"
      and x: "x = add_tasks (map (EchoServer_OnMessage_task n) ms) (sv_app S)"
      and dec: "headers_ok (b_buf (cn_inputbuffer c) @ ?d) \<longrightarrow>
        (ms, b_buf (cn_inputbuffer c')) = map_prod (map work_text) id (decode (b_buf (cn_inputbuffer c) @ ?d))"
      by auto
    from reading_served [OF c(1) eff(1,2) dec, of rcv snt] show ?thesis
      unfolding S' by (intro serves_changed [OF inv c eff(1,3) _ eff(4) x]) simp_all
  next
    case eof
    then have "closes (receive ?d c, l, sv_tcpserver S, sv_app S) (c', l', ts, x)"
      using wired(2,4) by (intro closecallback_effect) (simp_all add: serving_def receive_def conn_ready_def)
    from closes_serves [OF inv c this] show ?thesis by (simp add: S')
  qed
qed

lemma close_serves:
  assumes inv: "server_inv S" and f: "f = Connection_closecallback ctl (echo_server_call ctl evwrite tid) \<or>
      f = Connection_errorcallback ctl (echo_server_call ctl evwrite tid)"
    and run: "on_connection (\<lambda>s. Some (f s)) n S = Some (Inr S')"
  shows "serves (S, rcv, snt) (S', rcv, snt)"
  using run
proof (rule on_connection_changed)
  fix c l c' l' ts x
  assume c: "sv_heap S n = Some c" "get_loop (cn_loop c) S = Some l"
    and call: "Some (f (c, l, sv_tcpserver S, sv_app S)) = Some (Inr (c', l', ts, x))" and S': "S' = changed n S c' l' ts x"
  note wired = server_inv_conn [OF inv c(1)]
  have "closes (receive [] c, l, sv_tcpserver S, sv_app S) (c', l', ts, x)"
    using f call wired(2,4) by (auto dest: closecallback_effect errorcallback_effect)
  from closes_serves [OF inv c this] show ?thesis by (simp add: S')
qed

lemma write_serves:
  assumes inv: "server_inv S"
    and run: "on_connection (\<lambda>s. Some (Connection_writecallback ctl (echo_server_call ctl evwrite tid) k s)) n S = Some (Inr S')"
  shows "serves (S, rcv, snt) (S', rcv, snt(n := snt n @ take (nat k) (out_of n S)))"
  using run
proof (rule on_connection_changed)
  fix c l c' l' ts x
  assume c: "sv_heap S n = Some c" "get_loop (cn_loop c) S = Some l"
    and call: "Some (Connection_writecallback ctl (echo_server_call ctl evwrite tid) k (c, l, sv_tcpserver S, sv_app S)) =
      Some (Inr (c', l', ts, x))" and S': "S' = changed n S c' l' ts x"
  note wired = server_inv_conn [OF inv c(1)] and v = view_some [OF c(1), of rcv snt]
  let ?snt = "snt(n := snt n @ take (nat k) (out_of n S))" and ?v = "view n (S, rcv, snt)"
  have eff: "same_service c c'" "cn_disconnect c' = cn_disconnect c" "conn_out c' = drop (nat k) (conn_out c)"
    "b_buf (cn_inputbuffer c') = b_buf (cn_inputbuffer c)" "el_taskqueue l' = el_taskqueue l" "ts = sv_tcpserver S" "x = sv_app S"
    using writecallback_effect [of ctl evwrite tid k c l "sv_tcpserver S" "sv_app S" c' l' ts x] call wired by simp_all
  have "service_step ?v (?v\<lparr>sr_output := drop (nat k) (sr_output ?v), sr_sent := sr_sent ?v @ take (nat k) (sr_output ?v)\<rparr>)"
    using v(2) by (rule service_step.send)
  moreover have "?v\<lparr>sr_output := drop (nat k) (sr_output ?v), sr_sent := sr_sent ?v @ take (nat k) (sr_output ?v)\<rparr> =
      served ?v c' [] (replies_for n []) (rcv n) (?snt n)"
    by (rule service.equality) (use v eff c(1) in \<open>simp_all add: served_def out_of_def\<close>)
  ultimately have "service_step\<^sup>*\<^sup>* ?v (served ?v c' [] (replies_for n []) (rcv n) (?snt n))" by (metis r_into_rtranclp)
  then show ?thesis
    unfolding S' by (intro serves_changed [OF inv c eff(1), where ms = "[]" and rs = "[]"]) (use eff(5-7) in simp_all)
qed

subsection \<open>The handlers of a loop\<close>

lemma wakeup_serves:
  assumes inv: "server_inv S" and run: "on_wakeup (echo_env mc) lid S = Some (Inr S')"
  shows "serves (S, rcv, snt) (S', rcv, snt)"
proof -
  obtain l l' h where l: "get_loop lid S = Some l"
    and wake: "EventLoop_handlewakeup (mc_evread mc) (loop_exec (mc_ctl mc)) (l, sv_heap S) = Some (Inr (l', h))"
    and S': "S' = set_loop lid l' (S\<lparr>sv_heap := h\<rparr>)"
    using run by (auto simp: on_wakeup_def echo_env_def split: option.splits sum.splits)
  have "frames_out (sv_heap S)"
    using inv by (auto simp: frames_out_def server_inv_def server_serving_def serving_def)
  note eff = handlewakeup_effect [OF wake this]
  have q: "queues S' = (queues S)[lid := []]" using eff by (simp add: S' queues_set)
  have step: "service_step\<^sup>*\<^sup>* (view cid (S, rcv, snt)) (view cid (S', rcv, snt))" for cid
  proof (cases "sv_heap S cid")
    case None
    with eff [of cid] have "h cid = None" "replies_for cid (el_taskqueue l) = []" by (simp_all add: gets_replies_def)
    with replies_other [OF l, of cid "[]"] None have "view cid (S', rcv, snt) = view cid (S, rcv, snt)"
      by (simp add: view_def conn_state_def in_of_def out_of_def q) (simp add: S')
    then show ?thesis by simp
  next
    case (Some c)
    let ?rs = "replies_for cid (el_taskqueue l)" and ?v = "view cid (S, rcv, snt)"
    obtain c' where c': "h cid = Some c'" "conn_out c' = conn_out c @ concat (map frame ?rs)"
      "b_buf (cn_inputbuffer c') = b_buf (cn_inputbuffer c)" "cn_disconnect c' = cn_disconnect c"
      using eff [of cid] Some by (auto simp: gets_replies_def)
    have "sr_replies ?v = ?rs @ replies_for cid (concat (queues S'))"
      using replies_clear [OF server_inv_homed [OF inv] Some l] by (simp add: view_def q)
    with view_some(2) [OF Some] have "service_step ?v (?v\<lparr>sr_replies := replies_for cid (concat (queues S')),
        sr_output := sr_output ?v @ concat (map frame ?rs)\<rparr>)"
      by (rule service_step.reply)
    moreover have "?v\<lparr>sr_replies := replies_for cid (concat (queues S')), sr_output := sr_output ?v @ concat (map frame ?rs)\<rparr> =
        view cid (S', rcv, snt)"
      by (rule service.equality) (use Some c' in \<open>simp_all add: view_def conn_state_def in_of_def out_of_def\<close>, simp_all add: S')
    ultimately show ?thesis by (metis r_into_rtranclp)
  qed
  moreover have same: "\<exists>c. sv_heap S cid = Some c \<and> same_service c c'" if "h cid = Some c'" for cid c'
    using eff [of cid] that by (auto simp: gets_replies_def split: option.splits)
  have "keeps_homes S S'"
    using same by (fastforce simp: keeps_homes_def S' same_service_def)
  from homed_update [OF server_inv_homed [OF inv] q this l] have "homed S'" by simp
  moreover have "serving c'" if "h cid = Some c'" for cid c'
    using same [OF that] server_inv_conn(2) [OF inv] by (auto intro: serving_same)
  ultimately show ?thesis
    using inv by (simp add: serves_def server_serving_def server_inv_def S')
qed

lemma timer_serves:
  assumes inv: "server_inv S" and run: "on_timer inp lid S = Some (Inr S')"
  shows "serves (S, rcv, snt) (S', rcv, snt)"
proof -
  obtain l l' ts x where l: "get_loop lid S = Some l"
    and timer: "EventLoop_handletimer (sv_heap S) TcpServer_removeconn (in_now inp) l (sv_tcpserver S, sv_app S) =
      Inr (l', ts, x)"
    and S': "S' = set_loop lid l' (S\<lparr>sv_tcpserver := ts, sv_app := x\<rparr>)"
    using run by (auto simp: on_timer_def split: option.splits sum.splits)
  have eff: "el_taskqueue l' = el_taskqueue l" "ts\<lparr>ts_conns := ts_conns (sv_tcpserver S)\<rparr> = sv_tcpserver S" "x = sv_app S"
    using timer
    by (auto simp: EventLoop_handletimer_def Let_def bind_res_eq_Inr split: if_splits dest!: timer_walk_erases)
  have "queues S' = queues S" using l eff(1) by (simp add: S' queues_keep)
  then have "view cid (S', rcv, snt) = view cid (S, rcv, snt)" for cid
    using eff(3) by (simp add: view_def conn_state_def in_of_def out_of_def) (simp add: S')
  moreover have "homed S'"
    using server_inv_homed [OF inv] \<open>queues S' = queues S\<close> by (rule homed_same) (simp add: keeps_homes_def S')
  then have "server_serving S'"
    using inv eff(3) handlers_set_conns [OF eff(2)] by (simp add: server_inv_def server_serving_def S')
  ultimately show ?thesis by (intro serves_same)
qed

lemma Connection_new_effect:
  assumes "Connection_new ctl cid now lid sock l = Inr (c, l')"
  shows "serving (set_callbacks (c\<lparr>cn_owned := True\<rparr>)) \<and> \<not> cn_disconnect c \<and> conn_out c = [] \<and>
    b_buf (cn_inputbuffer c) = [] \<and> el_taskqueue l' = el_taskqueue l"
  using assms
  by (auto simp: Connection_new_def Let_def bind_res_eq_Inr serving_def conn_ready_def set_callbacks_def
      connection_setter_defs conn_out_def Buffer_new_def)

text \<open>The new connection: open and empty, its loop keeps its queue.\<close>

lemma newconnection_shape:
  assumes "TcpServer_newconnection ctl now (echo_call ctl' evwrite tid) sock S = Inr S'"
    and hs: "handlers_set (sv_tcpserver S)"
  obtains i c l ts where "S' = S\<lparr>sv_subloops := (sv_subloops S)[i := l], sv_tcpserver := ts,
      sv_heap := (sv_heap S)(sv_next S \<mapsto> c), sv_next := Suc (sv_next S)\<rparr>"
    and "serving c" and "\<not> cn_disconnect c" and "conn_out c = []" and "b_buf (cn_inputbuffer c) = []"
    and "handlers_set ts" and "queues S' = queues S"
proof -
  note run = assms(1)
  let ?cid = "sv_next S"
  obtain i where i: "subloop_index (so_fd sock) S = Inr i"
    using run by (cases "subloop_index (so_fd sock) S") (auto simp: TcpServer_newconnection_def)
  obtain c l where new: "Connection_new ctl ?cid now (Suc i) sock (sv_subloops S ! i) = Inr (c, l)"
    using run i by (auto simp: TcpServer_newconnection_def Let_def bind_res_eq_Inr)
  note eff = Connection_new_effect [OF new]
  define c' where "c' = set_callbacks (c\<lparr>cn_owned := True\<rparr>)"
  have c': "serving c'" "\<not> cn_disconnect c'" "conn_out c' = []" "b_buf (cn_inputbuffer c') = []"
    using eff by (simp_all add: c'_def set_callbacks_def connection_setter_defs conn_out_def)
  define l' where "l' = EventLoop_newconnection (Connection_fd c') ?cid l"
  define ts where "ts = (sv_tcpserver S)\<lparr>ts_conns := om_assign (Connection_fd c') ?cid (ts_conns (sv_tcpserver S))\<rparr>"
  have l': "el_taskqueue l' = el_taskqueue l" by (simp add: l'_def EventLoop_newconnection_def)
  have ts: "handlers_set ts" using hs by (simp add: ts_def handlers_set_def)
  have S': "S' = S\<lparr>sv_subloops := (sv_subloops S)[i := l'], sv_tcpserver := ts,
      sv_heap := (sv_heap S)(?cid \<mapsto> c'), sv_next := Suc ?cid\<rparr>"
    using run i new hs
    by (auto simp: TcpServer_newconnection_def Let_def call_handler_def handlers_set_def c'_def l'_def ts_def)
  have "i < length (sv_subloops S)"
    using i by (auto simp: subloop_index_def Let_def split: if_splits)
  with eff l' have "queues S' = queues S"
    by (simp add: S' queues_def loops_def map_update list_update_same_conv)
  from that [OF S' c' ts this] show ?thesis .
qed

lemma newconnection_serves:
  assumes inv: "server_inv S" and run: "TcpServer_newconnection ctl now (echo_call ctl' evwrite tid) sock S = Inr S'"
  shows "serves (S, rcv, snt) (S', rcv, snt)"
proof -
  let ?cid = "sv_next S"
  have "handlers_set (sv_tcpserver S)" using inv by (simp add: server_inv_def server_serving_def)
  from newconnection_shape [OF run this] obtain i c l ts where
    S': "S' = S\<lparr>sv_subloops := (sv_subloops S)[i := l], sv_tcpserver := ts,
      sv_heap := (sv_heap S)(?cid \<mapsto> c), sv_next := Suc ?cid\<rparr>"
    and c: "serving c" "\<not> cn_disconnect c" "conn_out c = []" "b_buf (cn_inputbuffer c) = []"
    and ts: "handlers_set ts" and q: "queues S' = queues S" .
  have fresh: "sv_heap S ?cid = None" using inv by (auto simp: server_inv_def intro: objects_ok_fresh)
  have "service_step\<^sup>*\<^sup>* (view cid (S, rcv, snt)) (view cid (S', rcv, snt))" for cid
  proof (cases "cid = ?cid")
    case True
    let ?v = "view cid (S, rcv, snt)"
    have "sr_state ?v = Unborn" using fresh True by (simp add: view_def conn_state_def)
    then have "service_step ?v (?v\<lparr>sr_state := Open\<rparr>)" by (rule service_step.connect)
    moreover have "?v\<lparr>sr_state := Open\<rparr> = view cid (S', rcv, snt)"
      by (rule service.equality) (use fresh c True q in \<open>simp_all add: view_def conn_state_def in_of_def out_of_def\<close>,
        simp_all add: S')
    ultimately show ?thesis by (metis r_into_rtranclp)
  next
    case False
    then have "view cid (S', rcv, snt) = view cid (S, rcv, snt)"
      using q by (simp add: view_def conn_state_def in_of_def out_of_def) (auto simp: S' split: option.splits)
    then show ?thesis by simp
  qed
  moreover have "homed S'"
    using server_inv_homed [OF inv] q by (rule homed_same) (simp add: keeps_homes_def S')
  then have "server_serving S'"
    using inv ts c(1) by (auto simp: server_inv_def server_serving_def S')
  ultimately show ?thesis by (simp add: serves_def)
qed

text \<open>Every handler of every channel.\<close>

lemma handles_serves:
  assumes inv: "server_inv S" and "handles mc p cb inp S S'"
  shows "serves (S, rcv, snt) (S', note_received cb (owner_of p) inp rcv, note_sent cb (owner_of p) inp S snt)"
proof -
  obtain tid where run: "run_callback (echo_env mc) tid inp cb (owner_of p) S = Some (Inr S')"
    using assms(2) by (auto simp: handles_def)
  have env: "env_ctl (echo_env mc) = mc_ctl mc" "env_app (echo_env mc) tid = echo_call (mc_ctl mc) (mc_evwrite mc) tid"
    "env_clock (echo_env mc) = clock"
    by (simp_all add: echo_env_def)
  note run = run [unfolded env run_callback.simps]
  note traces = note_received_def note_sent_def
  show ?thesis
  proof (cases cb)
    case Cb_acceptor_newconnection
    then obtain sock where "TcpServer_newconnection (mc_ctl mc) (in_now inp) (echo_call (mc_ctl mc) (mc_evwrite mc) tid) sock S = Inr S'"
      using run env by (auto simp: Acceptor_newconnection_def split: prod.splits option.splits newconnection_cb.splits)
    from newconnection_serves [OF inv this] show ?thesis by (simp add: Cb_acceptor_newconnection traces)
  next
    case Cb_handlewakeup
    with run wakeup_serves [OF inv] show ?thesis by (simp add: traces)
  next
    case Cb_handletimer
    with run timer_serves [OF inv] show ?thesis by (simp add: traces)
  next
    case Cb_connection_onmessage
    with run env onmessage_serves [OF inv] show ?thesis by (simp add: traces)
  next
    case Cb_connection_close
    with run env close_serves [OF inv disjI1 [OF refl]] show ?thesis by (simp add: traces)
  next
    case Cb_connection_error
    with run env close_serves [OF inv disjI2 [OF refl]] show ?thesis by (simp add: traces)
  next
    case Cb_connection_write
    with run env write_serves [OF inv] show ?thesis by (simp add: traces)
  qed
qed

subsection \<open>The other threads\<close>

lemma serves_trans: "serves x y \<Longrightarrow> serves y z \<Longrightarrow> serves x z"
  unfolding serves_def by (blast intro: rtranclp_trans)

text \<open>Destructors.\<close>

lemma release_serves:
  assumes "server_inv S"
  shows "serves (S, rcv, snt) (release echo_owns S, rcv, snt)"
proof -
  let ?S = "release echo_owns S" and ?own = "set (owners echo_owns S)"
  have S: "sv_heap ?S = sv_heap S |` ?own" "sv_next ?S = sv_next S" "sv_app ?S = sv_app S" "sv_tcpserver ?S = sv_tcpserver S"
    by (simp_all add: release_def Let_def)
  have q: "queues ?S = queues S"
    by (simp add: release_def Let_def queues_def loops_def Socket_close_def comp_def)
  have "service_step\<^sup>*\<^sup>* (view cid (S, rcv, snt)) (view cid (?S, rcv, snt))" for cid
  proof (cases "cid \<in> ?own \<or> sv_heap S cid = None")
    case True
    then have "sv_heap ?S cid = sv_heap S cid" by (auto simp: S restrict_map_def)
    then have "view cid (?S, rcv, snt) = view cid (S, rcv, snt)"
      by (simp add: view_def conn_state_def in_of_def out_of_def q S(2,3))
    then show ?thesis by simp
  next
    case False
    then obtain c where c: "sv_heap S cid = Some c" and gone: "sv_heap ?S cid = None" by (auto simp: S)
    let ?v = "view cid (S, rcv, snt)"
    have old: "cid < sv_next S" using assms c by (auto simp: server_inv_def objects_ok_def heap_wf_def)
    have "service_step ?v (?v\<lparr>sr_state := Gone, sr_input := [], sr_output := []\<rparr>)"
      using view_some(2) [OF c] by (rule service_step.free)
    moreover have "?v\<lparr>sr_state := Gone, sr_input := [], sr_output := []\<rparr> = view cid (?S, rcv, snt)"
      by (rule service.equality) (use old gone in \<open>simp_all add: view_def conn_state_def in_of_def out_of_def q S(2,3)\<close>)
    ultimately show ?thesis by (metis r_into_rtranclp)
  qed
  moreover have "homed ?S"
    using server_inv_homed [OF assms] q by (rule homed_same) (auto simp: keeps_homes_def S restrict_map_def)
  then have "server_serving ?S"
    using assms by (auto simp: server_inv_def server_serving_def S restrict_map_def split: if_splits)
  ultimately show ?thesis by (simp add: serves_def)
qed

text \<open>Storing the reported events.\<close>

lemma chan_put_serves:
  assumes "server_serving S"
  shows "serves (S, rcv, snt) (chan_put p ch S, rcv, snt)"
proof (rule serves_same)
  have q: "queues (chan_put p ch S) = queues S"
    by (auto simp: chan_put_def queues_keep split: chan_ptr.splits option.splits)
  then show "view cid (chan_put p ch S, rcv, snt) = view cid (S, rcv, snt)" for cid
    by (auto simp: view_def conn_state_def in_of_def out_of_def chan_put_def conn_out_def split: chan_ptr.splits option.splits)
  have "homed S" using assms by (simp add: server_serving_def)
  then have "homed (chan_put p ch S)"
    using q by (rule homed_same) (auto simp: keeps_homes_def chan_put_def split: chan_ptr.splits option.splits)
  with assms show "server_serving (chan_put p ch S)"
    by (auto simp: server_serving_def serving_def conn_ready_def chan_put_def split: chan_ptr.splits option.splits)
qed

lemma collect_serves:
  "Epoll_collect chan_deref chan_put evs S = Inr (ps, S') \<Longrightarrow> server_serving S \<Longrightarrow> serves (S, rcv, snt) (S', rcv, snt)"
proof (induction evs arbitrary: S ps)
  case (Cons e evs)
  obtain ev p where e: "e = (ev, p)" by (cases e)
  then obtain ch ps' where
    rest: "Epoll_collect chan_deref chan_put evs (chan_put p (Channel_setrevents ev ch) S) = Inr (ps', S')"
    using Cons.prems(1) by (auto simp: bind_res_eq_Inr split: option.splits)
  have put: "serves (S, rcv, snt) (chan_put p (Channel_setrevents ev ch) S, rcv, snt)"
    using Cons.prems(2) by (rule chan_put_serves)
  with Cons.IH [OF rest] have "serves (chan_put p (Channel_setrevents ev ch) S, rcv, snt) (S', rcv, snt)"
    by (simp add: serves_def)
  with put show ?case by (rule serves_trans)
qed (simp add: serves_def)

lemma Epoll_loop_serves:
  "Epoll_loop chan_deref chan_put r S = Inr (ps, S') \<Longrightarrow> server_serving S \<Longrightarrow> serves (S, rcv, snt) (S', rcv, snt)"
  by (auto simp: Epoll_loop_def serves_def split: wait_result.splits if_splits dest: collect_serves [unfolded serves_def])

text \<open>The workers.\<close>

lemma set_pool_fields [simp]:
  "sv_heap (set_pool p S) = sv_heap S" "sv_next (set_pool p S) = sv_next S" "sv_tcpserver (set_pool p S) = sv_tcpserver S"
  "worker_pool (set_pool p S) = p" "queues (set_pool p S) = queues S"
  by (simp_all add: set_pool_def)

lemma set_pool_serving:
  assumes "server_serving S" and "ThreadPool_size p = ThreadPool_size (worker_pool S)" and "task_inv p"
  shows "server_serving (set_pool p S)"
proof -
  have "homed (set_pool p S)"
    by (rule homed_same [of S]) (use assms(1) in \<open>simp_all add: server_serving_def keeps_homes_def\<close>)
  with assms show ?thesis by (simp add: server_serving_def workers_def)
qed

text \<open>A worker has run a task for the connection, and is done with it.\<close>

lemma work_own_view:
  assumes inv: "server_inv S" and c: "sv_heap S (task_conn t) = Some c" "get_loop (cn_loop c) S = Some l"
    and l': "el_taskqueue l' = el_taskqueue l @ rs"
    and rs: "if cn_disconnect c then rs = [] else \<exists>r. rs = [r] \<and> queues_answer (task_text t) (task_conn t) r"
    and fin: "pending (worker_pool S) = as @ t # bs" "pending p = as @ bs" "length as < ThreadPool_size (worker_pool S)"
      "p_submitted p = p_submitted (worker_pool S)" "ThreadPool_size p = ThreadPool_size (worker_pool S)"
  shows "service_step (view (task_conn t) (S, rcv, snt))
    (view (task_conn t) (set_pool p (changed (task_conn t) S c l' (sv_tcpserver S) (sv_app S)), rcv, snt))"
proof -
  let ?n = "task_conn t" and ?m = "task_text t"
  let ?v = "view ?n (S, rcv, snt)" and ?kept = "\<exists>r. rs = [r] \<and> task_whole r"
    and ?S = "changed ?n S c l' (sv_tcpserver S) (sv_app S)"
  have "sr_working ?v = tasks_for ?n as @ ?m # tasks_for ?n bs" by (simp add: view_def fin(1))
  moreover have "length (tasks_for ?n as) < sr_workers ?v"
    using fin(3) tasks_for_length [of ?n as] by (simp add: view_def)
  moreover have "sr_state ?v = Open \<longrightarrow> nul_free ?m \<longrightarrow> ?kept"
    using rs by (auto simp: view_some(1) [OF c(1)] queues_answer_def split: if_splits)
  ultimately have step: "service_step ?v (?v\<lparr>sr_working := tasks_for ?n as @ tasks_for ?n bs,
      sr_replies := sr_replies ?v @ (if ?kept then [answer ?m] else [])\<rparr>)"
    by (rule service_step.work [OF view_some(2) [OF c(1)]])
  have "replies_for ?n rs = (if ?kept then [answer ?m] else [])"
    using rs by (auto simp: queues_answer_def split: if_splits)
  moreover have "view ?n (?S, rcv, snt) = served ?v c [] (replies_for ?n rs) (rcv ?n) (snt ?n)"
    using changed_view [OF server_inv_homed [OF inv] c l', of c "sv_tcpserver S" "[]" rcv snt rcv snt] by simp
  moreover have "view ?n (set_pool p ?S, rcv, snt) = (view ?n (?S, rcv, snt))\<lparr>sr_working := tasks_for ?n (as @ bs)\<rparr>"
    using fin by (simp add: view_def conn_state_def in_of_def out_of_def)
  ultimately have "view ?n (set_pool p ?S, rcv, snt) = ?v\<lparr>sr_working := tasks_for ?n as @ tasks_for ?n bs,
      sr_replies := sr_replies ?v @ (if ?kept then [answer ?m] else [])\<rparr>"
    using view_some [OF c(1), of rcv snt] by (intro service.equality) (simp_all add: served_def)
  with step show ?thesis by (simp only:)
qed

lemma work_serves:
  assumes inv: "server_inv S" and t: "at (worker_pool S) i (Running t)"
    and run: "on_connection (\<lambda>s. Some (worker_exec ctl evwrite tid t s)) (task_conn t) S = Some (Inr S1)"
    and finish: "thread_step i (worker_pool S1) p" "at p i At_loop"
  shows "serves (S, rcv, snt) (set_pool p S1, rcv, snt)"
  using run
proof (rule on_connection_changed)
  let ?n = "task_conn t"
  fix c l c' l' ts x
  assume c: "sv_heap S ?n = Some c" "get_loop (cn_loop c) S = Some l"
    and call: "Some (worker_exec ctl evwrite tid t (c, l, sv_tcpserver S, sv_app S)) = Some (Inr (c', l', ts, x))"
    and S1: "S1 = changed ?n S c' l' ts x"
  have "cn_id c = ?n" using server_inv_conn(1) [OF inv c(1)] .
  from call worker_exec_effect [of ctl evwrite tid t c l "(sv_tcpserver S, sv_app S)", unfolded this] obtain rs where
    eff: "c' = c" "ts = sv_tcpserver S" "x = sv_app S" "el_taskqueue l' = el_taskqueue l @ rs"
    and rs: "if cn_disconnect c then rs = [] else \<exists>r. rs = [r] \<and> queues_answer (task_text t) ?n r"
    by auto
  have pool: "worker_pool S1 = worker_pool S" by (simp add: S1 eff(3))
  have tasks: "task_inv (worker_pool S)" using inv by (simp add: server_inv_def server_serving_def)
  have step: "pool_step (worker_pool S) p" using finish(1) pool by (auto simp: pool_step_def)
  note size = pool_step_size [OF step]
  obtain as bs where fin: "pending (worker_pool S) = as @ t # bs" "pending p = as @ bs"
      "length as < ThreadPool_size (worker_pool S)" "p_submitted p = p_submitted (worker_pool S)"
    using finish_pending [OF tasks t finish [unfolded pool]] .
  have to: "\<forall>r\<in>set rs. task_to r = ?n" using rs by (auto simp: queues_answer_def split: if_splits)
  have "server_serving S1"
    using changed_serving [OF inv c _ eff(4) to, of c "sv_tcpserver S" "[]"] by (simp add: S1 eff)
  then have "server_serving (set_pool p S1)"
    by (rule set_pool_serving) (simp_all add: pool size task_inv_step [OF tasks step])
  moreover have "service_step\<^sup>*\<^sup>* (view cid (S, rcv, snt)) (view cid (set_pool p S1, rcv, snt))" for cid
  proof (cases "cid = ?n")
    case True
    with work_own_view [OF inv c eff(4) rs fin size] show ?thesis unfolding S1 eff(1-3) by blast
  next
    case False
    from changed_view_other [OF c eff(4) to False, of rcv rcv snt snt c' ts "[]"]
    have "view cid (S1, rcv, snt) = view cid (S, rcv, snt)" by (simp add: S1 eff(3))
    moreover have "view cid (set_pool p S1, rcv, snt) = (view cid (S1, rcv, snt))\<lparr>sr_working := tasks_for cid (as @ bs)\<rparr>"
      using fin size by (simp add: view_def conn_state_def in_of_def out_of_def pool)
    moreover have "tasks_for cid (as @ bs) = sr_working (view cid (S, rcv, snt))"
      using False by (simp add: view_def fin)
    ultimately show ?thesis by simp
  qed
  ultimately show ?thesis by (simp add: serves_def)
qed

lemma set_loop_serves:
  assumes "get_loop lid S = Some l" and "el_taskqueue l' = el_taskqueue l" and "server_serving S"
  shows "serves (S, rcv, snt) (set_loop lid l' S, rcv, snt)"
proof (rule serves_same)
  note q = queues_keep [OF assms(1,2)]
  have "homed S" using assms(3) by (simp add: server_serving_def)
  then have "homed (set_loop lid l' S)" using q by (rule homed_same) (simp add: keeps_homes_def)
  with assms(3) show "server_serving (set_loop lid l' S)" by (simp add: server_serving_def)
  show "view cid (set_loop lid l' S, rcv, snt) = view cid (S, rcv, snt)" for cid
    using q by (simp add: view_def conn_state_def in_of_def out_of_def)
qed

lemma background_serves:
  assumes kernel: "epoll_kernel (mc_ctl mc)" and inv: "server_inv S" and "background_step mc S S'"
  shows "serves (S, rcv, snt) (S', rcv, snt)"
  using assms(3)
proof cases
  case (wait lid l evs ps)
  with inv show ?thesis by (intro Epoll_loop_serves) (simp_all add: server_inv_def)
next
  case (work i t tid S1 p)
  have step: "serves (S, rcv, snt) (set_pool p S1, rcv, snt)"
    by (rule work_serves [OF inv work(2-5)])
  have "objects_ok echo_owns S1"
    by (rule on_connection_ok [OF _ _ work(3)])
      (use inv in \<open>auto simp: server_inv_def intro: worker_exec_safe [OF kernel]\<close>)
  then have "objects_ok echo_owns (set_pool p S1)"
    using thread_step_tasks [OF work(4)] by (rule set_pool_ok)
  with step have "server_inv (set_pool p S1)" by (simp add: server_inv_def serves_def)
  with step show ?thesis unfolding work(1) by (blast intro: serves_trans release_serves)
next
  case (pool p)
  have tasks: "task_inv (worker_pool S)" using inv by (simp add: server_inv_def server_serving_def)
  note same = pending_same [OF pool(2-4) tasks] pool_step_size [OF pool(2)]
  have "server_serving S'"
    unfolding pool(1) by (rule set_pool_serving) (use inv same task_inv_step [OF tasks pool(2)] in \<open>simp_all add: server_inv_def\<close>)
  then show ?thesis
    by (rule serves_same) (use pool same in \<open>simp add: view_def conn_state_def in_of_def out_of_def\<close>)
next
  case (tick now)
  have q: "queues S' = queues S" by (simp add: tick)
  have "homed S'" using server_inv_homed [OF inv] q by (rule homed_same) (simp add: keeps_homes_def tick)
  with q inv show ?thesis
    unfolding tick
    by (intro serves_same) (simp_all add: view_def conn_state_def in_of_def out_of_def server_inv_def server_serving_def workers_def)
qed (use inv in \<open>auto simp: server_inv_def EventLoop_stop_def EventLoop_wakeup_def intro: set_loop_serves\<close>)

subsection \<open>The refinement\<close>

lemma traced_serves:
  assumes "epoll_kernel (mc_ctl mc)" and "server_inv (fst x)" and "traced_step mc x y"
  shows "serves x y"
  using assms(3)
proof cases
  case (handle p cb inp S S' rcv snt)
  have inv: "server_inv S" using assms(2) handle(1) by simp
  have step: "serves x (S', note_received cb (owner_of p) inp rcv, note_sent cb (owner_of p) inp S snt)"
    unfolding handle(1) by (rule handles_serves [OF inv handle(3)])
  moreover have "objects_ok echo_owns S'"
    using handles_ok [OF assms(1) _ handle(3)] inv by (simp add: server_inv_def)
  ultimately have "server_inv S'" by (simp add: server_inv_def serves_def)
  with step show ?thesis unfolding handle(2) by (blast intro: serves_trans release_serves)
next
  case (background S S' rcv snt)
  then show ?thesis using assms(2) by (auto intro: background_serves [OF assms(1)])
qed

text \<open>The start: no connection, no request, no task.\<close>

lemma EventLoop_new_queue: "EventLoop_new ctl lid fds mainloop timetvl timeout = Inr l \<Longrightarrow> el_taskqueue l = []"
  by (cases fds) (auto simp: EventLoop_new_def Let_def bind_res_eq_Inr split: prod.splits)

lemma TcpServer_subloops_queue:
  "TcpServer_subloops ctl ii fdss ls p = Inr (ls', p') \<Longrightarrow> \<forall>l\<in>set ls. el_taskqueue l = [] \<Longrightarrow> \<forall>l\<in>set ls'. el_taskqueue l = []"
proof (induction fdss arbitrary: ii ls p)
  case (Cons fds fdss)
  obtain l where l: "TcpServer_subloop ctl ii fds = Inr l"
    and rest: "TcpServer_subloops ctl (Suc ii) fdss (ls @ [l]) (ThreadPool_addtask (EventLoop_run_task ii) p) = Inr (ls', p')"
    using Cons.prems(1) by (auto simp: bind_res_eq_Inr)
  have "el_taskqueue l = []"
    using l by (auto simp: TcpServer_subloop_def bind_res_eq_Inr EventLoop_settimercallback_def
        EventLoop_setepolltimeoutcallback_def dest: EventLoop_new_queue)
  with Cons.IH [OF rest] Cons.prems(2) show ?case by simp
qed simp

lemma echo_init_start:
  assumes "echo_init mc S"
  shows "handlers_set (sv_tcpserver S)" and "sv_heap S = Map.empty" and "sv_next S = 0"
    and "\<forall>q\<in>set (queues S). q = []" and "\<exists>n. worker_pool S = ThreadPool_new n"
proof -
  obtain inet_addr rcs mainfds fdss n ip port now S0 reqs where
    new: "TcpServer_new (mc_ctl mc) inet_addr (mc_inet_ntoa mc) (mc_garbage mc) rcs mainfds fdss ip port
      \<lparr>es_threadpool = ThreadPool_new n, es_clock = now\<rparr> = Inr (S0, reqs)"
    and S: "S = S0\<lparr>sv_tcpserver := EchoServer_handlers (sv_tcpserver S0)\<rparr>"
    using assms by (auto simp: echo_init_def EchoServer_new_def bind_res_eq_Inr)
  show "handlers_set (sv_tcpserver S)"
    by (simp add: S handlers_set_def EchoServer_handlers_def TcpServer_setsendcompletecb_def
      TcpServer_setonmessagecb_def TcpServer_seterrorconnectioncb_def TcpServer_setcloseconnectioncb_def
      TcpServer_setnewconnectioncb_def)
  obtain main ep subs where main: "EventLoop_new (mc_ctl mc) 0 mainfds True 30 60 = Inr main"
    and subs: "\<exists>p'. TcpServer_subloops (mc_ctl mc) 0 fdss [] (ThreadPool_new (length fdss)) = Inr (subs, p')"
    and S0: "sv_mainloop S0 = EventLoop_setepolltimeoutcallback Cb_epolltimeout (main\<lparr>el_ep := ep\<rparr>)"
      "sv_subloops S0 = subs" "sv_heap S0 = Map.empty" "sv_next S0 = 0" "es_threadpool (sv_app S0) = ThreadPool_new n"
    using new by (auto simp: TcpServer_new_def Let_def bind_res_eq_Inr)
  then show "sv_heap S = Map.empty" "sv_next S = 0" "\<exists>n. worker_pool S = ThreadPool_new n" by (auto simp: S)
  have "\<forall>l\<in>set subs. el_taskqueue l = []" using subs TcpServer_subloops_queue by fastforce
  with EventLoop_new_queue [OF main] S0 show "\<forall>q\<in>set (queues S). q = []"
    by (auto simp: S queues_def loops_def EventLoop_setepolltimeoutcallback_def)
qed

lemma traced_init_inv:
  assumes "epoll_kernel (mc_ctl mc)" and "traced_init mc x"
  shows "server_inv (fst x)"
proof -
  have S: "echo_init mc (fst x)" "workers (sv_app (fst x))" using assms(2) by (simp_all add: traced_init_def)
  note start = echo_init_start [OF S(1)]
  have "homed (fst x)" using start(4) nth_mem by (fastforce simp: homed_def)
  moreover obtain n where n: "worker_pool (fst x) = ThreadPool_new n" using start(5) by blast
  have "task_inv (worker_pool (fst x))" using ThreadPool_new_inv [of n] unfolding n pool_inv_def by blast
  ultimately show ?thesis
    using S start echo_init_ok [OF assms(1)] by (simp add: server_inv_def server_serving_def)
qed

lemma traced_step_inv:
  assumes "epoll_kernel (mc_ctl mc)" and "server_inv (fst x)" and "traced_step mc x y"
  shows "server_inv (fst y)"
proof -
  have "echo_step mc (fst x) (fst y)"
    using assms(3) by cases (auto intro: echo_step.intros)
  then have "objects_ok echo_owns (fst y)"
    using assms(2) by (auto simp: server_inv_def intro: echo_step_ok [OF assms(1)])
  with traced_serves [OF assms] show ?thesis by (simp add: server_inv_def serves_def)
qed

lemma server_invariant:
  "epoll_kernel (mc_ctl mc) \<Longrightarrow> invariant_system (traced_init mc) (traced_step mc) (server_inv \<circ> fst)"
  by unfold_locales (auto intro: traced_init_inv traced_step_inv)

lemma server_refinement:
  assumes "epoll_kernel (mc_ctl mc)"
  shows "refinement (traced_init mc) (traced_step mc) service_init service_step (view cid)"
proof
  show "service_init (view cid x)" if init: "traced_init mc x" for x
  proof -
    obtain S where x: "x = (S, (\<lambda>_. []), (\<lambda>_. []))" and S: "echo_init mc S"
      using init by (cases x) (auto simp: traced_init_def)
    obtain n where "worker_pool S = ThreadPool_new n" using echo_init_start(5) [OF S] by blast
    moreover have "replies_for cid (concat (queues S)) = []"
    proof -
      have "concat (queues S) = []" using echo_init_start(4) [OF S] by simp
      show ?thesis unfolding \<open>concat (queues S) = []\<close> by simp
    qed
    ultimately show ?thesis
      using echo_init_start(2,3) [OF S]
      by (simp add: x service_init_def view_def conn_state_def in_of_def out_of_def pending_def unfinished_def ThreadPool_new_def
          del: concat_eq_Nil_conv)
  qed
  show "service_step\<^sup>*\<^sup>* (view cid x) (view cid y)"
    if "reachable (traced_init mc) (traced_step mc) x" and step: "traced_step mc x y" for x y
  proof -
    have "server_inv (fst x)" using invariant_system.reachable_inv [OF server_invariant [OF assms] that(1)] by simp
    from traced_serves [OF assms this step] show ?thesis by (simp add: serves_def)
  qed
qed

text \<open>On a machine with the epoll of Linux.\<close>

definition linux_machine :: "machine \<Rightarrow> machine" where
  "linux_machine mc = mc\<lparr>mc_ctl := interest_ctl\<rparr>"

lemma linux_machine_kernel: "epoll_kernel (mc_ctl (linux_machine mc))"
  by (simp add: linux_machine_def linux_epoll.epoll_kernel_axioms)

interpretation server_service: refinement "traced_init (linux_machine mc)" "traced_step (linux_machine mc)"
    service_init service_step "view cid" for mc cid
  by (rule server_refinement [OF linux_machine_kernel])

end
