(* ===== verification/Turn_Dispatch.thy ===== *)
theory Turn_Dispatch
  imports Server_Objects
begin

text \<open>
  Between \<^verbatim>\<open>epoll_wait\<close> and the call of a handler other handlers run. None of them changes what a reported
  channel will do: the stored events and the callbacks of every channel that still exists are the ones the turn
  began with, and a channel that is new belongs to a connection with a new number.
\<close>

subsection \<open>The callbacks that are due stay the same\<close>

definition dispatch_same :: "'x server \<Rightarrow> 'x server \<Rightarrow> bool" where
  "dispatch_same S S' \<longleftrightarrow> sv_next S \<le> sv_next S' \<and>
     (\<forall>p ch'. chan_deref p S' = Some ch' \<longrightarrow>
        (\<exists>ch. chan_deref p S = Some ch \<and> Channel_handleevent ch' = Channel_handleevent ch) \<or>
        (\<exists>cid\<ge>sv_next S. p = Client_channel cid))"

lemma dispatch_same_refl [simp]: "dispatch_same S S"
  by (simp add: dispatch_same_def)

lemma dispatch_same_trans [trans]:
  assumes "dispatch_same S S'" and "dispatch_same S' S''"
  shows "dispatch_same S S''"
proof -
  have S: "sv_next S \<le> sv_next S'" "sv_next S' \<le> sv_next S''"
    using assms by (auto simp: dispatch_same_def)
  have "(\<exists>ch. chan_deref p S = Some ch \<and> Channel_handleevent ch'' = Channel_handleevent ch) \<or>
      (\<exists>cid\<ge>sv_next S. p = Client_channel cid)" if ch'': "chan_deref p S'' = Some ch''" for p ch''
  proof (cases "\<exists>cid\<ge>sv_next S'. p = Client_channel cid")
    case True
    with S(1) have "\<exists>cid\<ge>sv_next S. p = Client_channel cid" by (blast intro: order_trans)
    then show ?thesis by (rule disjI2)
  next
    case False
    with assms(2) ch'' obtain ch' where ch': "chan_deref p S' = Some ch'"
      and eq: "Channel_handleevent ch'' = Channel_handleevent ch'"
      unfolding dispatch_same_def by blast
    from assms(1) ch' show ?thesis unfolding dispatch_same_def eq by blast
  qed
  with S show ?thesis by (simp add: dispatch_same_def)
qed

text \<open>It is enough to look at the acceptor, the loops and the connections.\<close>

lemma dispatch_sameI:
  assumes "sv_acceptor S' = sv_acceptor S" and "sv_next S \<le> sv_next S'"
    and "\<And>lid l'. get_loop lid S' = Some l' \<Longrightarrow>
      \<exists>l. get_loop lid S = Some l \<and> el_wakechannel l' = el_wakechannel l \<and> el_timerchannel l' = el_timerchannel l"
    and "\<And>cid c'. sv_heap S' cid = Some c' \<Longrightarrow> cid < sv_next S \<Longrightarrow>
      \<exists>c. sv_heap S cid = Some c \<and> Channel_handleevent (cn_clientchannel c') = Channel_handleevent (cn_clientchannel c)"
  shows "dispatch_same S S'"
proof -
  have "(\<exists>ch. chan_deref p S = Some ch \<and> Channel_handleevent ch' = Channel_handleevent ch) \<or>
      (\<exists>cid\<ge>sv_next S. p = Client_channel cid)" if "chan_deref p S' = Some ch'" for p ch'
    using that assms(1,3,4)
    by (cases p) (fastforce simp: chan_deref_def not_le [symmetric])+
  with assms(2) show ?thesis by (simp add: dispatch_same_def)
qed

subsection \<open>The handlers\<close>

lemma on_connection_dispatch:
  assumes "\<And>s s'. f s = Some (Inr s') \<Longrightarrow> safe_step app_owns s s'" and "on_connection f cid S = Some (Inr S')"
  shows "dispatch_same S S'"
proof -
  obtain c l c' l' ts x where c: "sv_heap S cid = Some c" and l: "get_loop (cn_loop c) S = Some l"
    and call: "f (c, l, sv_tcpserver S, sv_app S) = Some (Inr (c', l', ts, x))"
    and S': "S' = set_loop (cn_loop c) l' (S\<lparr>sv_heap := (sv_heap S)(cid \<mapsto> c'), sv_tcpserver := ts, sv_app := x\<rparr>)"
    using assms(2) by (auto simp: on_connection_def split: option.splits sum.splits)
  from assms(1) [OF call] have "conn_step c l c' l'" by (simp add: safe_step_def)
  with c l show ?thesis unfolding S'
    by (intro dispatch_sameI) (auto simp: conn_step_def split: if_splits)
qed

lemma on_timer_dispatch:
  assumes "on_timer inp lid S = Some (Inr S')"
  shows "dispatch_same S S'"
proof -
  obtain l l' ts x where l: "get_loop lid S = Some l"
    and timer: "EventLoop_handletimer (sv_heap S) TcpServer_removeconn (in_now inp) l (sv_tcpserver S, sv_app S) =
      Inr (l', ts, x)"
    and S': "S' = set_loop lid l' (S\<lparr>sv_tcpserver := ts, sv_app := x\<rparr>)"
    using assms by (auto simp: on_timer_def split: option.splits sum.splits)
  have "el_wakechannel l' = el_wakechannel l" "el_timerchannel l' = el_timerchannel l"
    using timer by (auto simp: EventLoop_handletimer_def Let_def bind_res_eq_Inr split: if_splits)
  with l show ?thesis unfolding S'
    by (intro dispatch_sameI) (auto split: if_splits)
qed

context epoll_kernel
begin

lemma on_wakeup_dispatch:
  assumes "env_ctl env = ctl" and "on_wakeup env lid S = Some (Inr S')"
  shows "dispatch_same S S'"
proof -
  obtain l l' h where l: "get_loop lid S = Some l"
    and wake: "EventLoop_handlewakeup (env_evread env) (loop_exec ctl) (l, sv_heap S) = Some (Inr (l', h))"
    and S': "S' = set_loop lid l' (S\<lparr>sv_heap := h\<rparr>)"
    using assms by (auto simp: on_wakeup_def split: option.splits sum.splits)
  note step = handlewakeup_step [OF wake, unfolded tasks_step_def dispatch_kept_def]
  have "\<exists>c. sv_heap S cid = Some c \<and> Channel_handleevent (cn_clientchannel c') = Channel_handleevent (cn_clientchannel c)"
    if "h cid = Some c'" for cid c'
    using step that by (cases "sv_heap S cid") (metis option.map_disc_iff option.distinct(1), metis option.map(2) option.inject)
  with l step show ?thesis unfolding S'
    by (intro dispatch_sameI) (auto split: if_splits)
qed

end

context safe_app
begin

lemma newconnection_dispatch:
  assumes "TcpServer_newconnection ctl now app sock S = Inr S'"
  shows "dispatch_same S S'"
  using assms
proof (rule newconnection_effect)
  fix i l' c' ts x
  assume i: "i < length (sv_subloops S)" and same: "el_wakechannel l' = el_wakechannel (sv_subloops S ! i)"
      "el_timerchannel l' = el_timerchannel (sv_subloops S ! i)"
    and S': "S' = S\<lparr>sv_subloops := (sv_subloops S)[i := l'], sv_tcpserver := ts,
      sv_heap := (sv_heap S)(sv_next S \<mapsto> c'), sv_next := Suc (sv_next S), sv_app := x\<rparr>"
  from i same show ?thesis unfolding S'
    by (intro dispatch_sameI)
      (auto simp: get_loop_def split: nat.splits if_splits, (metis nth_list_update_eq nth_list_update_neq)+)
qed

end

lemma run_callback_dispatch:
  assumes env: "env_ok env" and run: "run_callback env tid inp cb n S = Some (Inr S')"
  shows "dispatch_same S S'"
proof -
  have app: "safe_app (env_ctl env) (env_app env tid) (env_owns env)"
    using env by (simp add: env_ok_def)
  show ?thesis
  proof (cases cb)
    case Cb_acceptor_newconnection
    then obtain sock where
      "TcpServer_newconnection (env_ctl env) (in_now inp) (env_app env tid) sock S = Inr S'"
      using run by (auto simp: Acceptor_newconnection_def split: prod.splits option.splits newconnection_cb.splits)
    with app show ?thesis by (rule safe_app.newconnection_dispatch)
  next
    case Cb_handlewakeup
    with run epoll_kernel.on_wakeup_dispatch [OF safe_app.axioms(1) [OF app]] show ?thesis by fastforce
  next
    case Cb_handletimer
    with run show ?thesis by (auto intro: on_timer_dispatch)
  next
    case Cb_connection_onmessage
    show ?thesis
      by (rule on_connection_dispatch [OF _ run [unfolded Cb_connection_onmessage run_callback.simps]])
        (auto intro: safe_app.onmessage_safe [OF app])
  next
    case Cb_connection_close
    show ?thesis
      by (rule on_connection_dispatch [OF _ run [unfolded Cb_connection_close run_callback.simps]])
        (auto intro: safe_app.closecallback_safe [OF app])
  next
    case Cb_connection_error
    show ?thesis
      by (rule on_connection_dispatch [OF _ run [unfolded Cb_connection_error run_callback.simps]])
        (auto intro: safe_app.errorcallback_safe [OF app])
  next
    case Cb_connection_write
    show ?thesis
      by (rule on_connection_dispatch [OF _ run [unfolded Cb_connection_write run_callback.simps]])
        (auto intro: safe_app.writecallback_safe [OF app])
  qed
qed

lemma release_dispatch: "dispatch_same S (release app_owns S)"
  by (rule dispatch_sameI)
    (auto simp: release_def Let_def get_loop_def Socket_close_def restrict_map_def split: nat.splits if_splits)

subsection \<open>Storing the events\<close>

text \<open>The loop in \<^verbatim>\<open>Epoll::loop\<close>: \<^verbatim>\<open>ch->setrevents(evs_[ii].events)\<close> for every event.\<close>

fun store_events :: "(u32 \<times> chan_ptr) list \<Rightarrow> 'x server \<Rightarrow> 'x server" where
  "store_events [] S = S"
| "store_events ((ev, p) # evs) S = store_events evs (chan_put p (Channel_setrevents ev (the (chan_deref p S))) S)"

lemma collect_stores:
  assumes "Epoll_collect chan_deref chan_put evs S = Inr (ps, S')"
  shows "ps = map snd evs \<and> S' = store_events evs S \<and> (\<forall>p\<in>snd ` set evs. chan_deref p S \<noteq> None)"
  using assms
proof (induction evs arbitrary: S ps)
  case (Cons e evs)
  obtain ev p where e: "e = (ev, p)" by (cases e)
  obtain ch qs where ch: "chan_deref p S = Some ch" and ps: "ps = p # qs"
    and rest: "Epoll_collect chan_deref chan_put evs (chan_put p (Channel_setrevents ev ch) S) = Inr (qs, S')"
    using Cons.prems by (auto simp: e bind_res_eq_Inr split: option.splits)
  from Cons.IH [OF rest] ch show ?case
    by (auto simp: e ps server_channels.deref_put split: if_splits)
qed simp

text \<open>After it every reported channel holds its event, where no channel is reported twice.\<close>

lemma store_events_deref:
  assumes "\<forall>p\<in>snd ` set evs. chan_deref p S \<noteq> None" and "distinct (map snd evs)"
  shows "chan_deref q (store_events evs S) =
    (case map_of (map prod.swap evs) q of None \<Rightarrow> chan_deref q S
     | Some ev \<Rightarrow> Some (Channel_setrevents ev (the (chan_deref q S))))"
  using assms
proof (induction evs arbitrary: S)
  case (Cons e evs)
  obtain ev p where e: "e = (ev, p)" by (cases e)
  let ?S = "chan_put p (Channel_setrevents ev (the (chan_deref p S))) S"
  have put: "chan_deref r ?S = (if r = p then Some (Channel_setrevents ev (the (chan_deref p S))) else chan_deref r S)" for r
    using Cons.prems(1) by (intro server_channels.deref_put) (simp add: e)
  have "map_of (map prod.swap evs) p = None"
    using Cons.prems(2) by (force simp: e map_of_eq_None_iff)
  moreover have "chan_deref q (store_events evs ?S) =
      (case map_of (map prod.swap evs) q of None \<Rightarrow> chan_deref q ?S
       | Some ev \<Rightarrow> Some (Channel_setrevents ev (the (chan_deref q ?S))))"
    using Cons.prems by (intro Cons.IH) (auto simp: put e)
  ultimately show ?case by (simp add: e put split: option.splits)
qed simp

lemma store_events_next [simp]: "sv_next (store_events evs S) = sv_next S"
proof (induction evs S rule: store_events.induct)
  case (2 ev p evs S)
  then show ?case by (simp add: chan_put_def split: chan_ptr.splits option.splits)
qed simp

end
