(* ===== verification/Service_Turns.thy ===== *)
theory Service_Turns
  imports Service_Refinement Turn_Dispatch
begin

text \<open>
  A turn of \<^verbatim>\<open>EventLoop::run\<close> is a run of the transition system of the server: the step that stores
  the events, then a step for each handler.
\<close>

lemma set_loop_same: "get_loop lid S = Some l \<Longrightarrow> set_loop lid l S = S"
  by (auto simp: get_loop_def set_loop_def split: nat.splits if_splits)

text \<open>
  The handlers of a turn, one after the other: the channel, the callback that runs for it, and what its system
  calls give.
\<close>

inductive handled :: "machine \<Rightarrow> (chan_ptr \<times> callback \<times> io_input) list \<Rightarrow> traced \<Rightarrow> traced \<Rightarrow> bool" for mc where
  nothing: "handled mc [] x x"
| next_channel: "handles mc p cb inp S S1 \<Longrightarrow>
    handled mc hs (release echo_owns S1, note_received cb (owner_of p) inp rcv, note_sent cb (owner_of p) inp S snt) y \<Longrightarrow>
    handled mc ((p, cb, inp) # hs) (S, rcv, snt) y"

lemma handled_traced: "handled mc hs x y \<Longrightarrow> (traced_step mc)\<^sup>*\<^sup>* x y"
  by (induction rule: handled.induct) (auto intro: converse_rtranclp_into_rtranclp traced_step.handle)

text \<open>What the handlers read from each connection, in their order.\<close>

definition bytes_read :: "(chan_ptr \<times> callback \<times> io_input) list \<Rightarrow> nat \<Rightarrow> bytes" where
  "bytes_read hs cid = concat (map (\<lambda>(p, cb, inp).
     if cb = Cb_connection_onmessage \<and> owner_of p = cid then burst_bytes (in_reads inp) else []) hs)"

text \<open>
  The callbacks are the ones that are due in the state the turn began with, since no handler changes those of
  another channel.
\<close>

lemma run_channels_handled:
  assumes "run_channels (echo_env mc) tid ps S = Some (Inr S')" and "epoll_kernel (mc_ctl mc)" and "dispatch_same S0 S"
    and "\<And>p. p \<in> fst ` set ps \<Longrightarrow> \<exists>ch. chan_deref p S0 = Some ch \<and> (\<forall>cid\<ge>sv_next S0. p \<noteq> Client_channel cid)"
  shows "\<exists>cbs snt'. map Inr cbs = map (\<lambda>(p, _). Channel_handleevent (the (chan_deref p S0))) ps \<and>
    handled mc (zip (map fst ps) (zip cbs (map snd ps))) (S, rcv, snt)
      (S', \<lambda>cid. rcv cid @ bytes_read (zip (map fst ps) (zip cbs (map snd ps))) cid, snt')"
  using assms
proof (induction ps arbitrary: S rcv snt)
  case Nil
  then show ?case by (auto simp: bytes_read_def intro: handled.nothing)
next
  case (Cons e ps)
  obtain p inp where e: "e = (p, inp)" by (cases e)
  have owns: "env_owns (echo_env mc) = echo_owns" by (simp add: echo_env_def)
  obtain ch cb S1 where ch: "chan_deref p S = Some ch" "Channel_handleevent ch = Inr cb"
    and run: "run_callback (echo_env mc) tid inp cb (owner_of p) S = Some (Inr S1)"
    and rest: "run_channels (echo_env mc) tid ps (release echo_owns S1) = Some (Inr S')"
    using Cons.prems(1) by (auto simp: e owns split: option.splits sum.splits)
  obtain ch0 where ch0: "chan_deref p S0 = Some ch0" and old: "\<forall>cid\<ge>sv_next S0. p \<noteq> Client_channel cid"
    using Cons.prems(4) [of p] by (auto simp: e)
  have due: "Channel_handleevent ch0 = Inr cb"
    using Cons.prems(3) ch ch0 old unfolding dispatch_same_def by (metis option.inject)
  have "dispatch_same S S1"
    using run_callback_dispatch [OF echo_env_ok [OF Cons.prems(2)] run] .
  then have same: "dispatch_same S0 (release echo_owns S1)"
    using Cons.prems(3) release_dispatch by (blast intro: dispatch_same_trans)
  have old_rest: "\<exists>ch. chan_deref q S0 = Some ch \<and> (\<forall>cid\<ge>sv_next S0. q \<noteq> Client_channel cid)" if "q \<in> fst ` set ps" for q
    using that by (intro Cons.prems(4)) simp
  let ?rcv = "note_received cb (owner_of p) inp rcv"
  obtain cbs snt' where cbs: "map Inr cbs = map (\<lambda>(p, _). Channel_handleevent (the (chan_deref p S0))) ps"
    and hs: "handled mc (zip (map fst ps) (zip cbs (map snd ps)))
      (release echo_owns S1, ?rcv, note_sent cb (owner_of p) inp S snt)
      (S', \<lambda>cid. ?rcv cid @ bytes_read (zip (map fst ps) (zip cbs (map snd ps))) cid, snt')"
    using Cons.IH [OF rest Cons.prems(2) same old_rest, of ?rcv "note_sent cb (owner_of p) inp S snt"] by blast
  have "handles mc p cb inp S S1" unfolding handles_def using ch run by blast
  have received: "(\<lambda>cid. rcv cid @ bytes_read ((p, cb, inp) # hs) cid) = (\<lambda>cid. ?rcv cid @ bytes_read hs cid)" for hs
    by (auto simp: bytes_read_def note_received_def)
  from handled.next_channel [OF \<open>handles mc p cb inp S S1\<close> hs]
  have "handled mc ((p, cb, inp) # zip (map fst ps) (zip cbs (map snd ps))) (S, rcv, snt)
      (S', \<lambda>cid. rcv cid @ bytes_read ((p, cb, inp) # zip (map fst ps) (zip cbs (map snd ps))) cid, snt')"
    unfolding received .
  then show ?case using cbs ch0 due
    by (intro exI [of _ "cb # cbs"] exI [of _ snt']) (simp add: e)
qed

lemma reported_channels_old:
  assumes "objects_ok app_owns S" and "get_loop lid S = Some l" and "kernel_reports l evs" and "p \<in> snd ` set evs"
  shows "chan_deref p S \<noteq> None \<and> (\<forall>cid\<ge>sv_next S. p \<noteq> Client_channel cid)"
proof -
  obtain fd where "watched l fd p" using assms(3,4) by (auto simp: kernel_reports_def)
  then have "entry_live S fd p"
    using assms(1) get_loop_mem [OF assms(2)] by (auto simp: objects_ok_def interest_live_def)
  moreover have "cid < sv_next S" if "sv_heap S cid = Some c" for cid c
    using assms(1) that by (simp add: objects_ok_def heap_wf_def)
  ultimately show ?thesis
    using entry_live_deref by (fastforce simp: entry_live_def split: chan_ptr.splits)
qed

text \<open>
  C13. What a turn of \<^verbatim>\<open>EventLoop::run\<close> is, in every reachable state in which the kernel reports channels of
  the interest list of the loop, each at most once: where the turn returns, the
  events have been stored, and then exactly one callback has run for each reported channel, in the order of the
  report. Which one is fixed when \<^verbatim>\<open>epoll_wait\<close> returns: the callback that \<^verbatim>\<open>handleevent\<close> picks for the reported
  events, whatever the handlers that run before it do. Each connection has received the bytes its read handlers
  took, in that order, and the whole turn is a run of the server's transition system.
\<close>

theorem turn_is_steps:
  assumes "epoll_kernel (mc_ctl mc)" and "reachable (traced_init mc) (traced_step mc) (S, rcv, snt)"
    and "get_loop lid S = Some l" and "kernel_reports l evs" and "distinct (map snd evs)"
    and "EventLoop_turn (echo_env mc) lid tid (Wait_events evs, inps) S = Some (Inr S')"
  shows "\<exists>cbs hs rcv' snt'. hs = zip (map snd evs) (zip cbs (map inps [0..<length evs])) \<and>
    map Inr cbs = map (\<lambda>(ev, p). Channel_handleevent (Channel_setrevents ev (the (chan_deref p S)))) evs \<and>
    traced_step mc (S, rcv, snt) (store_events evs S, rcv, snt) \<and>
    handled mc hs (store_events evs S, rcv, snt) (S', rcv', snt') \<and>
    rcv' = (\<lambda>cid. rcv cid @ bytes_read hs cid) \<and>
    (traced_step mc)\<^sup>*\<^sup>* (S, rcv, snt) (S', rcv', snt')"
proof -
  let ?S1 = "store_events evs S"
  have ok: "objects_ok echo_owns S"
    using reachable_objects [OF assms(1) traced_reachable [OF assms(2)]] by simp
  obtain ps S1 where wait: "Epoll_loop chan_deref chan_put (Wait_events evs) S = Inr (ps, S1)"
    using assms(3,6) by (auto simp: EventLoop_turn_def split: sum.splits)
  then have "Epoll_collect chan_deref chan_put evs S = Inr (ps, S1)" by (simp add: Epoll_loop_def split: if_splits)
  note stored = collect_stores [OF this]
  then have ps: "ps = map snd evs" and S1: "S1 = ?S1" and ex: "\<forall>p\<in>snd ` set evs. chan_deref p S \<noteq> None"
    by blast+
  have one: "traced_step mc (S, rcv, snt) (?S1, rcv, snt)"
    using background_step.wait [OF assms(3,4) wait] unfolding S1 by (rule traced_step.background)
  let ?ps = "zip ps (map inps [0..<length ps])"
  have run: "run_channels (echo_env mc) tid ?ps ?S1 = Some (Inr S')"
  proof (cases "evs = []")
    case True
    moreover have "TcpServer_epolltimeout (env_timeout (echo_env mc)) s = Inr s" for s
      by (simp add: TcpServer_epolltimeout_def echo_env_def split: option.splits)
    ultimately show ?thesis
      using assms(3,6) wait by (auto simp: EventLoop_turn_def ps set_loop_same S1 split: option.splits epolltimeout_cb.splits)
  qed (use assms(3,6) wait in \<open>simp add: EventLoop_turn_def ps S1\<close>)
  have fsts: "map fst ?ps = map snd evs" and snds: "map snd ?ps = map inps [0..<length evs]" by (simp_all add: ps)
  have deref: "chan_deref p ?S1 = Some (Channel_setrevents ev (the (chan_deref p S)))" if "(ev, p) \<in> set evs" for ev p
  proof -
    have "map_of (map prod.swap evs) p = Some ev"
      using that assms(5) by (intro map_of_is_SomeI) (force simp: comp_def)+
    then show ?thesis by (simp add: store_events_deref [OF ex assms(5)])
  qed
  obtain cbs snt' where cbs: "map Inr cbs = map (\<lambda>(p, _). Channel_handleevent (the (chan_deref p ?S1))) ?ps"
    and hs: "handled mc (zip (map fst ?ps) (zip cbs (map snd ?ps))) (?S1, rcv, snt)
      (S', \<lambda>cid. rcv cid @ bytes_read (zip (map fst ?ps) (zip cbs (map snd ?ps))) cid, snt')"
  proof -
    have "\<exists>ch. chan_deref p ?S1 = Some ch \<and> (\<forall>cid\<ge>sv_next ?S1. p \<noteq> Client_channel cid)" if "p \<in> fst ` set ?ps" for p
    proof -
      have "p \<in> set (map fst ?ps)" using that unfolding set_map .
      then have p: "p \<in> snd ` set evs" unfolding fsts by simp
      with deref have "\<exists>ch. chan_deref p ?S1 = Some ch" by auto
      with reported_channels_old [OF ok assms(3,4) p] show ?thesis by simp
    qed
    from run_channels_handled [OF run assms(1) dispatch_same_refl this] that show thesis by blast
  qed
  have "map (\<lambda>(p, _). Channel_handleevent (the (chan_deref p ?S1))) ?ps =
      map (\<lambda>p. Channel_handleevent (the (chan_deref p ?S1))) (map fst ?ps)"
    unfolding list.map_comp by (rule map_cong) auto
  also have "\<dots> = map (\<lambda>(ev, p). Channel_handleevent (Channel_setrevents ev (the (chan_deref p S)))) evs"
    unfolding fsts using deref by auto
  finally have "map Inr cbs = map (\<lambda>(ev, p). Channel_handleevent (Channel_setrevents ev (the (chan_deref p S)))) evs"
    using cbs by simp
  moreover from handled_traced [OF hs] one have "(traced_step mc)\<^sup>*\<^sup>* (S, rcv, snt)
      (S', \<lambda>cid. rcv cid @ bytes_read (zip (map fst ?ps) (zip cbs (map snd ?ps))) cid, snt')"
    by (rule converse_rtranclp_into_rtranclp [rotated])
  ultimately show ?thesis using one hs unfolding fsts snds by blast
qed

text \<open>One event, with the bytes that come and go.\<close>

lemma event_traced:
  assumes l: "get_loop lid S = Some l" "kernel_reports l [(ev, p)]"
    and ch: "chan_deref p S = Some ch" "Channel_handleevent (Channel_setrevents ev ch) = Inr cb"
    and turn: "EventLoop_turn (echo_env mc) lid tid (Wait_events [(ev, p)], inps) S = Some (Inr S')"
  shows "(traced_step mc)\<^sup>*\<^sup>* (S, rcv, snt) (S', note_received cb (owner_of p) (inps 0) rcv,
    note_sent cb (owner_of p) (inps 0) (chan_put p (Channel_setrevents ev ch) S) snt)"
proof -
  let ?S = "chan_put p (Channel_setrevents ev ch) S"
  have collect: "Epoll_loop chan_deref chan_put (Wait_events [(ev, p)]) S = Inr ([p], ?S)"
    using ch by (simp add: Epoll_loop_def)
  from background_step.wait [OF l this]
  have one: "traced_step mc (S, rcv, snt) (?S, rcv, snt)" by (rule traced_step.background)
  have deref: "chan_deref p ?S = Some (Channel_setrevents ev ch)" using ch(1) by (simp add: server_channels.deref_put)
  have "env_owns (echo_env mc) = echo_owns" by (simp add: echo_env_def)
  with turn l(1) collect deref ch(2) obtain S1
    where run: "run_callback (echo_env mc) tid (inps 0) cb (owner_of p) ?S = Some (Inr S1)" and S': "S' = release echo_owns S1"
    by (auto simp: EventLoop_turn_def split: option.splits sum.splits)
  have "handles mc p cb (inps 0) ?S S1" unfolding handles_def using deref ch(2) run by blast
  from traced_step.handle [OF this] one show ?thesis unfolding S' by (meson converse_rtranclp_into_rtranclp r_into_rtranclp)
qed

subsection \<open>What a worker does last\<close>

text \<open>A worker ends a task: the reply is queued, its share of the connection is gone.\<close>

definition task_done :: "nat \<Rightarrow> worker_task \<Rightarrow> worker_task pool \<Rightarrow> worker_task pool" where
  "task_done i t p = goto i At_loop (p\<lparr>p_done := p_done p @ [t]\<rparr>)"

lemma task_done_at [simp]:
  "j \<noteq> i \<Longrightarrow> at (task_done i t p) j w \<longleftrightarrow> at p j w"
  "at p i w \<Longrightarrow> at (task_done i t p) i At_loop"
  by (simp_all add: task_done_def goto_def at_def)

lemma worker_answers:
  assumes c: "sv_heap S cid = Some c" "cn_id c = cid" "\<not> cn_disconnect c" and l: "get_loop (cn_loop c) S = Some l"
    and work: "at (worker_pool S) i (Running (request_task cid m))" "nul_free m"
  shows "background_step mc S (release echo_owns (set_pool (task_done i (request_task cid m) (worker_pool S))
    (set_loop (cn_loop c) (EventLoop_queueinloop (mc_evwrite mc) (reply_task (cid, echo_reply m)) l) S)))"
proof -
  obtain tid where tid: "el_threadid l \<noteq> Some tid"
    by (cases "el_threadid l") (simp, metis option.inject zero_neq_one)
  let ?l = "EventLoop_queueinloop (mc_evwrite mc) (reply_task (cid, echo_reply m)) l"
    and ?p = "task_done i (request_task cid m) (worker_pool S)"
  have "on_connection (\<lambda>s. Some (worker_exec (mc_ctl mc) (mc_evwrite mc) tid (request_task cid m) s)) cid S =
      Some (Inr (set_loop (cn_loop c) ?l S))"
    using worker_exec_reply [OF c(3) tid work(2), of "mc_ctl mc" "mc_evwrite mc" cid "(sv_tcpserver S, sv_app S)"] c l
    by (simp add: on_connection_def fun_upd_idem)
  moreover have "thread_step i (worker_pool (set_loop (cn_loop c) ?l S)) ?p"
    using work(1) by (simp add: task_done_def thread_step.finish)
  moreover have "at ?p i At_loop" using work(1) by simp
  moreover have "task_conn (request_task cid m) = cid" by (simp add: request_task_def)
  ultimately show ?thesis
    using work(1) by (intro background_step.work [where tid = tid and t = "request_task cid m"]) (simp_all only:)
qed

lemma get_loop_release: "get_loop lid (release app_owns S) =
    map_option (Socket_close (map Connection_fd (orphans app_owns S))) (get_loop lid S)"
  by (auto simp: get_loop_def release_def Let_def split: nat.splits)

lemma get_loop_set_pool [simp]: "get_loop lid (set_pool p S) = get_loop lid S"
  by (simp add: set_pool_def)

lemma registered_kept:
  assumes "sv_heap S cid = Some c" and "cid \<in> snd ` set (ts_conns (sv_tcpserver S))"
  shows "sv_heap (release app_owns S) cid = Some c"
  using assms by (auto simp: release_def Let_def owners_def restrict_map_def)

end
