(* ===== verification/Sample_Run.thy ===== *)
theory Sample_Run
  imports Server_Round Service_Turns
begin

text \<open>
  For the examples: one request on its way through the threads of the server, from its start:
  a connection is accepted, the request read, answered by the worker, framed by the loop, and sent.
\<close>

subsection \<open>Accepted\<close>

lemma sample_linux: "epoll_kernel (mc_ctl sample_machine)"
  by (simp add: sample_machine_def linux_epoll.epoll_kernel_axioms)

lemma sample_traced_connected:
  "\<exists>S l c. reachable (traced_init sample_machine) (traced_step sample_machine) (S, (\<lambda>_. []), (\<lambda>_. [])) \<and>
    sample_connected S l c"
proof -
  let ?no = "\<lambda>_ :: nat. [] :: bytes"
  obtain S0 S1 S2 l c where init: "echo_init sample_machine S0" "worker_pool S0 = ThreadPool_new 1"
    and one: "background_step sample_machine S0 S1"
    and two: "handles sample_machine Accept_channel Cb_acceptor_newconnection (sample_input 20) S1 S2"
    and S: "sample_connected (release echo_owns S2) l c"
    using sample_accepting by blast
  have "traced_init sample_machine (S0, ?no, ?no)" using init by (simp add: traced_init_def workers_def ThreadPool_new_def ThreadPool_size_def)
  moreover have "traced_step sample_machine (S0, ?no, ?no) (S1, ?no, ?no)" using one by (rule traced_step.background)
  moreover have "traced_step sample_machine (S1, ?no, ?no) (release echo_owns S2, ?no, ?no)"
    using traced_step.handle [OF two, of ?no ?no] by (simp add: note_received_def note_sent_def)
  ultimately have "reachable (traced_init sample_machine) (traced_step sample_machine) (release echo_owns S2, ?no, ?no)"
    by (blast intro: reachable.intros)
  with S show ?thesis by blast
qed

lemma connected_idle:
  assumes "sample_connected S l c"
  shows "wired 1 0 c" "loop_wired l" "registered_all S" "server_idle 1 0 200 S"
  using assms by (auto simp: sample_connected_def wired_def loop_wired_def registered_all_def server_idle_def)

subsection \<open>Read\<close>

abbreviation sample_reach :: "echoserver server \<Rightarrow> (nat \<Rightarrow> bytes) \<Rightarrow> (nat \<Rightarrow> bytes) \<Rightarrow> bool" where
  "sample_reach S rcv snt \<equiv> reachable (traced_init sample_machine) (traced_step sample_machine) (S, rcv, snt)"

definition sample_took :: "bytes \<Rightarrow> connection \<Rightarrow> echoserver world \<Rightarrow> connection" where
  "sample_took m c w = received (reported EPOLLIN c) [m] [] (clock w)"

lemma sample_reads_request:
  assumes S: "sample_connected S l c" "sample_reach S (\<lambda>_. []) (\<lambda>_. [])" and m: "frame_ok m"
  shows "sample_reach (put_conn 1 0 (sample_took m c (sv_tcpserver S, sv_app S), l, sv_tcpserver S,
      add_tasks [request_task 0 m] (sv_app S)) S) ((\<lambda>_. [])(0 := frame m)) (\<lambda>_. [])"
proof -
  note conn = S(1) [unfolded sample_connected_def]
  let ?w = "(sv_tcpserver S, sv_app S)" and ?io = "turn_io sample_machine (\<lambda>_. 0) [Read_data (frame m)] 0"
  let ?S = "put_conn 1 0 (sample_took m c ?w, l, sv_tcpserver S, add_tasks [request_task 0 m] (sv_app S)) S"
  have idle: "conn_ready c" "b_buf (cn_inputbuffer c) = []" "echo_ready ?w" using conn by (auto simp: service_idle_def)
  have "EventLoop_turn (echo_env sample_machine) 1 100 (Wait_events [(EPOLLIN, Client_channel 0)], ?io) S =
      Some (Inr (put_conn 1 0 (received (reported EPOLLIN c) [m] [] (clock ?w), l, echo_sink.take_all 0 [m] ?w) S))"
    by (rule read_turn) (use conn idle connected_idle [OF S(1)] m in \<open>simp_all add: reads_on_def\<close>)
  then have turn: "EventLoop_turn (echo_env sample_machine) 1 100 (Wait_events [(EPOLLIN, Client_channel 0)], ?io) S =
      Some (Inr ?S)"
    by (simp only: take_all_tasks sample_took_def list.map)
  have "(traced_step sample_machine)\<^sup>*\<^sup>* (S, (\<lambda>_. []), (\<lambda>_. []))
      (?S, note_received Cb_connection_onmessage (owner_of (Client_channel 0)) (?io 0) (\<lambda>_. []),
        note_sent Cb_connection_onmessage (owner_of (Client_channel 0)) (?io 0)
          (chan_put (Client_channel 0) (Channel_setrevents EPOLLIN (cn_clientchannel c)) S) (\<lambda>_. []))"
    by (rule event_traced [OF _ _ _ wired_read [OF connected_idle(1) [OF S(1)]] turn])
      (use conn in \<open>auto simp: kernel_reports_def chan_deref_def\<close>)
  then have "(traced_step sample_machine)\<^sup>*\<^sup>* (S, (\<lambda>_. []), (\<lambda>_. [])) (?S, (\<lambda>_. [])(0 := frame m), (\<lambda>_. []))"
    by (simp add: note_received_def note_sent_def turn_io_def burst_bytes_def reads_on_def)
  with S(2) show ?thesis by (rule reachable_rtranclp)
qed

subsection \<open>Answered\<close>

lemma pool_moves:
  assumes "worker_pool S = ThreadPool_addtask t (ThreadPool_new 1)"
  shows "\<exists>p. (background_step mc)\<^sup>*\<^sup>* S (set_pool p S) \<and> p_threads p = [Running t] \<and> p_queue p = []"
proof -
  have move: "background_step mc S (set_pool p S)"
    if "thread_step 0 (worker_pool S) p" "p_submitted p = p_submitted (worker_pool S)" "p_done p = p_done (worker_pool S)"
    for S :: "echoserver server" and p
  proof (rule background_step.pool)
    show "pool_step (worker_pool S) p" using that(1) unfolding pool_step_def by blast
  qed (use that in simp_all)
  let ?p0 = "ThreadPool_addtask t (ThreadPool_new 1)"
  let ?p1 = "goto 0 At_lock ?p0"
  let ?p2 = "goto 0 At_predicate (?p1\<lparr>p_mutex := Some 0\<rparr>)"
  let ?p3 = "goto 0 Past_wait ?p2"
  let ?p4 = "goto 0 (Running t) (?p3\<lparr>p_mutex := None, p_queue := [], p_started := p_started ?p3 @ [t]\<rparr>)"
  have steps: "thread_step 0 ?p0 ?p1" "thread_step 0 ?p1 ?p2" "thread_step 0 ?p2 ?p3" "thread_step 0 ?p3 ?p4"
    by (rule thread_step.loop_again thread_step.lock thread_step.predicate_true thread_step.pop;
      simp add: at_def goto_def ThreadPool_new_def wait_predicate_def)+
  have pool: "set_pool p (set_pool q S) = set_pool p S" "worker_pool (set_pool p S) = p" for p q by (simp_all add: set_pool_def)
  have same: "p_submitted (goto i w p) = p_submitted p" "p_done (goto i w p) = p_done p" for i w and p :: "worker_task pool"
    by (simp_all add: goto_def)
  have "background_step mc S (set_pool ?p1 S)"
    using steps(1) assms by (intro move) (simp_all add: same)
  moreover have "background_step mc (set_pool ?p1 S) (set_pool ?p2 S)"
    using move [of "set_pool ?p1 S" ?p2] steps(2) by (simp add: pool same)
  moreover have "background_step mc (set_pool ?p2 S) (set_pool ?p3 S)"
    using move [of "set_pool ?p2 S" ?p3] steps(3) by (simp add: pool same)
  moreover have "background_step mc (set_pool ?p3 S) (set_pool ?p4 S)"
    using move [of "set_pool ?p3 S" ?p4] steps(4) by (simp add: pool same)
  ultimately have "(background_step mc)\<^sup>*\<^sup>* S (set_pool ?p4 S)"
    by (meson converse_rtranclp_into_rtranclp rtranclp.rtrancl_refl)
  moreover have "p_threads ?p4 = [Running t]" "p_queue ?p4 = []" by (simp_all add: goto_def ThreadPool_new_def)
  ultimately show ?thesis by blast
qed

lemma background_traced: "(background_step mc)\<^sup>*\<^sup>* S S' \<Longrightarrow> (traced_step mc)\<^sup>*\<^sup>* (S, rcv, snt) (S', rcv, snt)"
  by (induction rule: rtranclp_induct) (auto intro: traced_step.background rtranclp.rtrancl_into_rtrancl)

lemma set_pool_put: "set_pool p (put_conn lid cid (c, l, w) S) = put_conn lid cid (c, l, fst w, (snd w)\<lparr>es_threadpool := p\<rparr>) S"
  by (simp add: set_pool_def put_conn_app)

lemma sample_worker:
  assumes S: "sample_connected S l c0" and c: "c = sample_took m c0 w" and m: "nul_free m"
  shows "\<exists>x. (background_step sample_machine)\<^sup>*\<^sup>*
      (put_conn 1 0 (c, l, sv_tcpserver S, add_tasks [request_task 0 m] (sv_app S)) S)
      (put_conn 1 0 (c, EventLoop_queueinloop (mc_evwrite sample_machine) (reply_task (0, echo_reply m)) l,
        sv_tcpserver S, x) S) \<and> pool_tasks (es_threadpool x) = [] \<and> ThreadPool_size (es_threadpool x) = 1"
proof -
  note conn = S [unfolded sample_connected_def]
  let ?t = "request_task 0 m" and ?x = "add_tasks [request_task 0 m] (sv_app S)"
  let ?l = "EventLoop_queueinloop (mc_evwrite sample_machine) (reply_task (0, echo_reply m)) l"
  let ?P = "\<lambda>l x. put_conn 1 0 (c, l, sv_tcpserver S, x) S"
  have loop: "get_loop 1 S \<noteq> None" using conn by simp
  have "worker_pool (?P l ?x) = ThreadPool_addtask ?t (ThreadPool_new 1)"
    using conn by (simp add: add_tasks_def)
  from pool_moves [OF this] obtain p
    where one: "(background_step sample_machine)\<^sup>*\<^sup>* (?P l ?x) (set_pool p (?P l ?x))"
      and p: "p_threads p = [Running ?t]" "p_queue p = []" by blast
  let ?P1 = "?P l (?x\<lparr>es_threadpool := p\<rparr>)" and ?x2 = "?x\<lparr>es_threadpool := task_done 0 ?t p\<rparr>"
  have P1: "set_pool p (?P l ?x) = ?P1" by (simp add: set_pool_put)
  have c': "sv_heap ?P1 0 = Some c" "cn_id c = 0" "\<not> cn_disconnect c" "get_loop (cn_loop c) ?P1 = Some l"
    "cn_loop c = 1"
    using conn loop by (auto simp: c sample_took_def service_idle_def received_def reported_def)
  have "at (worker_pool ?P1) 0 (Running ?t)" using p by (simp add: at_def)
  from worker_answers [OF c'(1-4) this m, of sample_machine]
  have "background_step sample_machine ?P1 (release echo_owns (?P ?l ?x2))"
    using loop c'(5) by (simp add: put_conn_loop set_pool_put)
  moreover have "registered_all (?P ?l ?x2)"
    using connected_idle(3) [OF S] conn by (intro registered_put) auto
  ultimately have "background_step sample_machine ?P1 (?P ?l ?x2)" by (simp add: release_registered)
  with one have "(background_step sample_machine)\<^sup>*\<^sup>* (?P l ?x) (?P ?l ?x2)"
    unfolding P1 by (rule rtranclp.rtrancl_into_rtrancl)
  moreover have "pool_tasks (es_threadpool ?x2) = []" "ThreadPool_size (es_threadpool ?x2) = 1"
    using p by (simp_all add: pool_tasks_def task_done_def goto_def running_def running_task_def ThreadPool_size_def)
  ultimately show ?thesis by blast
qed

subsection \<open>Framed and sent\<close>

lemma sample_wake:
  assumes S: "sample_connected S l c0" and c: "conn_open c l" "wired 1 0 c" and x: "sv_tcpserver S = fst w"
    and l1: "l1 = EventLoop_queueinloop (mc_evwrite sample_machine) (reply_task (0, m)) l"
  shows "\<exists>c' l'. (traced_step sample_machine)\<^sup>*\<^sup>* (put_conn 1 0 (c, l1, w) S, rcv, snt)
      (put_conn 1 0 (c', l', w) S, rcv, snt) \<and>
    conn_open c' l' \<and> same_conn c c' \<and> wired 1 0 c' \<and> conn_out c' = conn_out c @ frame m \<and> el_taskqueue l' = []"
proof -
  note conn = S [unfolded sample_connected_def]
  let ?P = "put_conn 1 0 (c, l1, w) S" and ?p = "Wake_channel 1"
  have l: "loop_wired l1" "\<not> el_locked l1" "get_loop 1 S \<noteq> None" "el_taskqueue l1 = map (\<lambda>m. reply_task (0, m)) [m]"
    "el_ep l1 = el_ep l" "el_wakechannel l1 = el_wakechannel l"
    using conn by (auto simp: l1 loop_wired_def service_idle_def EventLoop_queueinloop_def EventLoop_wakeup_def)
  have open1: "conn_open c l1" using c(1) conn_open_ep [OF l(5)] by simp
  have rel: "epoll_reliable (mc_ctl sample_machine)" by (simp add: sample_machine_def linux_epoll.epoll_reliable_axioms)
  have reg: "registered_all ?P" using connected_idle(3) [OF S] conn x by (intro registered_put) auto
  from wake_turn [OF rel l(1-4) open1 c(2) reg, of 100 "\<lambda>_. sample_input 20"] obtain c' l'
    where turn: "EventLoop_turn (echo_env sample_machine) 1 100 (Wait_events [(EPOLLIN, ?p)], \<lambda>_. sample_input 20) ?P =
        Some (Inr (put_conn 1 0 (c', l', w) S))"
      and c': "conn_open c' l'" "same_conn c c'" "wired 1 0 c'" "conn_out c' = conn_out c @ frame m" "el_taskqueue l' = []"
    by auto
  have "(traced_step sample_machine)\<^sup>*\<^sup>* (?P, rcv, snt) (put_conn 1 0 (c', l', w) S,
      note_received Cb_handlewakeup (owner_of ?p) (sample_input 20) rcv,
      note_sent Cb_handlewakeup (owner_of ?p) (sample_input 20)
        (chan_put ?p (Channel_setrevents EPOLLIN (el_wakechannel l1)) ?P) snt)"
  proof (rule event_traced [OF _ _ _ _ turn])
    show "get_loop 1 ?P = Some l1" using l(3) by simp
    then show "chan_deref ?p ?P = Some (el_wakechannel l1)" by (simp add: chan_deref_def)
    show "kernel_reports l1 [(EPOLLIN, ?p)]" using conn l(5) by (auto simp: kernel_reports_def watched_def)
    show "Channel_handleevent (Channel_setrevents EPOLLIN (el_wakechannel l1)) = Inr Cb_handlewakeup"
      using l(1) by (simp add: loop_wired_def Channel_handleevent_def Channel_setrevents_def call_function_def)
  qed
  with c' show ?thesis by (auto simp: note_received_def note_sent_def)
qed

lemma sample_write:
  assumes S: "sample_connected S l c0" and c: "writing 1 0 (c, l1, w)" "conn_out c \<noteq> []" and x: "sv_tcpserver S = fst w"
  shows "\<exists>c' l'. (traced_step sample_machine)\<^sup>*\<^sup>* (put_conn 1 0 (c, l1, w) S, rcv, snt)
      (put_conn 1 0 (c', l', w) S, rcv, snt(0 := snt 0 @ conn_out c)) \<and>
    conn_out c' = [] \<and> same_conn c c' \<and> same_loop l1 l'"
proof -
  note conn = S [unfolded sample_connected_def]
  let ?P = "put_conn 1 0 (c, l1, w) S" and ?p = "Client_channel 0"
  let ?io = "turn_io sample_machine (\<lambda>_. 0) [] (int (length (conn_out c)))"
  have loop: "get_loop 1 S \<noteq> None" using conn by simp
  have rel: "epoll_reliable (mc_ctl sample_machine)" by (simp add: sample_machine_def linux_epoll.epoll_reliable_axioms)
  have reg: "registered_all ?P" using connected_idle(3) [OF S] conn x by (intro registered_put) auto
  from write_turn [OF rel c order_refl loop reg, of 100 "\<lambda>_. 0" "[]"] obtain c' l'
    where turn: "EventLoop_turn (echo_env sample_machine) 1 100 (Wait_events [(EPOLLOUT, ?p)], ?io) ?P =
        Some (Inr (put_conn 1 0 (c', l', w) S))"
      and c': "conn_out c' = []" "same_conn c c'" "same_loop l1 l'"
    by auto
  have deref: "chan_deref ?p ?P = Some (cn_clientchannel c)" by (simp add: chan_deref_def)
  have wired: "wired 1 0 c" and "conn_open c l1" using c(1) by (simp_all add: writing_def)
  have "(traced_step sample_machine)\<^sup>*\<^sup>* (?P, rcv, snt) (put_conn 1 0 (c', l', w) S,
      note_received Cb_connection_write (owner_of ?p) (?io 0) rcv,
      note_sent Cb_connection_write (owner_of ?p) (?io 0)
        (chan_put ?p (Channel_setrevents EPOLLOUT (cn_clientchannel c)) ?P) snt)"
  proof (rule event_traced [OF _ _ deref wired_write [OF wired] turn])
    show "get_loop 1 ?P = Some l1" using loop by simp
    have "ch_this (cn_clientchannel c) = ?p" using wired by (simp add: wired_def)
    then show "kernel_reports l1 [(EPOLLOUT, ?p)]"
      using conn_open_interest [OF \<open>conn_open c l1\<close>] by (auto simp: kernel_reports_def watched_def)
  qed
  moreover have "out_of 0 (chan_put ?p (Channel_setrevents EPOLLOUT (cn_clientchannel c)) ?P) = conn_out c"
    by (simp add: chan_put_def out_of_def conn_out_def)
  ultimately show ?thesis using c' by (auto simp: note_received_def note_sent_def turn_io_def)
qed

subsection \<open>The whole way\<close>

lemma sample_request:
  assumes "frame_ok m"
  shows "\<exists>S c. sample_reach S ((\<lambda>_. [])(0 := frame m)) (\<lambda>_. []) \<and> sv_heap S 0 = Some c \<and> \<not> cn_disconnect c"
proof -
  obtain S l c where S: "sample_connected S l c" "sample_reach S (\<lambda>_. []) (\<lambda>_. [])"
    using sample_traced_connected by blast
  have "\<not> cn_disconnect (sample_took m c w)" for w
    using S(1) by (simp add: sample_connected_def sample_took_def service_idle_def received_def reported_def)
  with sample_reads_request [OF S assms] show ?thesis
    by (intro exI conjI) (assumption, simp only: put_conn_simps fun_upd_same, simp)
qed

lemma sample_served:
  assumes "frame_ok m" and "nul_free m"
  shows "\<exists>S c. sample_reach S ((\<lambda>_. [])(0 := frame m)) ((\<lambda>_. [])(0 := frame (echo_reply m))) \<and>
    sv_heap S 0 = Some c \<and> \<not> cn_disconnect c \<and> conn_out c = [] \<and>
    pool_tasks (worker_pool S) = [] \<and> concat (queues S) = [] \<and> ThreadPool_size (worker_pool S) = 1"
proof -
  obtain S l c0 where S: "sample_connected S l c0" "sample_reach S (\<lambda>_. []) (\<lambda>_. [])"
    using sample_traced_connected by blast
  note conn = S(1) [unfolded sample_connected_def]
  let ?rcv = "(\<lambda>_. [])(0 := frame m)" and ?no = "\<lambda>_ :: nat. [] :: bytes"
  let ?l = "EventLoop_queueinloop (mc_evwrite sample_machine) (reply_task (0, echo_reply m)) l"
  define c where "c = sample_took m c0 (sv_tcpserver S, sv_app S)"
  have c: "conn_open c l" "wired 1 0 c" "\<not> cn_disconnect c" "conn_out c = []" "cn_owned c"
    "cn_sendcompletecallback c = Some Cb_sendcomplete"
    using conn connected_idle(1) [OF S(1)]
    by (simp_all add: c_def sample_took_def service_idle_def conn_ready_def received_def reported_def wired_def
        conn_open_def chan_open_def chan_synced_def Channel_setrevents_def conn_out_def)
  obtain x where work: "(background_step sample_machine)\<^sup>*\<^sup>*
      (put_conn 1 0 (c, l, sv_tcpserver S, add_tasks [request_task 0 m] (sv_app S)) S)
      (put_conn 1 0 (c, ?l, sv_tcpserver S, x) S)"
    and x: "pool_tasks (es_threadpool x) = []" "ThreadPool_size (es_threadpool x) = 1"
    using sample_worker [OF S(1) c_def assms(2)] by blast
  let ?w = "(sv_tcpserver S, x)"
  obtain c2 l2 where wake: "(traced_step sample_machine)\<^sup>*\<^sup>* (put_conn 1 0 (c, ?l, ?w) S, ?rcv, ?no)
      (put_conn 1 0 (c2, l2, ?w) S, ?rcv, ?no)"
    and c2: "conn_open c2 l2" "same_conn c c2" "wired 1 0 c2" "conn_out c2 = frame (echo_reply m)" "el_taskqueue l2 = []"
    using sample_wake [OF S(1) c(1,2) _ refl, of ?w "echo_reply m" ?rcv ?no] c(4) by auto
  have "echo_ready ?w" using conn x(2) by (simp add: service_idle_def echo_ready_def)
  then have "writing 1 0 (c2, l2, ?w)" using c2(1,3) same_connD [OF c2(2)] c(5,6) by (simp add: writing_def)
  from sample_write [OF S(1) this, of ?rcv ?no] c2(4) obtain c3 l3
    where sent: "(traced_step sample_machine)\<^sup>*\<^sup>* (put_conn 1 0 (c2, l2, ?w) S, ?rcv, ?no)
        (put_conn 1 0 (c3, l3, ?w) S, ?rcv, ?no(0 := frame (echo_reply m)))"
      and c3: "conn_out c3 = []" "same_conn c2 c3" "same_loop l2 l3"
    by auto
  have "sample_reach (put_conn 1 0 (c3, l3, ?w) S) ?rcv (?no(0 := frame (echo_reply m)))"
    using reachable_rtranclp [OF reachable_rtranclp [OF reachable_rtranclp
        [OF sample_reads_request [OF S assms(1), folded c_def] background_traced [OF work]] wake] sent] .
  moreover have "queues (put_conn 1 0 (c3, l3, ?w) S) = [[], []]"
    using conn same_loopD(2) [OF c3(3)] c2(5) by (simp add: queues_def loops_def put_conn_def set_loop_def)
  moreover have "\<not> cn_disconnect c3" using c(3) same_connD(3) [OF c2(2)] same_connD(3) [OF c3(2)] by simp
  ultimately show ?thesis using c3(1) x
    by (intro exI [of _ "put_conn 1 0 (c3, l3, ?w) S"] exI [of _ c3]) (simp del: fun_upd_apply add: fun_upd_same)
qed

text \<open>A turn of the sample server that reads a request.\<close>

lemma turn_is_steps_witness:
  "\<exists>S S' snt'. sample_reach S (\<lambda>_. []) (\<lambda>_. []) \<and>
    handled sample_machine [(Client_channel 0, Cb_connection_onmessage,
        turn_io sample_machine (\<lambda>_. 0) [Read_data (frame (lit ''hi''))] 0 0)]
      (store_events [(EPOLLIN, Client_channel 0)] S, (\<lambda>_. []), (\<lambda>_. [])) (S', (\<lambda>_. [])(0 := frame (lit ''hi'')), snt')"
proof -
  obtain S l c where S: "sample_connected S l c" "sample_reach S (\<lambda>_. []) (\<lambda>_. [])"
    using sample_traced_connected by blast
  let ?io = "turn_io sample_machine (\<lambda>_. 0) [Read_data (frame (lit ''hi''))] 0" and ?no = "\<lambda>_ :: nat. [] :: bytes"
  let ?w = "(sv_tcpserver S, sv_app S)"
  note conn = S(1) [unfolded sample_connected_def]
  have idle: "conn_ready c" "b_buf (cn_inputbuffer c) = []" "echo_ready ?w" using conn by (auto simp: service_idle_def)
  have l: "get_loop 1 S = Some l" and c: "sv_heap S 0 = Some c" using conn by auto
  obtain S' where turn: "EventLoop_turn (echo_env sample_machine) 1 100
      (Wait_events [(EPOLLIN, Client_channel 0)], ?io) S = Some (Inr S')"
    using read_turn [OF c connected_idle(1) [OF S(1)] _ _ l connected_idle(3) [OF S(1)],
        of "[Read_data (frame (lit ''hi''))]" "[lit ''hi'']" sample_machine 100 "\<lambda>_. 0" 0] idle
    by (auto simp: reads_on_def frame_ok_def)
  have "kernel_reports l [(EPOLLIN, Client_channel 0)]" "distinct (map snd [(EPOLLIN, Client_channel 0)])"
    using conn by (auto simp: kernel_reports_def)
  from turn_is_steps [OF sample_linux S(2) l this turn] obtain cbs hs rcv' snt' where
    hs: "hs = zip (map snd [(EPOLLIN, Client_channel 0)]) (zip cbs (map ?io [0..<length [(EPOLLIN, Client_channel 0)]]))"
    and cbs: "map Inr cbs = map (\<lambda>(ev, p). Channel_handleevent (Channel_setrevents ev (the (chan_deref p S))))
      [(EPOLLIN, Client_channel 0)]"
    and run: "handled sample_machine hs (store_events [(EPOLLIN, Client_channel 0)] S, ?no, ?no) (S', rcv', snt')"
    and rcv': "rcv' = (\<lambda>cid. ?no cid @ bytes_read hs cid)"
    by blast
  have "cbs = [Cb_connection_onmessage]"
    using cbs wired_read [OF connected_idle(1) [OF S(1)]] by (auto simp: chan_deref_def c)
  with hs have hs: "hs = [(Client_channel 0, Cb_connection_onmessage, ?io 0)]" by simp
  have "rcv' = ?no(0 := frame (lit ''hi''))"
    by (auto simp: rcv' hs bytes_read_def turn_io_def burst_bytes_def reads_on_def)
  with run have "handled sample_machine [(Client_channel 0, Cb_connection_onmessage, ?io 0)]
      (store_events [(EPOLLIN, Client_channel 0)] S, ?no, ?no) (S', ?no(0 := frame (lit ''hi'')), snt')"
    unfolding hs by (simp only:)
  with S(2) show ?thesis by blast
qed

end
