(* ===== verification/Service_Accounts.thy ===== *)
theory Service_Accounts
  imports Sample_Run
begin

text \<open>
  What the refinement of \<open>Service_Spec\<close> gives for the running server: the accounts of requests and
  replies of every connection, and where they leave the order open.
\<close>

lemma reachable_view:
  assumes "epoll_kernel (mc_ctl mc)" and "reachable (traced_init mc) (traced_step mc) x"
  shows "reachable service_init service_step (view cid x)"
  using refinement.reachable_refines [OF server_refinement [OF assms(1)] assms(2)] .

lemma reachable_accounts:
  assumes "epoll_kernel (mc_ctl mc)" and "reachable (traced_init mc) (traced_step mc) x"
  shows "\<exists>rs. accounts (view cid x) rs" and "decoded (view cid x)"
  using service.reachable_inv [OF reachable_view [OF assms]] by (auto simp: service_inv_def)

subsection \<open>Every connection is served\<close>

text \<open>
  C1. The server implements the service of one connection, for every connection at once. Whatever
  happens in a server with worker threads (any number of loops, workers and connections, in any interleaving
  of their handlers and tasks, any bytes, partial writes, closing, timers and errors), seen from one connection it
  is a run of \<open>service_step\<close>: the bytes received are decoded, the requests are worked on, and the answers are framed and sent.
\<close>

theorem server_serves_each_connection:
  assumes "epoll_kernel (mc_ctl mc)" and "reachable (traced_init mc) (traced_step mc) x"
    and "(traced_step mc)\<^sup>*\<^sup>* x y"
  shows "reachable service_init service_step (view cid x) \<and> service_step\<^sup>*\<^sup>* (view cid x) (view cid y)"
  using reachable_view [OF assms(1,2)] refinement.run_refines [OF server_refinement [OF assms(1)] assms(3,2)] by blast

lemma server_serves_each_connection_witness:
  "\<exists>S c. sv_heap S 0 = Some c \<and>
    reachable service_init service_step (view 0 (S, (\<lambda>_. [])(0 := frame (lit ''hi'')), (\<lambda>_. [])))"
proof -
  have "frame_ok (lit ''hi'')" by (simp add: frame_ok_def)
  from sample_request [OF this] obtain S c
    where S: "sample_reach S ((\<lambda>_. [])(0 := frame (lit ''hi''))) (\<lambda>_. [])" "sv_heap S 0 = Some c"
    by blast
  from server_serves_each_connection [OF sample_linux S(1) rtranclp.rtrancl_refl, of 0] S(2) show ?thesis by blast
qed

text \<open>The tasks of the workers that are not finished, and the replies in the queues of the loops.\<close>

definition open_requests :: "nat \<Rightarrow> echoserver server \<Rightarrow> bytes multiset" where
  "open_requests cid S = mset (tasks_for cid (pool_tasks (worker_pool S)))"

definition open_replies :: "nat \<Rightarrow> echoserver server \<Rightarrow> bytes multiset" where
  "open_replies cid S = mset (replies_for cid (concat (queues S)))"

lemma traced_task_inv:
  assumes "epoll_kernel (mc_ctl mc)" and "reachable (traced_init mc) (traced_step mc) (S, rcv, snt)"
  shows "task_inv (worker_pool S)"
  using invariant_system.reachable_inv [OF server_invariant [OF assms(1)] assms(2)]
  by (simp add: server_inv_def server_serving_def)

lemma traced_workers:
  assumes "epoll_kernel (mc_ctl mc)" and "reachable (traced_init mc) (traced_step mc) (S, rcv, snt)"
  shows "0 < ThreadPool_size (worker_pool S)"
  using invariant_system.reachable_inv [OF server_invariant [OF assms(1)] assms(2)]
  by (simp add: server_inv_def server_serving_def workers_def)

lemma view_open:
  assumes "task_inv (worker_pool S)"
  shows "mset (sr_replies (view cid (S, rcv, snt))) = open_replies cid S"
    and "mset (sr_working (view cid (S, rcv, snt))) = open_requests cid S"
  by (simp_all add: view_def open_replies_def open_requests_def tasks_for_def mset_pending [OF assms])

lemma answer_work_text: "answer (work_text m) = echo_reply m"
  by (simp add: answer_def work_text_def echo_reply_def)

lemma nul_free_work_text: "nul_free (work_text m) \<longleftrightarrow> nul_free m"
  by (simp add: nul_free_def work_text_def lit_def)

lemma nul_free_work_texts: "list_all nul_free (map work_text ms) \<longleftrightarrow> list_all nul_free ms"
  by (simp add: list.pred_map comp_def nul_free_work_text)

lemma answer_work_texts: "map answer (map work_text ms) = map echo_reply ms"
  by (simp add: answer_work_text)

text \<open>An open connection whose requests have no NUL: what has been framed, and what its input buffer holds.\<close>

lemma open_connection_accounts:
  assumes "epoll_kernel (mc_ctl mc)" and "reachable (traced_init mc) (traced_step mc) (S, rcv, snt)"
    and "sv_heap S cid = Some c" and "\<not> cn_disconnect c"
    and "headers_ok (rcv cid)" and "list_all nul_free (fst (decode (rcv cid)))"
  obtains rs where "snt cid @ conn_out c = concat (map frame rs)" and "b_buf (cn_inputbuffer c) = snd (decode (rcv cid))"
    and "picked (ThreadPool_size (worker_pool S)) (map echo_reply (fst (decode (rcv cid))))
      (rs @ replies_for cid (concat (queues S))) (map answer (tasks_for cid (pending (worker_pool S))))"
proof -
  let ?v = "view cid (S, rcv, snt)"
  note v = view_some [OF assms(3), of rcv snt]
  obtain rs where acc: "accounts ?v rs" and dec: "decoded ?v"
    using reachable_accounts [OF assms(1,2)] by blast
  have dec': "sr_requests ?v = map work_text (fst (decode (rcv cid)))" "sr_input ?v = snd (decode (rcv cid))"
    using dec assms(4,5) v by (simp_all add: decoded_def prod_eq_iff)
  then have "picked (sr_workers ?v) (map answer (sr_requests ?v)) (rs @ sr_replies ?v) (map answer (sr_working ?v))"
    and "snt cid @ conn_out c = concat (map frame rs)"
    using acc assms(4,6) v by (simp_all add: accounts_def nul_free_work_texts)
  then show ?thesis
    using that [of rs] dec'(2) v(4) unfolding dec'(1) answer_work_texts by (simp add: view_def)
qed

text \<open>
  C2. No request is lost and none is answered twice. In every reachable state, as long as a connection
  is open, every header its peer has sent is neither negative nor overflows, and no request decoded so far contains a
  NUL (a reply with a NUL is cut by \<^verbatim>\<open>strdup\<close>): its input buffer is what the
  reference decoder leaves of the bytes received, and the replies that have been sent or wait in the output buffer, framed one after the
  other, with those in the queues of the loops and those the workers still owe, are one for each request decoded.
\<close>

theorem every_request_accounted_for:
  assumes "epoll_kernel (mc_ctl mc)" and "reachable (traced_init mc) (traced_step mc) (S, rcv, snt)"
    and "sv_heap S cid = Some c" and "\<not> cn_disconnect c"
    and "headers_ok (rcv cid)" and "list_all nul_free (fst (decode (rcv cid)))"
  shows "b_buf (cn_inputbuffer c) = snd (decode (rcv cid)) \<and>
    (\<exists>rs. snt cid @ conn_out c = concat (map frame rs) \<and>
      mset rs + open_replies cid S + image_mset answer (open_requests cid S) =
        image_mset echo_reply (mset (fst (decode (rcv cid)))))"
proof -
  obtain rs where rs: "snt cid @ conn_out c = concat (map frame rs)" "b_buf (cn_inputbuffer c) = snd (decode (rcv cid))"
    "picked (ThreadPool_size (worker_pool S)) (map echo_reply (fst (decode (rcv cid))))
      (rs @ replies_for cid (concat (queues S))) (map answer (tasks_for cid (pending (worker_pool S))))"
    by (rule open_connection_accounts [OF assms])
  have "open_requests cid S = mset (tasks_for cid (pending (worker_pool S)))"
    using traced_task_inv [OF assms(1,2)] by (simp add: open_requests_def tasks_for_def mset_pending)
  with picked_mset [OF rs(3)] rs(1,2) show ?thesis by (auto simp: open_replies_def)
qed

text \<open>The bytes of one request, and of its reply.\<close>

lemma sample_decoded:
  "frame_ok (lit ''hi'')" "nul_free (lit ''hi'')" "frame_ok (echo_reply (lit ''hi''))"
  "decode (frame (lit ''hi'')) = ([lit ''hi''], [])"
  "decode (frame (echo_reply (lit ''hi''))) = ([echo_reply (lit ''hi'')], [])"
proof -
  show ok: "frame_ok (lit ''hi'')" "nul_free (lit ''hi'')" "frame_ok (echo_reply (lit ''hi''))"
    by (simp_all add: frame_ok_def nul_free_def lit_def echo_reply_def)
  from ok show "decode (frame (lit ''hi'')) = ([lit ''hi''], [])"
    "decode (frame (echo_reply (lit ''hi''))) = ([echo_reply (lit ''hi'')], [])"
    by (intro stream_decode, simp add: stream_of_def)+
qed

lemma every_request_accounted_for_witness:
  "\<exists>S c rs. sv_heap S 0 = Some c \<and> conn_out c = concat (map frame rs) \<and>
    mset rs + open_replies 0 S + image_mset answer (open_requests 0 S) = {#echo_reply (lit ''hi'')#}"
proof -
  define rcv where "rcv = (\<lambda>_ :: nat. [])(0 := frame (lit ''hi''))"
  have rcv: "decode (rcv 0) = ([lit ''hi''], [])" using sample_decoded(4) by (simp only: rcv_def fun_upd_same)
  from sample_request [OF sample_decoded(1)] obtain S c
    where S: "sample_reach S rcv (\<lambda>_. [])" "sv_heap S 0 = Some c" "\<not> cn_disconnect c"
    unfolding rcv_def by blast
  have "headers_ok (rcv 0)" "list_all nul_free (fst (decode (rcv 0)))"
    using sample_decoded(1,2) by (simp_all add: headers_ok_def rcv)
  from every_request_accounted_for [OF sample_linux S this] S(2) show ?thesis
    unfolding rcv fst_conv by auto
qed

lemma sample_served_hi:
  obtains S c rcv snt where "sample_reach S rcv snt" "sv_heap S 0 = Some c" "\<not> cn_disconnect c"
    and "decode (rcv 0) = ([lit ''hi''], [])" and "snt 0 = frame (echo_reply (lit ''hi''))"
    and "conn_out c = []" "concat (queues S) = []" "ThreadPool_size (worker_pool S) = 1"
proof -
  define rcv snt where "rcv = (\<lambda>_ :: nat. [])(0 := frame (lit ''hi''))"
    and "snt = (\<lambda>_ :: nat. [])(0 := frame (echo_reply (lit ''hi'')))"
  have "decode (rcv 0) = ([lit ''hi''], [])" and "snt 0 = frame (echo_reply (lit ''hi''))"
    using sample_decoded(4) by (simp_all only: rcv_def snt_def fun_upd_same)
  with sample_served [OF sample_decoded(1,2), folded rcv_def snt_def] that show ?thesis by blast
qed

text \<open>
  C6. When everything is done each request has had its reply, and nothing else has been sent. On a connection
  on which every header received is neither negative nor overflows, no request contains a NUL and every echo fits its
  header: where nothing is left
  in the output buffer of an open connection, in the queues of the loops and with the workers, the bytes sent
  decode to exactly one echo of each request (in any order).
\<close>

theorem drained_connection_has_all_replies:
  assumes "epoll_kernel (mc_ctl mc)" and "reachable (traced_init mc) (traced_step mc) (S, rcv, snt)"
    and "sv_heap S cid = Some c" and "\<not> cn_disconnect c"
    and "headers_ok (rcv cid)" and "list_all nul_free (fst (decode (rcv cid)))"
    and "list_all (frame_ok \<circ> echo_reply) (fst (decode (rcv cid)))"
    and "conn_out c = []" and "open_replies cid S = {#}" and "open_requests cid S = {#}"
  shows "mset (fst (decode (snt cid))) = image_mset echo_reply (mset (fst (decode (rcv cid)))) \<and>
    snd (decode (snt cid)) = []"
proof -
  let ?ms = "fst (decode (rcv cid))"
  obtain rs where rs: "snt cid = concat (map frame rs)" "mset rs = mset (map echo_reply ?ms)"
    using every_request_accounted_for [OF assms(1-6)] assms(8-10) by auto
  have "set rs = set (map echo_reply ?ms)" using rs(2) by (rule mset_eq_setD)
  with assms(7) have "list_all frame_ok rs" by (simp add: list_all_iff)
  then have "stream_of frame frame_ok (snt cid) rs []" by (simp add: stream_of_def rs(1))
  with rs(2) show ?thesis by (simp add: stream_decode)
qed

lemma drained_connection_has_all_replies_witness:
  "\<exists>S. reachable (traced_init sample_machine) (traced_step sample_machine)
      (S, (\<lambda>_. [])(0 := frame (lit ''hi'')), (\<lambda>_. [])(0 := frame (echo_reply (lit ''hi'')))) \<and>
    mset (fst (decode (frame (echo_reply (lit ''hi''))))) = {#echo_reply (lit ''hi'')#}"
proof -
  define rcv snt where "rcv = (\<lambda>_ :: nat. [])(0 := frame (lit ''hi''))"
    and "snt = (\<lambda>_ :: nat. [])(0 := frame (echo_reply (lit ''hi'')))"
  have rcv: "decode (rcv 0) = ([lit ''hi''], [])" and snt: "snt 0 = frame (echo_reply (lit ''hi''))"
    using sample_decoded(4) by (simp_all only: rcv_def snt_def fun_upd_same)
  from sample_served [OF sample_decoded(1,2)] obtain S c
    where S: "sample_reach S rcv snt" "sv_heap S 0 = Some c" "\<not> cn_disconnect c"
    and drained: "conn_out c = []" "pool_tasks (worker_pool S) = []" "concat (queues S) = []"
    unfolding rcv_def snt_def by blast
  have "headers_ok (rcv 0)" "list_all nul_free (fst (decode (rcv 0)))" "list_all (frame_ok \<circ> echo_reply) (fst (decode (rcv 0)))"
    using sample_decoded(1-3) by (simp_all add: headers_ok_def rcv)
  moreover have "open_replies 0 S = {#}" "open_requests 0 S = {#}"
    unfolding open_replies_def open_requests_def drained(2,3) by simp_all
  ultimately have "mset (fst (decode (snt 0))) = {#echo_reply (lit ''hi'')#}"
    using drained_connection_has_all_replies [OF sample_linux S] drained(1) unfolding rcv by simp
  with S(1) show ?thesis unfolding snt unfolding rcv_def snt_def by blast
qed

text \<open>A peer that has received some of a stream of frames decodes some of the messages.\<close>

lemma prefix_decode:
  assumes "prefix s (concat (map frame rs))" and "list_all frame_ok rs"
  shows "\<exists>k. fst (decode s) = take k rs"
  using wire.stream_of_prefix [OF assms] by (auto simp: stream_decode)

text \<open>
  C8. Nothing else is ever sent. On every connection, open, closed or destroyed, and whatever its
  peer has sent: a peer that decodes the bytes the server has sent gets only answers to requests
  of this connection that were handed to the workers, each at most once (if no answer is too long for its header).
\<close>

theorem only_answers_are_sent:
  assumes "epoll_kernel (mc_ctl mc)" and "reachable (traced_init mc) (traced_step mc) (S, rcv, snt)"
    and "list_all (frame_ok \<circ> answer) (tasks_for cid (p_submitted (worker_pool S)))"
  shows "mset (fst (decode (snt cid))) \<subseteq># image_mset answer (mset (tasks_for cid (p_submitted (worker_pool S))))"
proof -
  let ?v = "view cid (S, rcv, snt)" and ?ts = "tasks_for cid (p_submitted (worker_pool S))"
  obtain rs where "accounts ?v rs" using reachable_accounts(1) [OF assms(1,2)] by blast
  moreover have "sr_requests ?v = ?ts" "sr_sent ?v = snt cid" by (simp_all add: view_def)
  ultimately have sub: "mset rs + (mset (sr_replies ?v) + image_mset answer (mset (sr_working ?v))) \<subseteq># image_mset answer (mset ?ts)"
    and pre: "prefix (snt cid) (concat (map frame rs))"
    by (simp_all add: accounts_def union_assoc)
  have rs: "mset rs \<subseteq># image_mset answer (mset ?ts)"
    using sub by (meson mset_subset_eq_add_left subset_mset.order_trans)
  have "list_all frame_ok rs"
    unfolding list_all_iff
  proof
    fix r assume "r \<in> set rs"
    then have "r \<in># image_mset answer (mset ?ts)" using mset_subset_eqD [OF rs, of r] by simp
    then obtain t where "t \<in> set ?ts" "r = answer t" by auto
    with assms(3) show "frame_ok r" unfolding list_all_iff comp_def by blast
  qed
  from prefix_decode [OF pre this] obtain k where "fst (decode (snt cid)) = take k rs" by blast
  moreover have "mset (take k rs) \<subseteq># mset (take k rs @ drop k rs)"
    by (simp only: mset_append mset_subset_eq_add_left)
  ultimately have "mset (fst (decode (snt cid))) \<subseteq># mset rs" by simp
  then show ?thesis using rs by (rule subset_mset.order_trans)
qed

lemma only_answers_are_sent_witness:
  "\<exists>S. tasks_for 0 (p_submitted (worker_pool S)) = [work_text (lit ''hi'')] \<and>
    mset (fst (decode (frame (echo_reply (lit ''hi''))))) \<subseteq># image_mset answer (mset (tasks_for 0 (p_submitted (worker_pool S))))"
proof -
  obtain S c rcv snt where S: "sample_reach S rcv snt" "sv_heap S 0 = Some c" "\<not> cn_disconnect c"
    and rcv: "decode (rcv 0) = ([lit ''hi''], [])" and snt: "snt 0 = frame (echo_reply (lit ''hi''))"
    by (rule sample_served_hi)
  have "decoded (view 0 (S, rcv, snt))" using reachable_accounts(2) [OF sample_linux S(1)] .
  moreover have "headers_ok (rcv 0)" using sample_decoded(1) by (simp add: headers_ok_def rcv)
  moreover have "sr_requests (view 0 (S, rcv, snt)) = tasks_for 0 (p_submitted (worker_pool S))" by (simp add: view_def)
  ultimately have tasks: "tasks_for 0 (p_submitted (worker_pool S)) = [work_text (lit ''hi'')]"
    using view_some [OF S(2), of rcv snt] S(3) rcv by (simp add: decoded_def)
  then have "list_all (frame_ok \<circ> answer) (tasks_for 0 (p_submitted (worker_pool S)))"
    using sample_decoded(3) by (simp add: answer_work_text)
  from only_answers_are_sent [OF sample_linux S(1) this] tasks show ?thesis unfolding snt by blast
qed

subsection \<open>The order of the replies\<close>

text \<open>
  C23. Replies stay in order up to the number of workers. On an open connection on which every header received is
  neither negative nor overflows and no request contains a NUL (so that no reply is cut) a reply overtakes
  at most as many others as there are workers beyond the first: the first \<open>k\<close> replies, framed or queued, belong to
  requests among the first \<open>k + (n - 1)\<close>, where \<open>n\<close> is the number of worker threads.
\<close>

theorem replies_overtake_at_most_workers:
  assumes "epoll_kernel (mc_ctl mc)" and "reachable (traced_init mc) (traced_step mc) (S, rcv, snt)"
    and "sv_heap S cid = Some c" and "\<not> cn_disconnect c"
    and "headers_ok (rcv cid)" and "list_all nul_free (fst (decode (rcv cid)))"
  shows "\<exists>rs. snt cid @ conn_out c = concat (map frame rs) \<and>
    (\<forall>k. k \<le> length rs + length (replies_for cid (concat (queues S))) \<longrightarrow>
      mset (take k (rs @ replies_for cid (concat (queues S)))) \<subseteq>#
        mset (map echo_reply (take (k + (ThreadPool_size (worker_pool S) - 1)) (fst (decode (rcv cid))))))"
proof -
  obtain rs where rs: "snt cid @ conn_out c = concat (map frame rs)"
    "picked (ThreadPool_size (worker_pool S)) (map echo_reply (fst (decode (rcv cid))))
      (rs @ replies_for cid (concat (queues S))) (map answer (tasks_for cid (pending (worker_pool S))))"
    by (rule open_connection_accounts [OF assms])
  have "0 < ThreadPool_size (worker_pool S)" using traced_workers [OF assms(1,2)] .
  with picked_overtakes [OF rs(2)] rs(1) show ?thesis
    by (intro exI [of _ rs]) (simp add: take_map)
qed

lemma replies_overtake_at_most_workers_witness:
  "\<exists>rs. frame (echo_reply (lit ''hi'')) = concat (map frame rs) \<and> mset rs \<subseteq># {#echo_reply (lit ''hi'')#}"
proof -
  obtain S c rcv snt where S: "sample_reach S rcv snt" "sv_heap S 0 = Some c" "\<not> cn_disconnect c"
    and rcv: "decode (rcv 0) = ([lit ''hi''], [])" and snt: "snt 0 = frame (echo_reply (lit ''hi''))"
    and drained: "conn_out c = []" "concat (queues S) = []" "ThreadPool_size (worker_pool S) = 1"
    by (rule sample_served_hi)
  have "headers_ok (rcv 0)" "list_all nul_free (fst (decode (rcv 0)))"
    using sample_decoded(1,2) by (simp_all add: headers_ok_def rcv)
  from replies_overtake_at_most_workers [OF sample_linux S this] drained(1)
  obtain rs where rs: "snt 0 = concat (map frame rs)" "\<forall>k\<le>length rs + length (replies_for 0 (concat (queues S))).
      mset (take k (rs @ replies_for 0 (concat (queues S)))) \<subseteq>#
        mset (map echo_reply (take (k + (ThreadPool_size (worker_pool S) - 1)) (fst (decode (rcv 0)))))"
    by auto
  have "mset (take (length rs) rs) \<subseteq># mset (map echo_reply (take (length rs) [lit ''hi'']))"
    using rs(2) [rule_format, of "length rs"] unfolding drained(2,3) rcv by simp
  also have "\<dots> \<subseteq># {#echo_reply (lit ''hi'')#}" by (cases rs) simp_all
  finally show ?thesis using rs(1) unfolding snt by auto
qed

text \<open>
  C5. With one worker the replies come in the order of the requests. In every reachable state, on an open connection on
  which every header received is neither negative nor overflows, no request contains a NUL and every echo fits its header: the replies
  framed, those in the queue of its loop and those the worker still owes, in this order, are the echoes of the requests
  in their order; what its peer has decoded is at any time a prefix of that list.
\<close>

theorem one_worker_replies_in_order:
  assumes "epoll_kernel (mc_ctl mc)" and "reachable (traced_init mc) (traced_step mc) (S, rcv, snt)"
    and "sv_heap S cid = Some c" and "\<not> cn_disconnect c"
    and "headers_ok (rcv cid)" and "list_all nul_free (fst (decode (rcv cid)))"
    and "list_all (frame_ok \<circ> echo_reply) (fst (decode (rcv cid)))"
    and "ThreadPool_size (worker_pool S) = 1"
  shows "(\<exists>rs. snt cid @ conn_out c = concat (map frame rs) \<and>
      rs @ replies_for cid (concat (queues S)) @ map answer (tasks_for cid (pending (worker_pool S))) =
        map echo_reply (fst (decode (rcv cid)))) \<and>
    prefix (fst (decode (snt cid))) (map echo_reply (fst (decode (rcv cid))))"
proof -
  let ?ms = "fst (decode (rcv cid))"
  obtain rs where rs: "snt cid @ conn_out c = concat (map frame rs)"
    "map echo_reply ?ms = (rs @ replies_for cid (concat (queues S))) @ map answer (tasks_for cid (pending (worker_pool S)))"
    using open_connection_accounts [OF assms(1-6)] picked_one unfolding assms(8) by metis
  have "set rs \<subseteq> set (map echo_reply ?ms)" unfolding rs(2) by auto
  then have "list_all frame_ok rs" using assms(7) by (auto simp: list_all_iff)
  moreover have "prefix (snt cid) (concat (map frame rs))" by (simp flip: rs(1))
  ultimately obtain k where "fst (decode (snt cid)) = take k rs" using prefix_decode by blast
  then have "prefix (fst (decode (snt cid))) (map echo_reply ?ms)"
    unfolding rs(2) by (simp add: take_is_prefix prefix_prefix)
  with rs show ?thesis by auto
qed

lemma one_worker_replies_in_order_witness:
  "\<exists>rs. frame (echo_reply (lit ''hi'')) = concat (map frame rs) \<and>
    prefix rs [echo_reply (lit ''hi'')] \<and> prefix (fst (decode (frame (echo_reply (lit ''hi''))))) [echo_reply (lit ''hi'')]"
proof -
  obtain S c rcv snt where S: "sample_reach S rcv snt" "sv_heap S 0 = Some c" "\<not> cn_disconnect c"
    and rcv: "decode (rcv 0) = ([lit ''hi''], [])" and snt: "snt 0 = frame (echo_reply (lit ''hi''))"
    and drained: "conn_out c = []" "concat (queues S) = []" "ThreadPool_size (worker_pool S) = 1"
    by (rule sample_served_hi)
  have "headers_ok (rcv 0)" "list_all nul_free (fst (decode (rcv 0)))" "list_all (frame_ok \<circ> echo_reply) (fst (decode (rcv 0)))"
    using sample_decoded(1-3) by (simp_all add: headers_ok_def rcv)
  from one_worker_replies_in_order [OF sample_linux S this drained(3)] obtain rs where
    "frame (echo_reply (lit ''hi'')) = concat (map frame rs)" "prefix rs [echo_reply (lit ''hi'')]"
    and "prefix (fst (decode (snt 0))) [echo_reply (lit ''hi'')]"
    unfolding rcv snt drained(1,2) by (force intro: prefixI [OF sym])
  then show ?thesis unfolding snt by blast
qed

text \<open>
  C24. The replies of one connection may leave in another order than its requests came. Where two
  workers have taken a request each, whichever came first, the reply to the other one can be queued first.
\<close>

theorem replies_can_be_swapped:
  assumes c: "sv_heap S cid = Some c" "cn_id c = cid" "\<not> cn_disconnect c" and l: "get_loop (cn_loop c) S = Some l"
    and reg: "cid \<in> snd ` set (ts_conns (sv_tcpserver S))" and "i \<noteq> j" and "nul_free m" and "nul_free m'"
    and "at (worker_pool S) i (Running (request_task cid m))" and "at (worker_pool S) j (Running (request_task cid m'))"
  shows "\<exists>S' l'. (background_step mc)\<^sup>*\<^sup>* S S' \<and> get_loop (cn_loop c) S' = Some l' \<and>
    el_taskqueue l' = el_taskqueue l @ [reply_task (cid, echo_reply m'), reply_task (cid, echo_reply m)]"
proof -
  let ?S = "\<lambda>i m l' S. release echo_owns
    (set_pool (task_done i (request_task cid m) (worker_pool S)) (set_loop (cn_loop c) l' S))"
  obtain l1 where l1: "el_taskqueue l1 = el_taskqueue l @ [reply_task (cid, echo_reply m')]"
    and one: "background_step mc S (?S j m' l1 S)"
    using worker_answers [OF c l assms(10,8), of mc] queueinloop_simps(1) by blast
  have "sv_heap (?S j m' l1 S) cid = Some c"
    by (rule registered_kept) (use c reg in \<open>simp_all add: set_pool_def\<close>)
  moreover have "at (worker_pool (?S j m' l1 S)) i (Running (request_task cid m))"
    using assms(6,9) by (simp add: release_def Let_def set_pool_def)
  moreover obtain l2 where l2: "get_loop (cn_loop c) (?S j m' l1 S) = Some l2" "el_taskqueue l2 = el_taskqueue l1"
    using l by (auto simp: get_loop_release Socket_close_def)
  ultimately obtain l3 where l3: "el_taskqueue l3 = el_taskqueue l2 @ [reply_task (cid, echo_reply m)]"
    and two: "background_step mc (?S j m' l1 S) (?S i m l3 (?S j m' l1 S))"
    using worker_answers [OF _ c(2,3) l2(1) _ assms(7), of i mc] queueinloop_simps(1) by blast
  have "\<exists>l'. get_loop (cn_loop c) (?S i m l3 (?S j m' l1 S)) = Some l' \<and> el_taskqueue l' = el_taskqueue l3"
    using l2 by (auto simp: get_loop_release Socket_close_def)
  with one two l1 l2 l3 show ?thesis by (metis append.assoc append_Cons append_Nil rtranclp.simps)
qed

text \<open>The sample server with two workers that have a request each.\<close>

definition sample_working :: "echoserver server" where
  "sample_working = set_pool ((ThreadPool_new 2)\<lparr>p_threads :=
     [Running (request_task 0 (lit ''hi'')), Running (request_task 0 (lit ''you''))]\<rparr>) sample_server"

lemma sample_working_simps:
  "sv_heap sample_working = [0 \<mapsto> sample_conn]" "get_loop 1 sample_working = Some sample_loop"
  "sv_tcpserver sample_working = sample_tcpserver" "cn_loop sample_conn = 1"
  "at (worker_pool sample_working) 0 (Running (request_task 0 (lit ''hi'')))"
  "at (worker_pool sample_working) 1 (Running (request_task 0 (lit ''you'')))"
  by (simp_all add: sample_working_def sample_server_def set_pool_def get_loop_def at_def sample_conn_def)

lemma replies_can_be_swapped_witness:
  "\<exists>S' l'. (background_step sample_machine)\<^sup>*\<^sup>* sample_working S' \<and> get_loop 1 S' = Some l' \<and>
    el_taskqueue l' = [reply_task (0, echo_reply (lit ''you'')), reply_task (0, echo_reply (lit ''hi''))]"
proof -
  have "nul_free (lit ''hi'')" "nul_free (lit ''you'')" by (simp_all add: nul_free_def lit_def)
  from replies_can_be_swapped [OF _ _ _ _ _ _ this sample_working_simps(5,6), of sample_conn sample_loop sample_machine]
  show ?thesis by (simp add: sample_working_simps(1,3,4) sample_working_simps(2) [unfolded One_nat_def] sample_tcpserver_simps)
qed

subsection \<open>Between \<^verbatim>\<open>epoll_wait\<close> and the stored events\<close>

lemma collect_one_dangling:
  assumes "(ev, p) \<in> set evs" and "chan_deref p S = None"
  shows "Epoll_loop chan_deref chan_put (Wait_events evs) S = Inl (Undefined Use_after_free)"
proof -
  have "\<exists>e\<in>set evs. chan_deref (snd e) S = None" using assms by force
  then obtain as e bs where evs: "evs = as @ e # bs" and e: "chan_deref (snd e) S = None"
    and as: "\<forall>x\<in>set as. chan_deref (snd x) S \<noteq> None"
    using split_list_first_prop [of evs "\<lambda>e. chan_deref (snd e) S = None"] by blast
  have "Epoll_collect chan_deref chan_put (as @ (fst e, snd e) # bs) S = Inl (Undefined Use_after_free)"
    using e as by (intro server_channels.collect_dangling) auto
  then show ?thesis by (simp add: Epoll_loop_def evs)
qed

text \<open>
  C26. A worker can free a connection whose event has been reported. Where the task of a worker
  is the last owner of a connection and ends after \<^verbatim>\<open>epoll_wait\<close> has returned an event of it, the loop that stores
  the events writes to the channel of the freed object.
\<close>

theorem worker_frees_reported_connection:
  assumes c: "sv_heap S cid = Some c" "cn_id c = cid" "\<not> cn_disconnect c" and l: "get_loop (cn_loop c) S = Some l"
    and "kernel_reports l evs" and event: "(ev, Client_channel cid) \<in> set evs"
    and work: "at (worker_pool S) i (Running (request_task cid m))" "nul_free m"
    and last: "cid \<notin> snd ` set (ts_conns (sv_tcpserver S))" "\<forall>l\<in>set (loops S). cid \<notin> snd ` set (el_conns l)"
      "cid \<notin> task_conn ` set (p_queue (worker_pool S))"
      "\<forall>j t. j \<noteq> i \<longrightarrow> at (worker_pool S) j (Running t) \<longrightarrow> task_conn t \<noteq> cid"
  shows "\<exists>S'. background_step mc S S' \<and>
    Epoll_loop chan_deref chan_put (Wait_events evs) S' = Inl (Undefined Use_after_free)"
proof -
  let ?p = "task_done i (request_task cid m) (worker_pool S)"
  let ?l = "EventLoop_queueinloop (mc_evwrite mc) (reply_task (cid, echo_reply m)) l"
  obtain l' where l': "el_conns l' = el_conns l"
    and step: "background_step mc S (release echo_owns (set_pool ?p (set_loop (cn_loop c) l' S)))"
    using worker_answers [OF c l work, of mc] by (intro that [of ?l]) (simp_all add: EventLoop_queueinloop_def EventLoop_wakeup_def)
  let ?S = "set_pool ?p (set_loop (cn_loop c) l' S)"
  have "cid \<notin> snd ` set (el_conns k)" if "k \<in> set (loops ?S)" for k
  proof -
    have "loops ?S = (loops S)[cn_loop c := l']" by (simp add: set_pool_def loops_def set_loop_def split: nat.splits)
    with that have "k = l' \<or> k \<in> set (loops S)" using set_update_subset_insert by fastforce
    with l' obtain k' where "k' \<in> set (loops S)" "el_conns k = el_conns k'"
      using get_loop_mem [OF l] by blast
    then show ?thesis using last(2) by simp
  qed
  moreover have "cid \<notin> task_conn ` set (pool_tasks ?p)"
  proof
    assume "cid \<in> task_conn ` set (pool_tasks ?p)"
    with last(3) obtain t where t: "t \<in> set (running (p_threads ?p))" "task_conn t = cid"
      by (auto simp: pool_tasks_def task_done_def goto_def)
    then obtain j where "at ?p j (Running t)"
      by (auto simp: running_def running_task_def at_def in_set_conv_nth split: thread_state.splits)
    moreover from this have "j \<noteq> i" using work(1) by (auto simp: at_def task_done_def goto_def)
    ultimately show False using last(4) t(2) by auto
  qed
  ultimately have "cid \<notin> set (owners echo_owns ?S)"
    using last(1) by (auto simp: set_owners set_pool_def echo_owns_def)
  then have "chan_deref (Client_channel cid) (release echo_owns ?S) = None"
    by (simp add: chan_deref_def release_def Let_def)
  from collect_one_dangling [OF event this] step show ?thesis by blast
qed

text \<open>The timer has forgotten the connection while a worker still has a request of it.\<close>

definition sample_forgotten :: "echoserver server" where
  "sample_forgotten = set_pool ((ThreadPool_new 1)\<lparr>p_threads := [Running (request_task 0 (lit ''hi''))]\<rparr>)
     (sample_server\<lparr>sv_mainloop := sample_loop\<lparr>el_conns := []\<rparr>, sv_subloops := [sample_loop\<lparr>el_conns := []\<rparr>],
       sv_tcpserver := sample_tcpserver\<lparr>ts_conns := []\<rparr>\<rparr>)"

lemma worker_frees_reported_connection_witness:
  "\<exists>S'. background_step sample_machine sample_forgotten S' \<and>
    Epoll_loop chan_deref chan_put (Wait_events [(EPOLLIN, Client_channel 0)]) S' = Inl (Undefined Use_after_free)"
proof (rule worker_frees_reported_connection)
  show "sv_heap sample_forgotten 0 = Some sample_conn" "cn_id sample_conn = 0" "\<not> cn_disconnect sample_conn"
    "get_loop (cn_loop sample_conn) sample_forgotten = Some (sample_loop\<lparr>el_conns := []\<rparr>)"
    by (simp_all add: sample_forgotten_def sample_server_def set_pool_def get_loop_def sample_conn_def)
  show "kernel_reports (sample_loop\<lparr>el_conns := []\<rparr>) [(EPOLLIN, Client_channel 0)]"
    by (simp add: kernel_reports_def watched_def sample_loop_def sample_epoll_def exI [of _ 7])
  show "at (worker_pool sample_forgotten) 0 (Running (request_task 0 (lit ''hi'')))" "nul_free (lit ''hi'')"
    by (simp_all add: sample_forgotten_def set_pool_def at_def nul_free_def lit_def)
  show "\<forall>j t. j \<noteq> 0 \<longrightarrow> at (worker_pool sample_forgotten) j (Running t) \<longrightarrow> task_conn t \<noteq> 0"
    by (simp add: sample_forgotten_def set_pool_def at_def)
qed (simp_all add: sample_forgotten_def sample_server_def set_pool_def loops_def ThreadPool_new_def)

end
