(* ===== verification/Pool_Progress.thy ===== *)
theory Pool_Progress
  imports Echo_Objects
begin

text \<open>
  The worker pool between two tasks: the moves that neither submit nor finish one, and that as long as the pool
  is not stopped they always lead to a thread that runs a task, if there is one.
\<close>

subsection \<open>Moves\<close>

definition pool_move :: "'t pool \<Rightarrow> 't pool \<Rightarrow> bool" where
  "pool_move p p' \<longleftrightarrow>
     (\<exists>i. thread_step i p p' \<and> (\<forall>t. \<not> at p i (Running t))) \<or>
     env_step p p' \<and> p_submitted p' = p_submitted p \<and> p_stop p' = p_stop p"

text \<open>The tasks that are running and queued, in the order of a pool with one thread.\<close>

definition tasks_in_order :: "'t pool \<Rightarrow> 't list" where
  "tasks_in_order p = running (p_threads p) @ p_queue p"

lemma mset_tasks_in_order: "mset (tasks_in_order p) = mset (pool_tasks p)"
  by (simp add: tasks_in_order_def pool_tasks_def)

lemma running_single: "length ws = 1 \<Longrightarrow> running ws = running_task (ws ! 0)"
  by (cases ws) (auto simp: running_def)

lemma running_keep:
  "i < length ws \<Longrightarrow> running_task w = running_task (ws ! i) \<Longrightarrow> running (ws[i := w]) = running ws"
  by (induction ws arbitrary: i) (auto simp: running_def nth_Cons split: nat.splits)

lemma pool_move_pool: "pool_move p p' \<Longrightarrow> pool_step p p'"
  by (auto simp: pool_move_def pool_step_def)

lemma pool_move_size: "pool_move p p' \<Longrightarrow> ThreadPool_size p' = ThreadPool_size p"
  using pool_threads_step [OF pool_move_pool] by (simp add: ThreadPool_size_def)

lemma pool_move_tasks:
  assumes "pool_move p p'" and "\<not> p_stop p"
  shows "mset (pool_tasks p') = mset (pool_tasks p) \<and> \<not> p_stop p' \<and>
    (ThreadPool_size p = 1 \<longrightarrow> tasks_in_order p' = tasks_in_order p)"
proof -
  consider i where "thread_step i p p'" "\<forall>t. \<not> at p i (Running t)" | "env_step p p'" "p_submitted p' = p_submitted p" "p_stop p' = p_stop p"
    using assms(1) by (auto simp: pool_move_def)
  then show ?thesis
  proof cases
    case 1
    from 1(1) show ?thesis
    proof (cases rule: thread_step.cases)
      case (pop t q)
      then have i: "i < length (p_threads p)" "p_threads p ! i = Past_wait" by (simp_all add: at_def)
      have "mset (running ((p_threads p)[i := Running t])) = mset (running (p_threads p)) + {#t#}"
        using running_update_add [OF i(1), of "Running t"] i(2) by (simp add: running_task_def)
      moreover have "running ((p_threads p)[i := Running t]) = [t] \<and> running (p_threads p) = []" if "length (p_threads p) = 1"
        using that i running_single [of "p_threads p"] running_single [of "(p_threads p)[i := Running t]"]
        by (simp add: running_task_def)
      ultimately show ?thesis
        using pop assms(2) by (auto simp: pool_tasks_def tasks_in_order_def ThreadPool_size_def)
    qed (use 1(2) assms(2) in \<open>auto simp: pool_tasks_def tasks_in_order_def at_def running_task_def running_keep\<close>)
  next
    case 2
    from 2(1) show ?thesis
      by (cases rule: env_step.cases)
        (use 2(2,3) assms(2) in \<open>auto simp: pool_tasks_def tasks_in_order_def at_def running_task_def running_keep\<close>)
  qed
qed

text \<open>A pool that serves; and one that has nothing to do.\<close>

definition pool_serves :: "'t pool \<Rightarrow> bool" where
  "pool_serves p \<longleftrightarrow> pool_inv p \<and> \<not> p_stop p \<and> ThreadPool_size p \<noteq> 0"

lemma pool_serves_move: "pool_serves p \<Longrightarrow> pool_move p p' \<Longrightarrow> pool_serves p'"
  using pool_move_tasks [of p p'] pool_inv_step [of p p'] pool_move_pool [of p p'] pool_move_size [of p p']
  by (auto simp: pool_serves_def)

lemma pool_serves_moves: "pool_move\<^sup>*\<^sup>* p p' \<Longrightarrow> pool_serves p \<Longrightarrow> pool_serves p' \<and> mset (pool_tasks p') = mset (pool_tasks p)"
proof (induction rule: rtranclp_induct)
  case (step q r)
  then show ?case using pool_serves_move [of q r] pool_move_tasks [of q r] by (simp add: pool_serves_def)
qed simp

subsection \<open>Progress\<close>

lemma moveI: "thread_step i p p' \<Longrightarrow> at p i w \<Longrightarrow> \<forall>t. w \<noteq> Running t \<Longrightarrow> pool_move p p'"
  by (auto simp: pool_move_def at_def)

lemma at_goto [simp]: "at p i w \<Longrightarrow> at (goto i w' p) i w'"
  by (simp add: at_def goto_def)

lemma at_fields [simp]:
  "at (p\<lparr>p_mutex := m\<rparr>) i w \<longleftrightarrow> at p i w"
  "at (p\<lparr>p_notify := n\<rparr>) i w \<longleftrightarrow> at p i w"
  "at (p\<lparr>p_mutex := m, p_queue := q, p_started := ts\<rparr>) i w \<longleftrightarrow> at p i w"
  by (simp_all add: at_def)

definition runs_task :: "'t pool \<Rightarrow> bool" where
  "runs_task p \<longleftrightarrow> (\<exists>i t. at p i (Running t))"

lemma past_wait_runs:
  assumes "at p i Past_wait" and "p_queue p \<noteq> []"
  shows "\<exists>p'. pool_move\<^sup>*\<^sup>* p p' \<and> runs_task p'"
proof -
  obtain t q where q: "p_queue p = t # q" using assms(2) by (cases "p_queue p") auto
  from moveI [OF thread_step.pop [OF assms(1) q] assms(1)] assms(1) show ?thesis
    unfolding runs_task_def by (blast intro: r_into_rtranclp at_goto at_fields(3) [THEN iffD2])
qed

lemma predicate_runs:
  assumes "at p i At_predicate" and "p_queue p \<noteq> []"
  shows "\<exists>p'. pool_move\<^sup>*\<^sup>* p p' \<and> runs_task p'"
proof -
  have "wait_predicate p" using assms(2) by (simp add: wait_predicate_def)
  from moveI [OF thread_step.predicate_true [OF assms(1) this] assms(1)]
  have "pool_move p (goto i Past_wait p)" by simp
  moreover have "at (goto i Past_wait p) i Past_wait" "p_queue (goto i Past_wait p) \<noteq> []" using assms by simp_all
  from past_wait_runs [OF this] obtain p' where "pool_move\<^sup>*\<^sup>* (goto i Past_wait p) p'" "runs_task p'" by blast
  ultimately show ?thesis by (blast intro: converse_rtranclp_into_rtranclp)
qed

lemma locking_runs:
  assumes "at p i w" and "w = At_lock \<or> w = Woken" and "p_mutex p = None" and "p_queue p \<noteq> []"
  shows "\<exists>p'. pool_move\<^sup>*\<^sup>* p p' \<and> runs_task p'"
proof -
  let ?p = "goto i At_predicate (p\<lparr>p_mutex := Some i\<rparr>)"
  have "thread_step i p ?p"
    using assms(1-3) by (auto intro: thread_step.lock thread_step.relock)
  from moveI [OF this assms(1)] assms(2) have "pool_move p ?p" by auto
  moreover have "at ?p i At_predicate" "p_queue ?p \<noteq> []" using assms(1,4) by simp_all
  from predicate_runs [OF this] obtain p' where "pool_move\<^sup>*\<^sup>* ?p p'" "runs_task p'" by blast
  ultimately show ?thesis by (blast intro: converse_rtranclp_into_rtranclp)
qed

lemma eager_runs:
  assumes "at p i At_loop" and "\<not> p_stop p" and "p_mutex p = None" and "p_queue p \<noteq> []"
  shows "\<exists>p'. pool_move\<^sup>*\<^sup>* p p' \<and> runs_task p'"
proof -
  from moveI [OF thread_step.loop_again [OF assms(1,2)] assms(1)] have "pool_move p (goto i At_lock p)" by simp
  moreover have "at (goto i At_lock p) i At_lock" "p_mutex (goto i At_lock p) = None" "p_queue (goto i At_lock p) \<noteq> []"
    using assms by simp_all
  from locking_runs [OF this(1) _ this(2,3)] obtain p' where "pool_move\<^sup>*\<^sup>* (goto i At_lock p) p'" "runs_task p'" by blast
  ultimately show ?thesis by (blast intro: converse_rtranclp_into_rtranclp)
qed

text \<open>Where every thread sleeps, a notification is still to come.\<close>

lemma asleep_runs:
  assumes "awake_inv p" and "\<not> p_stop p" and "ThreadPool_size p \<noteq> 0" and "p_mutex p = None" and "p_queue p \<noteq> []"
    and "\<And>i. i < ThreadPool_size p \<Longrightarrow> at p i Asleep"
  shows "\<exists>p'. pool_move\<^sup>*\<^sup>* p p' \<and> runs_task p'"
proof -
  have all: "w = Asleep" if "w \<in> set (p_threads p)" for w
    using that assms(6) by (auto simp: in_set_conv_nth at_def ThreadPool_size_def)
  then have none: "sum_list (map eager (p_threads p)) = 0" by (force simp: sum_list_eq_0_iff eager_def)
  have zero: "at p 0 Asleep" using assms(3,6) by simp
  then have "Asleep \<in> set (p_threads p)" by (auto simp: at_def in_set_conv_nth)
  with assms(1,2) have "length (p_queue p) \<le> p_notify p" unfolding awake_inv_def none by simp
  then obtain n where n: "p_notify p = Suc n" using assms(5) by (cases "p_notify p") auto
  let ?p = "goto 0 Woken (p\<lparr>p_notify := n\<rparr>)"
  have "pool_move p ?p"
    using env_step.addtask_notify [OF n zero] by (simp add: pool_move_def)
  moreover have "at ?p 0 Woken" "p_mutex ?p = None" "p_queue ?p \<noteq> []" using zero assms(4,5) by simp_all
  from locking_runs [OF this(1) _ this(2,3)] obtain p' where "pool_move\<^sup>*\<^sup>* ?p p'" "runs_task p'" by blast
  ultimately show ?thesis by (blast intro: converse_rtranclp_into_rtranclp)
qed

text \<open>A task that is there will be run.\<close>

lemma pool_runs_task:
  assumes "pool_serves p" and "pool_tasks p \<noteq> []"
  shows "\<exists>p'. pool_move\<^sup>*\<^sup>* p p' \<and> runs_task p'"
proof (cases "runs_task p")
  case False
  have inv: "mutex_inv p" "predicate_inv p" "awake_inv p" "\<not> p_stop p" "ThreadPool_size p \<noteq> 0"
    using assms(1) by (auto simp: pool_serves_def pool_inv_def)
  have "running (p_threads p) = []"
    using False by (force simp: runs_task_def running_def running_task_def at_def in_set_conv_nth split: thread_state.splits)
  with assms(2) have q: "p_queue p \<noteq> []" by (simp add: pool_tasks_def)
  show ?thesis
  proof (cases "p_mutex p")
    case (Some i)
    with inv(1) have i: "at p i (p_threads p ! i)" "holds_mutex (p_threads p ! i)" by (auto simp: mutex_inv_def at_def)
    moreover have "p_threads p ! i \<noteq> At_wait" using inv(2) i(1) q by (auto simp: predicate_inv_def at_def)
    ultimately have "at p i At_predicate \<or> at p i Past_wait" by (auto simp: holds_mutex_def)
    with q show ?thesis by (blast intro: predicate_runs past_wait_runs)
  next
    case None
    have at: "at p i w" if "i < ThreadPool_size p" "w = p_threads p ! i" for i w
      using that by (simp add: at_def ThreadPool_size_def)
    have kind: "at p i At_loop \<or> at p i At_lock \<or> at p i Woken \<or> at p i Asleep" if "i < ThreadPool_size p" for i
    proof -
      have "\<not> holds_mutex (p_threads p ! i)" using inv(1) that None by (auto simp: mutex_inv_def ThreadPool_size_def)
      moreover have "p_threads p ! i \<noteq> Exited"
        using inv(3,4) that nth_mem [of i "p_threads p"] by (metis awake_inv_def ThreadPool_size_def)
      moreover have "p_threads p ! i \<noteq> Running t" for t using False that by (auto simp: runs_task_def at_def ThreadPool_size_def)
      ultimately show ?thesis using at [OF that refl] by (cases "p_threads p ! i") auto
    qed
    show ?thesis
    proof (cases "\<exists>i. at p i At_loop \<or> at p i At_lock \<or> at p i Woken")
      case True
      then show ?thesis using eager_runs [OF _ inv(4) None q] locking_runs [OF _ _ None q] by blast
    next
      case False
      with kind asleep_runs [OF inv(3-5) None q] show ?thesis by blast
    qed
  qed
qed blast

text \<open>The mutex becomes free.\<close>

lemma pool_unlocks:
  assumes "pool_serves p"
  shows "\<exists>p'. pool_move\<^sup>*\<^sup>* p p' \<and> p_mutex p' = None"
proof (cases "p_mutex p")
  case (Some i)
  have inv: "mutex_inv p" "predicate_inv p" "\<not> p_stop p" using assms by (auto simp: pool_serves_def pool_inv_def)
  have wait: "\<exists>p'. pool_move\<^sup>*\<^sup>* q p' \<and> p_mutex p' = None" if "at q i At_wait" for q :: "'a pool"
    using moveI [OF thread_step.block [OF that] that] by (auto intro!: exI [of _ "goto i Asleep (q\<lparr>p_mutex := None\<rparr>)"])
  have past: "\<exists>p'. pool_move\<^sup>*\<^sup>* q p' \<and> p_mutex p' = None" if q: "at q i Past_wait" "p_queue q \<noteq> []" for q :: "'a pool"
  proof -
    obtain t ts where "p_queue q = t # ts" using q(2) by (cases "p_queue q") auto
    from moveI [OF thread_step.pop [OF q(1) this] q(1)] show ?thesis
      by (auto intro!: exI [of _ "goto i (Running t) (q\<lparr>p_mutex := None, p_queue := ts, p_started := p_started q @ [t]\<rparr>)"])
  qed
  from Some inv(1) have at: "at p i (p_threads p ! i)" and "holds_mutex (p_threads p ! i)" by (auto simp: mutex_inv_def at_def)
  then consider "at p i At_predicate" | "at p i At_wait" | "at p i Past_wait" by (auto simp: holds_mutex_def)
  then show ?thesis
  proof cases
    case 1
    show ?thesis
    proof (cases "wait_predicate p")
      case True
      then have q: "p_queue p \<noteq> []" using inv(3) by (simp add: wait_predicate_def)
      from moveI [OF thread_step.predicate_true [OF 1 True] 1] have "pool_move p (goto i Past_wait p)" by simp
      moreover have "at (goto i Past_wait p) i Past_wait" using 1 by simp
      from past [OF this] q obtain p' where "pool_move\<^sup>*\<^sup>* (goto i Past_wait p) p'" "p_mutex p' = None" by auto
      ultimately show ?thesis by (blast intro: converse_rtranclp_into_rtranclp)
    next
      case False
      from moveI [OF thread_step.predicate_false [OF 1 False] 1] have "pool_move p (goto i At_wait p)" by simp
      moreover have "at (goto i At_wait p) i At_wait" using 1 by simp
      from wait [OF this] obtain p' where "pool_move\<^sup>*\<^sup>* (goto i At_wait p) p'" "p_mutex p' = None" by auto
      ultimately show ?thesis by (blast intro: converse_rtranclp_into_rtranclp)
    qed
  next
    case 2
    then show ?thesis by (rule wait)
  next
    case 3
    moreover have "p_queue p \<noteq> []" using inv(2,3) 3 by (auto simp: predicate_inv_def at_def wait_predicate_def)
    ultimately show ?thesis by (rule past)
  qed
qed blast

subsection \<open>Tasks come and go\<close>

lemma addtask_serves:
  assumes "pool_serves p" and "p_mutex p = None"
  shows "pool_serves (ThreadPool_addtask t p) \<and> p_mutex (ThreadPool_addtask t p) = None"
proof -
  have "pool_step p (ThreadPool_addtask t p)"
    using env_step.addtask_push [OF assms(2)] by (auto simp: pool_step_def)
  with assms show ?thesis by (auto simp: pool_serves_def ThreadPool_size_def intro: pool_inv_step)
qed

lemma addtasks_serve:
  "pool_serves p \<Longrightarrow> p_mutex p = None \<Longrightarrow> pool_serves (foldl (\<lambda>p t. ThreadPool_addtask t p) p ts)"
  by (induction ts arbitrary: p) (simp_all add: addtask_serves)

lemma finish_serves:
  assumes "pool_serves p" and "at p i (Running t)"
  shows "pool_serves (goto i At_loop (p\<lparr>p_done := p_done p @ [t]\<rparr>))"
proof -
  have "pool_step p (goto i At_loop (p\<lparr>p_done := p_done p @ [t]\<rparr>))"
    using thread_step.finish [OF assms(2)] by (auto simp: pool_step_def)
  with assms(1) show ?thesis by (auto simp: pool_serves_def ThreadPool_size_def intro: pool_inv_step)
qed

lemma finish_tasks:
  assumes "at p i (Running t)"
  shows "mset (pool_tasks p) = add_mset t (mset (pool_tasks (goto i At_loop (p\<lparr>p_done := ts\<rparr>))))"
    and "ThreadPool_size p = 1 \<Longrightarrow> tasks_in_order p = t # tasks_in_order (goto i At_loop (p\<lparr>p_done := ts\<rparr>))"
proof -
  have i: "i < length (p_threads p)" "p_threads p ! i = Running t" using assms by (simp_all add: at_def)
  from running_update_add [OF i(1), of At_loop] i(2)
  show "mset (pool_tasks p) = add_mset t (mset (pool_tasks (goto i At_loop (p\<lparr>p_done := ts\<rparr>))))"
    by (simp add: pool_tasks_def running_task_def)
  show "tasks_in_order p = t # tasks_in_order (goto i At_loop (p\<lparr>p_done := ts\<rparr>))" if "ThreadPool_size p = 1"
    using that i running_single [of "p_threads p"] running_single [of "(p_threads p)[i := At_loop]"]
    by (simp add: tasks_in_order_def ThreadPool_size_def running_task_def)
qed

end
