(* ===== verification/Server_Exchange.thy ===== *)
theory Server_Exchange
  imports Server_Round Service_Turns Pool_Progress
begin

text \<open>
  Requests and replies of one connection, under every interleaving: the thread of the loop reads what arrives in bursts, is
  woken by the eventfd and writes, and the workers take the requests, answer them and sleep, each at any time.
\<close>

subsection \<open>Steps\<close>

text \<open>The bursts that have not been read yet, the server, and the bytes that have been sent.\<close>

type_synonym exchange = "read_result list list \<times> echoserver server \<times> bytes"

abbreviation (input) map_outcome :: "('a \<Rightarrow> 'b) \<Rightarrow> 'a res option \<Rightarrow> 'b res option" where
  "map_outcome f \<equiv> map_option (map_sum id f)"

text \<open>
  A turn of the loop with one event, the task of worker \<open>i\<close>, or a move of the pool, each with what comes of it:
  \<open>None\<close> for one that does not return, and the failures. A handler that submits tasks waits until the mutex of the pool is free;
  \<open>wtid\<close> are the threads of the workers.
\<close>

inductive exchange_step ::
  "machine \<Rightarrow> nat \<Rightarrow> nat \<Rightarrow> int \<Rightarrow> (nat \<Rightarrow> int) \<Rightarrow> exchange \<Rightarrow> exchange res option \<Rightarrow> bool"
  for mc lid cid iotid wtid where
  reads: "p_mutex (worker_pool S) = None \<Longrightarrow>
    exchange_step mc lid cid iotid wtid (rs # bursts, S, sent) (map_outcome (\<lambda>S'. (bursts, S', sent))
      (EventLoop_turn (echo_env mc) lid iotid (Wait_events [(EPOLLIN, Client_channel cid)], turn_io mc stale rs 0) S))"
| wakes: "exchange_step mc lid cid iotid wtid (bursts, S, sent) (map_outcome (\<lambda>S'. (bursts, S', sent))
      (EventLoop_turn (echo_env mc) lid iotid (Wait_events [(EPOLLIN, Wake_channel lid)], turn_io mc stale [] 0) S))"
| writes: "sv_heap S cid = Some c \<Longrightarrow> conn_out c \<noteq> [] \<Longrightarrow> n \<le> int (length (conn_out c)) \<Longrightarrow>
    exchange_step mc lid cid iotid wtid (bursts, S, sent)
      (map_outcome (\<lambda>S'. (bursts, S', sent @ take (nat n) (conn_out c)))
        (EventLoop_turn (echo_env mc) lid iotid (Wait_events [(EPOLLOUT, Client_channel cid)], turn_io mc stale [] n) S))"
| works: "at (worker_pool S) i (Running t) \<Longrightarrow>
    exchange_step mc lid cid iotid wtid (bursts, S, sent)
      (map_outcome (\<lambda>S'. (bursts, release echo_owns (set_pool (task_done i t (worker_pool S')) S'), sent))
        (on_connection (\<lambda>s. Some (worker_exec (mc_ctl mc) (mc_evwrite mc) (wtid i) t s)) (task_conn t) S))"
| moves: "pool_move (worker_pool S) p \<Longrightarrow>
    exchange_step mc lid cid iotid wtid (bursts, S, sent) (Some (Inr (bursts, set_pool p S, sent)))"

text \<open>Everything has been read, answered, framed and sent.\<close>

definition exchange_done :: "nat \<Rightarrow> nat \<Rightarrow> exchange \<Rightarrow> bool" where
  "exchange_done lid cid x \<longleftrightarrow>
     (case x of (bursts, S, sent) \<Rightarrow>
        bursts = [] \<and> pool_tasks (worker_pool S) = [] \<and>
        (\<exists>c l. sv_heap S cid = Some c \<and> get_loop lid S = Some l \<and> conn_out c = [] \<and> el_taskqueue l = []))"

definition exchange_ok ::
  "machine \<Rightarrow> nat \<Rightarrow> nat \<Rightarrow> int \<Rightarrow> (nat \<Rightarrow> int) \<Rightarrow> exchange \<Rightarrow> exchange \<Rightarrow> bool" where
  "exchange_ok mc lid cid iotid wtid x y \<longleftrightarrow> exchange_step mc lid cid iotid wtid x (Some (Inr y))"

subsection \<open>What holds in between\<close>

text \<open>The server at the start of the exchange, with other states of the connection, of its loop and of the pool.\<close>

definition exchanging :: "nat \<Rightarrow> nat \<Rightarrow> echoserver server \<Rightarrow> connection \<Rightarrow> eventloop \<Rightarrow> worker_task pool \<Rightarrow> echoserver server" where
  "exchanging lid cid S c l p =
     put_conn lid cid (c, l, sv_tcpserver S, (sv_app S)\<lparr>es_threadpool := p\<rparr>) S"

definition conn_serves :: "nat \<Rightarrow> nat \<Rightarrow> connection \<Rightarrow> eventloop \<Rightarrow> bool" where
  "conn_serves lid cid c l \<longleftrightarrow>
     wired lid cid c \<and> conn_open c l \<and> conn_ready c \<and> cn_sendcompletecallback c = Some Cb_sendcomplete \<and>
     \<not> cn_disconnect c \<and> loop_wired l \<and> \<not> el_locked l"

text \<open>
  Of the requests \<open>ms\<close> the first \<open>k\<close> have been handed over; the replies to \<open>ds\<close> have been framed, those to \<open>qs\<close> are
  queued in the loop, and the others are tasks of the pool.
\<close>

definition exchange_holds ::
  "nat \<Rightarrow> nat \<Rightarrow> bytes list \<Rightarrow> nat \<Rightarrow> bytes list \<Rightarrow> bytes list \<Rightarrow> connection \<Rightarrow> eventloop \<Rightarrow> worker_task pool \<Rightarrow>
   read_result list list \<Rightarrow> bytes \<Rightarrow> bool" where
  "exchange_holds lid cid ms k ds qs c l p bursts sent \<longleftrightarrow>
     conn_serves lid cid c l \<and> pool_serves p \<and>
     k \<le> length ms \<and> list_all (list_all reads_on) bursts \<and>
     stream_of frame frame_ok (b_buf (cn_inputbuffer c)) [] (b_buf (cn_inputbuffer c)) \<and>
     b_buf (cn_inputbuffer c) @ concat (map reads_bytes bursts) = concat (map frame (drop k ms)) \<and>
     mset (map (request_task cid) (ds @ qs)) + mset (pool_tasks p) = mset (map (request_task cid) (take k ms)) \<and>
     (ThreadPool_size p = 1 \<longrightarrow> map (request_task cid) (ds @ qs) @ tasks_in_order p = map (request_task cid) (take k ms)) \<and>
     el_taskqueue l = map (\<lambda>m. reply_task (cid, echo_reply m)) qs \<and>
     sent @ conn_out c = concat (map (frame \<circ> echo_reply) ds)"

text \<open>The connection \<open>c0\<close> and its loop \<open>l0\<close> at the start.\<close>

definition exchange_inv ::
  "nat \<Rightarrow> nat \<Rightarrow> (nat \<Rightarrow> int) \<Rightarrow> echoserver server \<Rightarrow> connection \<Rightarrow> eventloop \<Rightarrow> bytes list \<Rightarrow> exchange \<Rightarrow> bool" where
  "exchange_inv lid cid wtid S0 c0 l0 ms x \<longleftrightarrow>
     (case x of (bursts, S, sent) \<Rightarrow> \<exists>k ds qs c l p. S = exchanging lid cid S0 c l p \<and>
        exchange_holds lid cid ms k ds qs c l p bursts sent \<and>
        watch_local c0 l0 c l \<and> el_threadid l = el_threadid l0 \<and>
        ThreadPool_size p = ThreadPool_size (worker_pool S0))"

text \<open>The server around it.\<close>

definition round_server :: "nat \<Rightarrow> nat \<Rightarrow> (nat \<Rightarrow> int) \<Rightarrow> echoserver server \<Rightarrow> eventloop \<Rightarrow> bytes list \<Rightarrow> bool" where
  "round_server lid cid wtid S0 l0 ms \<longleftrightarrow>
     registered_all S0 \<and> sv_heap S0 cid \<noteq> None \<and> get_loop lid S0 \<noteq> None \<and>
     ts_onmessagecb (sv_tcpserver S0) = Some Cb_HandleMessage \<and>
     ts_sendcompletecb (sv_tcpserver S0) = Some Cb_HandleSendComplete \<and>
     list_all frame_ok ms \<and> list_all nul_free ms \<and> (\<forall>i. el_threadid l0 \<noteq> Some (wtid i))"

lemma exchanging_simps [simp]:
  "sv_heap (exchanging lid cid S c l p) = (sv_heap S)(cid \<mapsto> c)"
  "sv_tcpserver (exchanging lid cid S c l p) = sv_tcpserver S"
  "worker_pool (exchanging lid cid S c l p) = p"
  "sv_app (exchanging lid cid S c l p) = (sv_app S)\<lparr>es_threadpool := p\<rparr>"
  "get_loop lid S \<noteq> None \<Longrightarrow> get_loop lid (exchanging lid cid S c l p) = Some l"
  "set_pool p' (exchanging lid cid S c l p) = exchanging lid cid S c l p'"
  by (simp_all add: exchanging_def set_pool_def put_conn_app)

lemma exchanging_put:
  "put_conn lid cid (c', l', sv_tcpserver S, (sv_app S)\<lparr>es_threadpool := p'\<rparr>) (exchanging lid cid S c l p) =
    exchanging lid cid S c' l' p'"
  by (simp add: exchanging_def)

lemma exchanging_registered: "registered_all S \<Longrightarrow> sv_heap S cid \<noteq> None \<Longrightarrow> registered_all (exchanging lid cid S c l p)"
  unfolding exchanging_def by (rule registered_put) simp_all

lemma exchanging_ready:
  "round_server lid cid wtid S0 l0 ms \<Longrightarrow> pool_serves p \<Longrightarrow> echo_ready (sv_tcpserver S0, (sv_app S0)\<lparr>es_threadpool := p\<rparr>)"
  by (simp add: round_server_def echo_ready_def pool_serves_def)

lemma exchange_invI:
  "exchange_holds lid cid ms k ds qs c l p bursts sent \<Longrightarrow> watch_local c0 l0 c l \<Longrightarrow> el_threadid l = el_threadid l0 \<Longrightarrow>
    ThreadPool_size p = ThreadPool_size (worker_pool S0) \<Longrightarrow>
    exchange_inv lid cid wtid S0 c0 l0 ms (bursts, exchanging lid cid S0 c l p, sent)"
  unfolding exchange_inv_def by blast

lemma inj_request_task: "request_task cid m = request_task cid m' \<longleftrightarrow> m = m'"
  by (simp add: request_task_def)

subsection \<open>Every step succeeds and keeps it\<close>

lemma exchange_read:
  assumes round: "round_server lid cid wtid S0 l0 ms"
    and holds: "exchange_holds lid cid ms k ds qs c l p (rs # bursts) sent" and free: "p_mutex p = None"
  shows "\<exists>j c' p'. EventLoop_turn (echo_env mc) lid iotid
        (Wait_events [(EPOLLIN, Client_channel cid)], turn_io mc stale rs 0) (exchanging lid cid S0 c l p) =
      Some (Inr (exchanging lid cid S0 c' l p')) \<and>
    exchange_holds lid cid ms (k + j) ds qs c' l p' bursts sent \<and> watch_local c l c' l \<and>
    ThreadPool_size p' = ThreadPool_size p"
proof -
  note h = holds [unfolded exchange_holds_def]
  note r = round [unfolded round_server_def]
  let ?b = "b_buf (cn_inputbuffer c)" and ?w = "(sv_tcpserver S0, (sv_app S0)\<lparr>es_threadpool := p\<rparr>)"
  have "stream_of frame frame_ok ?b (take 0 (drop k ms)) ?b" using h by simp
  moreover have "list_all frame_ok (drop k ms)" using r by (auto simp: list_all_iff dest: in_set_dropD)
  moreover have bytes: "concat (map frame (drop k ms)) = (?b @ reads_bytes rs) @ concat (map reads_bytes bursts)"
    using h by simp
  then have "prefix (?b @ reads_bytes rs) (concat (map frame (drop k ms)))" by (rule prefixI)
  ultimately obtain j q where j: "j \<le> length (drop k ms)"
    and part: "stream_of frame frame_ok (?b @ reads_bytes rs) (take j (drop k ms)) q"
    using wire.stream_of_next [of ?b 0 "drop k ms" ?b "reads_bytes rs"] by auto
  let ?ms = "take j (drop k ms)"
  define c' where "c' = received (reported EPOLLIN c) ?ms q (clock ?w)"
  define p' where "p' = foldl (\<lambda>p t. ThreadPool_addtask t p) p (map (request_task cid) ?ms)"
  have serves: "wired lid cid c" "conn_ready c" "pool_serves p" using h by (auto simp: conn_serves_def)
  have tasks: "echo_sink.take_all cid ?ms ?w = (sv_tcpserver S0, (sv_app S0)\<lparr>es_threadpool := p'\<rparr>)"
    by (simp add: take_all_tasks add_tasks_def p'_def)
  have turn: "EventLoop_turn (echo_env mc) lid iotid
      (Wait_events [(EPOLLIN, Client_channel cid)], turn_io mc stale rs 0) (exchanging lid cid S0 c l p) =
      Some (Inr (exchanging lid cid S0 c' l p'))"
    using read_turn_stream [of "exchanging lid cid S0 c l p" cid c lid l rs ?ms q mc iotid stale 0]
      serves r h part exchanging_registered [of S0 cid lid c l p] exchanging_ready [OF round serves(3)]
    by (simp add: tasks exchanging_put flip: c'_def)
  have pool': "p_threads p' = p_threads p" "p_queue p' = p_queue p @ map (request_task cid) ?ms"
    using add_tasks_pool(2,4) [of "map (request_task cid) ?ms" "(sv_app S0)\<lparr>es_threadpool := p\<rparr>"]
    by (simp_all add: add_tasks_def p'_def)
  have k: "take (k + j) ms = take k ms @ ?ms" by (simp add: take_add)
  have rest: "?b @ reads_bytes rs = concat (map frame ?ms) @ q" "stream_of frame frame_ok q [] q"
    using part by (auto simp: stream_of_def)
  have "concat (map frame ?ms) @ q @ concat (map reads_bytes bursts) =
      concat (map frame ?ms) @ concat (map frame (drop j (drop k ms)))"
  proof -
    have "concat (map frame ?ms) @ q @ concat (map reads_bytes bursts) = concat (map frame (drop k ms))"
      unfolding bytes rest(1) by simp
    also have "\<dots> = concat (map frame (?ms @ drop j (drop k ms)))" by (simp only: append_take_drop_id)
    finally show ?thesis by (simp only: map_append concat_append)
  qed
  then have left: "q @ concat (map reads_bytes bursts) = concat (map frame (drop (k + j) ms))"
    by (simp add: add.commute)
  have "conn_serves lid cid c' l"
    using h by (simp add: conn_serves_def c'_def)
  moreover have "pool_serves p'" unfolding p'_def using serves(3) free by (rule addtasks_serve)
  ultimately have "exchange_holds lid cid ms (k + j) ds qs c' l p' bursts sent"
    using h j rest(2) left unfolding exchange_holds_def k
    by (auto simp: c'_def pool' pool_tasks_def tasks_in_order_def ThreadPool_size_def ac_simps)
  moreover have "watch_local c l c' l"
    by (simp add: watch_local_def c'_def received_def reported_def Channel_setrevents_def)
  moreover have "ThreadPool_size p' = ThreadPool_size p" using pool'(1) by (simp add: ThreadPool_size_def)
  ultimately show ?thesis using turn by blast
qed

lemma exchange_wake:
  assumes "epoll_reliable (mc_ctl mc)" and round: "round_server lid cid wtid S0 l0 ms"
    and holds: "exchange_holds lid cid ms k ds qs c l p bursts sent"
  shows "\<exists>c' l'. EventLoop_turn (echo_env mc) lid iotid
        (Wait_events [(EPOLLIN, Wake_channel lid)], inps) (exchanging lid cid S0 c l p) =
      Some (Inr (exchanging lid cid S0 c' l' p)) \<and>
    exchange_holds lid cid ms k (ds @ qs) [] c' l' p bursts sent \<and> watch_local c l c' l' \<and>
    el_threadid l' = el_threadid l"
proof -
  note h = holds [unfolded exchange_holds_def conn_serves_def]
  have loop: "get_loop lid S0 \<noteq> None" and "registered_all (exchanging lid cid S0 c l p)"
    using round exchanging_registered [of S0 cid lid c l p] by (simp_all add: round_server_def)
  then have reg: "registered_all (put_conn lid cid (c, l, sv_tcpserver S0, (sv_app S0)\<lparr>es_threadpool := p\<rparr>) S0)"
    by (simp add: exchanging_def)
  have q: "el_taskqueue l = map (\<lambda>m. reply_task (cid, m)) (map echo_reply qs)" using h by simp
  from wake_turn [OF assms(1) _ _ loop q _ _ reg, of iotid inps] h obtain c' l' where
    "EventLoop_turn (echo_env mc) lid iotid (Wait_events [(EPOLLIN, Wake_channel lid)], inps) (exchanging lid cid S0 c l p) =
      Some (Inr (exchanging lid cid S0 c' l' p))"
    and c': "conn_open c' l'" "same_conn c c'" "wired lid cid c'"
      "conn_out c' = conn_out c @ concat (map frame (map echo_reply qs))"
      "watch_local c l c' l'" "loop_wired l'" "el_taskqueue l' = []" "\<not> el_locked l'" "el_threadid l' = el_threadid l"
    unfolding exchanging_def by blast
  moreover have "conn_serves lid cid c' l'"
    using h c' same_connD [OF c'(2)] by (simp add: conn_serves_def conn_ready_def)
  then have "exchange_holds lid cid ms k (ds @ qs) [] c' l' p bursts sent"
    using holds c' same_connD(5) [OF c'(2)] by (auto simp: exchange_holds_def simp flip: append_assoc)
  ultimately show ?thesis by blast
qed

lemma exchange_write:
  assumes rel: "epoll_reliable (mc_ctl mc)" and round: "round_server lid cid wtid S0 l0 ms"
    and holds: "exchange_holds lid cid ms k ds qs c l p bursts sent"
    and n: "conn_out c \<noteq> []" "n \<le> int (length (conn_out c))"
  shows "\<exists>c' l'. EventLoop_turn (echo_env mc) lid iotid
        (Wait_events [(EPOLLOUT, Client_channel cid)], turn_io mc stale rs n) (exchanging lid cid S0 c l p) =
      Some (Inr (exchanging lid cid S0 c' l' p)) \<and>
    exchange_holds lid cid ms k ds qs c' l' p bursts (sent @ take (nat n) (conn_out c)) \<and>
    conn_out c' = drop (nat n) (conn_out c) \<and> watch_local c l c' l' \<and> el_threadid l' = el_threadid l"
proof -
  note h = holds [unfolded exchange_holds_def conn_serves_def]
  have loop: "get_loop lid S0 \<noteq> None" and "registered_all (exchanging lid cid S0 c l p)"
    using round exchanging_registered [of S0 cid lid c l p] by (simp_all add: round_server_def)
  then have reg: "registered_all (put_conn lid cid (c, l, sv_tcpserver S0, (sv_app S0)\<lparr>es_threadpool := p\<rparr>) S0)"
    by (simp add: exchanging_def)
  have "writing lid cid (c, l, sv_tcpserver S0, (sv_app S0)\<lparr>es_threadpool := p\<rparr>)"
    using h exchanging_ready [OF round, of p] by (simp add: writing_def conn_ready_def)
  from write_turn [OF rel this n loop reg, of iotid stale rs] obtain c' l' where
    "EventLoop_turn (echo_env mc) lid iotid (Wait_events [(EPOLLOUT, Client_channel cid)], turn_io mc stale rs n)
        (exchanging lid cid S0 c l p) = Some (Inr (exchanging lid cid S0 c' l' p))"
    and c': "writing lid cid (c', l', sv_tcpserver S0, (sv_app S0)\<lparr>es_threadpool := p\<rparr>)"
      "conn_out c' = drop (nat n) (conn_out c)" "same_conn c c'" "same_loop l l'" "watch_local c l c' l'"
    unfolding exchanging_def by blast
  moreover have "conn_serves lid cid c' l'"
    using h c'(1) same_connD [OF c'(3)] same_loopD [OF c'(4)] same_loop_wake [OF c'(4)]
    by (simp add: conn_serves_def conn_ready_def writing_def loop_wired_def)
  then have "exchange_holds lid cid ms k ds qs c' l' p bursts (sent @ take (nat n) (conn_out c))"
    using holds c'(2) same_connD(5) [OF c'(3)] same_loopD(2) [OF c'(4)] by (simp add: exchange_holds_def)
  ultimately show ?thesis using same_loopD(1) [OF c'(4)] by blast
qed

lemma exchange_work:
  assumes round: "round_server lid cid wtid S0 l0 ms"
    and holds: "exchange_holds lid cid ms k ds qs c l p bursts sent" and l: "el_threadid l = el_threadid l0"
    and run: "at p i (Running t)"
  shows "\<exists>m l'. t = request_task cid m \<and>
    on_connection (\<lambda>s. Some (worker_exec (mc_ctl mc) (mc_evwrite mc) (wtid i) t s)) (task_conn t) (exchanging lid cid S0 c l p) =
      Some (Inr (exchanging lid cid S0 c l' p)) \<and>
    exchange_holds lid cid ms k ds (qs @ [m]) c l' (task_done i t p) bursts sent \<and> watch_local c l c l' \<and>
    el_threadid l' = el_threadid l \<and> mset (pool_tasks p) = add_mset t (mset (pool_tasks (task_done i t p)))"
proof -
  note h = holds [unfolded exchange_holds_def]
  note r = round [unfolded round_server_def]
  have tasks: "mset (pool_tasks p) = add_mset t (mset (pool_tasks (task_done i t p)))"
    "ThreadPool_size p = 1 \<Longrightarrow> tasks_in_order p = t # tasks_in_order (task_done i t p)"
    unfolding task_done_def using run by (rule finish_tasks)+
  have serves: "pool_serves (task_done i t p)" unfolding task_done_def using h run by (intro finish_serves) auto
  have size: "ThreadPool_size (task_done i t p) = ThreadPool_size p" by (simp add: task_done_def ThreadPool_size_def)
  have "t \<in># mset (pool_tasks p)" unfolding tasks(1) by simp
  then have "t \<in># mset (map (request_task cid) (take k ms))" using h by (metis union_iff)
  then obtain m where t: "t = request_task cid m" and "m \<in> set (take k ms)" by auto
  then have nul: "nul_free m" using r by (auto simp: list_all_iff dest: in_set_takeD)
  let ?l = "EventLoop_queueinloop (mc_evwrite mc) (reply_task (cid, echo_reply m)) l"
  let ?w = "(sv_tcpserver S0, (sv_app S0)\<lparr>es_threadpool := p\<rparr>)"
  have c: "cn_loop c = lid" "cn_id c = cid" "\<not> cn_disconnect c" using h by (auto simp: conn_serves_def wired_def)
  have tid: "el_threadid l \<noteq> Some (wtid i)" using r l by simp
  have "on_connection (\<lambda>s. Some (worker_exec (mc_ctl mc) (mc_evwrite mc) (wtid i) t s)) (task_conn t)
      (exchanging lid cid S0 c l p) = Some (Inr (exchanging lid cid S0 c ?l p))"
  proof -
    have conn: "task_conn t = cid" by (simp add: t request_task_def)
    have "worker_exec (mc_ctl mc) (mc_evwrite mc) (wtid i) t (c, l, ?w) = Inr (c, ?l, ?w)"
      using worker_exec_reply [OF c(3) tid nul, of "mc_ctl mc" "mc_evwrite mc" cid ?w] c(2) by (simp add: t)
    then show ?thesis
      unfolding exchanging_def conn using c(1) r by (intro on_connection_put) simp_all
  qed
  moreover have wake: "el_wakechannel ?l = el_wakechannel l" by (simp add: EventLoop_queueinloop_def EventLoop_wakeup_def)
  have "conn_serves lid cid c ?l"
    using h conn_open_ep [of ?l l c] by (simp add: conn_serves_def loop_wired_def wake)
  then have "exchange_holds lid cid ms k ds (qs @ [m]) c ?l (task_done i t p) bursts sent"
    using h serves size tasks by (auto simp: exchange_holds_def t ac_simps)
  moreover have "watch_local c l c ?l" by (simp add: watch_local_def)
  ultimately show ?thesis using t tasks(1) by (intro exI [of _ m] exI [of _ ?l]) simp
qed

lemma exchange_move:
  assumes "exchange_holds lid cid ms k ds qs c l p bursts sent" and "pool_move p p'"
  shows "exchange_holds lid cid ms k ds qs c l p' bursts sent"
  using assms pool_serves_move [OF _ assms(2)] pool_move_tasks [OF assms(2)] pool_move_size [OF assms(2)]
  by (simp add: exchange_holds_def pool_serves_def)

text \<open>No step fails, and what holds is kept.\<close>

lemma exchange_step_inv:
  assumes rel: "epoll_reliable (mc_ctl mc)" and round: "round_server lid cid wtid S0 l0 ms"
    and step: "exchange_step mc lid cid iotid wtid x r" and inv: "exchange_inv lid cid wtid S0 c0 l0 ms x"
  shows "\<exists>y. r = Some (Inr y) \<and> exchange_inv lid cid wtid S0 c0 l0 ms y"
proof -
  have S0: "registered_all S0" "sv_heap S0 cid \<noteq> None" "get_loop lid S0 \<noteq> None"
    using round by (simp_all add: round_server_def)
  obtain bursts S sent where x: "x = (bursts, S, sent)" by (cases x)
  with inv obtain k ds qs c l p where S: "S = exchanging lid cid S0 c l p"
    and holds: "exchange_holds lid cid ms k ds qs c l p bursts sent"
    and l: "watch_local c0 l0 c l" "el_threadid l = el_threadid l0" "ThreadPool_size p = ThreadPool_size (worker_pool S0)"
    by (auto simp: exchange_inv_def)
  have keep: "\<exists>y. r = Some (Inr y) \<and> exchange_inv lid cid wtid S0 c0 l0 ms y"
    if "r = Some (Inr (bursts', exchanging lid cid S0 c' l' p', sent'))"
      and "exchange_holds lid cid ms k' ds' qs' c' l' p' bursts' sent'"
      and "watch_local c l c' l'" and "el_threadid l' = el_threadid l" and "ThreadPool_size p' = ThreadPool_size p"
    for k' ds' qs' c' l' p' bursts' sent'
    using that l by (auto intro!: exchange_invI intro: watch_local_trans)
  show ?thesis
    using step
  proof (cases rule: exchange_step.cases)
    case (reads S1 rs bursts1 sent1 stale)
    then have eqs: "bursts = rs # bursts1" "p_mutex p = None" "sent1 = sent" "S1 = S" using x S by auto
    obtain j c' p' where turn: "EventLoop_turn (echo_env mc) lid iotid
        (Wait_events [(EPOLLIN, Client_channel cid)], turn_io mc stale rs 0) S = Some (Inr (exchanging lid cid S0 c' l p'))"
      and after: "exchange_holds lid cid ms (k + j) ds qs c' l p' bursts1 sent" "watch_local c l c' l" "ThreadPool_size p' = ThreadPool_size p"
      using exchange_read [OF round holds [unfolded eqs(1)] eqs(2), of mc iotid stale] S by blast
    have "r = Some (Inr (bursts1, exchanging lid cid S0 c' l p', sent))" using reads(2) eqs turn by simp
    from keep [OF this after(1,2) refl after(3)] show ?thesis .
  next
    case (wakes bursts1 S1 sent1 stale)
    then have eqs: "bursts1 = bursts" "sent1 = sent" "S1 = S" using x by auto
    obtain c' l' where turn: "EventLoop_turn (echo_env mc) lid iotid
        (Wait_events [(EPOLLIN, Wake_channel lid)], turn_io mc stale [] 0) S = Some (Inr (exchanging lid cid S0 c' l' p))"
      and after: "exchange_holds lid cid ms k (ds @ qs) [] c' l' p bursts sent" "watch_local c l c' l'" "el_threadid l' = el_threadid l"
      using exchange_wake [OF rel round holds, of iotid "turn_io mc stale [] 0"] S by blast
    have "r = Some (Inr (bursts, exchanging lid cid S0 c' l' p, sent))" using wakes(2) eqs turn by simp
    from keep [OF this after refl] show ?thesis .
  next
    case (writes S1 c1 n bursts1 sent1 stale)
    then have eqs: "bursts1 = bursts" "sent1 = sent" "S1 = S" "c1 = c" using x S by auto
    obtain c' l' where turn: "EventLoop_turn (echo_env mc) lid iotid
        (Wait_events [(EPOLLOUT, Client_channel cid)], turn_io mc stale [] n) S = Some (Inr (exchanging lid cid S0 c' l' p))"
      and after: "exchange_holds lid cid ms k ds qs c' l' p bursts (sent @ take (nat n) (conn_out c))"
      "watch_local c l c' l'" "el_threadid l' = el_threadid l"
      using exchange_write [OF rel round holds, of n iotid stale "[]"] writes(4,5) S eqs(4) by blast
    have "r = Some (Inr (bursts, exchanging lid cid S0 c' l' p, sent @ take (nat n) (conn_out c)))"
      using writes(2) eqs turn by simp
    from keep [OF this after refl] show ?thesis .
  next
    case (works S1 i t bursts1 sent1)
    then have eqs: "bursts1 = bursts" "sent1 = sent" "S1 = S" and run: "at p i (Running t)" using x S by auto
    obtain m l' where task: "on_connection (\<lambda>s. Some (worker_exec (mc_ctl mc) (mc_evwrite mc) (wtid i) t s)) (task_conn t) S =
        Some (Inr (exchanging lid cid S0 c l' p))"
      and after: "exchange_holds lid cid ms k ds (qs @ [m]) c l' (task_done i t p) bursts sent" "watch_local c l c l'"
      "el_threadid l' = el_threadid l"
      using exchange_work [OF round holds l(2) run, of mc] S by blast
    have "release echo_owns (exchanging lid cid S0 c l' p') = exchanging lid cid S0 c l' p'" for l' p'
      using exchanging_registered [OF S0(1,2)] by (rule release_registered)
    with works(2) eqs task have "r = Some (Inr (bursts, exchanging lid cid S0 c l' (task_done i t p), sent))" by simp
    from keep [OF this after] show ?thesis by (simp add: task_done_def ThreadPool_size_def)
  next
    case (moves S1 p' bursts1 sent1)
    then have eqs: "bursts1 = bursts" "sent1 = sent" "S1 = S" and move: "pool_move p p'" using x S by auto
    then have "r = Some (Inr (bursts, exchanging lid cid S0 c l p', sent))" using moves(2) S by simp
    from keep [OF this exchange_move [OF holds move] _ refl pool_move_size [OF move]] show ?thesis by simp
  qed
qed

subsection \<open>It can always be completed\<close>

lemma moves_ok:
  assumes "pool_move\<^sup>*\<^sup>* p p'"
  shows "(exchange_ok mc lid cid iotid wtid)\<^sup>*\<^sup>* (bursts, exchanging lid cid S c l p, sent) (bursts, exchanging lid cid S c l p', sent)"
  using assms
proof (induction rule: rtranclp_induct)
  case (step q r)
  have "exchange_ok mc lid cid iotid wtid (bursts, exchanging lid cid S c l q, sent) (bursts, exchanging lid cid S c l r, sent)"
    using exchange_step.moves [of "exchanging lid cid S c l q" r mc lid cid iotid wtid bursts sent] step.hyps(2)
    by (simp add: exchange_ok_def)
  with step.IH show ?case by (rule rtranclp.rtrancl_into_rtrancl)
qed simp

lemma moves_hold:
  "pool_move\<^sup>*\<^sup>* p p' \<Longrightarrow> exchange_holds lid cid ms k ds qs c l p bursts sent \<Longrightarrow>
    exchange_holds lid cid ms k ds qs c l p' bursts sent"
  by (induction rule: rtranclp_induct) (auto intro: exchange_move)

lemma reads_complete:
  assumes "round_server lid cid wtid S0 l0 ms"
  shows "exchange_holds lid cid ms k ds qs c l p bursts sent \<Longrightarrow>
    \<exists>k' c' p'. (exchange_ok mc lid cid iotid wtid)\<^sup>*\<^sup>* (bursts, exchanging lid cid S0 c l p, sent) ([], exchanging lid cid S0 c' l p', sent) \<and>
      exchange_holds lid cid ms k' ds qs c' l p' [] sent"
proof (induction bursts arbitrary: k c p)
  case (Cons rs bursts)
  have "pool_serves p" using Cons.prems by (simp add: exchange_holds_def)
  from pool_unlocks [OF this] obtain p1 where p1: "pool_move\<^sup>*\<^sup>* p p1" "p_mutex p1 = None" by blast
  obtain j c' p' where turn: "EventLoop_turn (echo_env mc) lid iotid
      (Wait_events [(EPOLLIN, Client_channel cid)], turn_io mc (\<lambda>_. 0) rs 0) (exchanging lid cid S0 c l p1) =
      Some (Inr (exchanging lid cid S0 c' l p'))" and after: "exchange_holds lid cid ms (k + j) ds qs c' l p' bursts sent"
    using exchange_read [OF assms moves_hold [OF p1(1) Cons.prems] p1(2), of mc iotid "\<lambda>_. 0"] by blast
  have "exchange_ok mc lid cid iotid wtid (rs # bursts, exchanging lid cid S0 c l p1, sent) (bursts, exchanging lid cid S0 c' l p', sent)"
    using exchange_step.reads [of "exchanging lid cid S0 c l p1" mc lid cid iotid wtid rs bursts sent "\<lambda>_. 0"] p1(2) turn
    by (simp add: exchange_ok_def)
  moreover obtain k2 c2 p2 where
    "(exchange_ok mc lid cid iotid wtid)\<^sup>*\<^sup>* (bursts, exchanging lid cid S0 c' l p', sent) ([], exchanging lid cid S0 c2 l p2, sent)"
    "exchange_holds lid cid ms k2 ds qs c2 l p2 [] sent"
    using Cons.IH [OF after] by blast
  moreover note moves_ok [OF p1(1), of mc lid cid iotid wtid "rs # bursts" S0 c l sent]
  ultimately show ?case by (meson rtranclp.rtrancl_into_rtrancl rtranclp_trans)
qed auto

lemma work_completes:
  assumes round: "round_server lid cid wtid S0 l0 ms"
  shows "exchange_holds lid cid ms k ds qs c l p bursts sent \<Longrightarrow> el_threadid l = el_threadid l0 \<Longrightarrow>
    \<exists>qs' l' p'. (exchange_ok mc lid cid iotid wtid)\<^sup>*\<^sup>* (bursts, exchanging lid cid S0 c l p, sent) (bursts, exchanging lid cid S0 c l' p', sent) \<and>
      exchange_holds lid cid ms k ds qs' c l' p' bursts sent \<and> el_threadid l' = el_threadid l0 \<and> pool_tasks p' = []"
proof (induction "size (mset (pool_tasks p))" arbitrary: qs l p)
  case 0
  then have "pool_tasks p = []" by simp
  with 0 show ?case by blast
next
  case (Suc n)
  have "pool_serves p" using Suc.prems(1) by (simp add: exchange_holds_def)
  moreover have "pool_tasks p \<noteq> []" using Suc.hyps(2) by auto
  ultimately obtain p1 where p1: "pool_move\<^sup>*\<^sup>* p p1" "runs_task p1" using pool_runs_task by blast
  then obtain i t where run: "at p1 i (Running t)" by (auto simp: runs_task_def)
  have tasks: "mset (pool_tasks p1) = mset (pool_tasks p)" using pool_serves_moves [OF p1(1) \<open>pool_serves p\<close>] by simp
  note holds = moves_hold [OF p1(1) Suc.prems(1)]
  obtain m l' where task: "on_connection (\<lambda>s. Some (worker_exec (mc_ctl mc) (mc_evwrite mc) (wtid i) t s)) (task_conn t)
      (exchanging lid cid S0 c l p1) = Some (Inr (exchanging lid cid S0 c l' p1))"
    and after: "exchange_holds lid cid ms k ds (qs @ [m]) c l' (task_done i t p1) bursts sent"
    and l': "el_threadid l' = el_threadid l" and fewer: "mset (pool_tasks p1) = add_mset t (mset (pool_tasks (task_done i t p1)))"
    using exchange_work [OF round holds Suc.prems(2) run, of mc] by blast
  have "release echo_owns (exchanging lid cid S0 c l' q) = exchanging lid cid S0 c l' q" for q
    using round by (intro release_registered exchanging_registered) (simp_all add: round_server_def)
  then have "exchange_ok mc lid cid iotid wtid (bursts, exchanging lid cid S0 c l p1, sent)
      (bursts, exchanging lid cid S0 c l' (task_done i t p1), sent)"
    using exchange_step.works [of "exchanging lid cid S0 c l p1" i t mc lid cid iotid wtid bursts sent] run task
    by (simp add: exchange_ok_def)
  moreover have "n = size (mset (pool_tasks (task_done i t p1)))" using Suc.hyps(2) fewer by (simp flip: tasks)
  from Suc.hyps(1) [OF this after] l' Suc.prems(2) obtain qs2 l2 p2 where
    "(exchange_ok mc lid cid iotid wtid)\<^sup>*\<^sup>* (bursts, exchanging lid cid S0 c l' (task_done i t p1), sent)
      (bursts, exchanging lid cid S0 c l2 p2, sent)"
    "exchange_holds lid cid ms k ds qs2 c l2 p2 bursts sent" "el_threadid l2 = el_threadid l0" "pool_tasks p2 = []"
    by auto
  moreover note moves_ok [OF p1(1), of mc lid cid iotid wtid bursts S0 c l sent]
  ultimately show ?case by (meson rtranclp.rtrancl_into_rtrancl rtranclp_trans)
qed

lemma exchange_completes:
  assumes rel: "epoll_reliable (mc_ctl mc)" and round: "round_server lid cid wtid S0 l0 ms"
    and inv: "exchange_inv lid cid wtid S0 c0 l0 ms x"
  shows "\<exists>y. (exchange_ok mc lid cid iotid wtid)\<^sup>*\<^sup>* x y \<and> exchange_done lid cid y"
proof -
  let ?run = "(exchange_ok mc lid cid iotid wtid)\<^sup>*\<^sup>*"
  obtain bursts S sent where x: "x = (bursts, S, sent)" by (cases x)
  with inv obtain k ds qs c l p where S: "S = exchanging lid cid S0 c l p"
    and holds: "exchange_holds lid cid ms k ds qs c l p bursts sent" and l: "el_threadid l = el_threadid l0"
    by (auto simp: exchange_inv_def)
  obtain k1 c1 p1 where one: "?run x ([], exchanging lid cid S0 c1 l p1, sent)" "exchange_holds lid cid ms k1 ds qs c1 l p1 [] sent"
    using reads_complete [OF round holds] x S by blast
  obtain qs2 l2 p2 where two: "?run ([], exchanging lid cid S0 c1 l p1, sent) ([], exchanging lid cid S0 c1 l2 p2, sent)"
    "exchange_holds lid cid ms k1 ds qs2 c1 l2 p2 [] sent" "pool_tasks p2 = []"
    using work_completes [OF round one(2) l] by blast
  obtain c3 l3 where turn: "EventLoop_turn (echo_env mc) lid iotid (Wait_events [(EPOLLIN, Wake_channel lid)], turn_io mc (\<lambda>_. 0) [] 0)
      (exchanging lid cid S0 c1 l2 p2) = Some (Inr (exchanging lid cid S0 c3 l3 p2))"
    and three: "exchange_holds lid cid ms k1 (ds @ qs2) [] c3 l3 p2 [] sent"
    using exchange_wake [OF rel round two(2)] by blast
  have "exchange_ok mc lid cid iotid wtid ([], exchanging lid cid S0 c1 l2 p2, sent) ([], exchanging lid cid S0 c3 l3 p2, sent)"
    using exchange_step.wakes [of mc lid cid iotid wtid "[]" "exchanging lid cid S0 c1 l2 p2" sent "\<lambda>_. 0"] turn
    by (simp add: exchange_ok_def)
  with one(1) two(1) have run: "?run x ([], exchanging lid cid S0 c3 l3 p2, sent)"
    by (meson rtranclp.rtrancl_into_rtrancl rtranclp_trans)
  have loop: "get_loop lid S0 \<noteq> None" using round by (simp add: round_server_def)
  show ?thesis
  proof (cases "conn_out c3 = []")
    case True
    with three two(3) loop have "exchange_done lid cid ([], exchanging lid cid S0 c3 l3 p2, sent)"
      by (simp add: exchange_done_def exchange_holds_def)
    with run show ?thesis by blast
  next
    case False
    let ?n = "int (length (conn_out c3))"
    obtain c4 l4 where turn4: "EventLoop_turn (echo_env mc) lid iotid
        (Wait_events [(EPOLLOUT, Client_channel cid)], turn_io mc (\<lambda>_. 0) [] ?n) (exchanging lid cid S0 c3 l3 p2) =
        Some (Inr (exchanging lid cid S0 c4 l4 p2))"
      and four: "exchange_holds lid cid ms k1 (ds @ qs2) [] c4 l4 p2 [] (sent @ take (nat ?n) (conn_out c3))"
        "conn_out c4 = drop (nat ?n) (conn_out c3)"
      using exchange_write [OF rel round three False order_refl] by blast
    let ?y = "([], exchanging lid cid S0 c4 l4 p2, sent @ take (nat ?n) (conn_out c3))"
    have "exchange_ok mc lid cid iotid wtid ([], exchanging lid cid S0 c3 l3 p2, sent) ?y"
      using exchange_step.writes [of "exchanging lid cid S0 c3 l3 p2" cid c3 ?n mc lid iotid wtid "[]" sent "\<lambda>_. 0"] False turn4
      by (simp add: exchange_ok_def)
    moreover have "exchange_done lid cid ?y"
      using four two(3) loop by (simp add: exchange_done_def exchange_holds_def)
    ultimately show ?thesis using run by (blast intro: rtranclp.rtrancl_into_rtrancl)
  qed
qed

subsection \<open>From idle to idle\<close>

text \<open>A server with nothing to do: no task, and nothing between the socket of a connection and back.\<close>

definition server_rests :: "echoserver server \<Rightarrow> bool" where
  "server_rests S \<longleftrightarrow> registered_all S \<and> pool_inv (worker_pool S) \<and> \<not> p_stop (worker_pool S) \<and> pool_tasks (worker_pool S) = []"

definition conn_idle :: "nat \<Rightarrow> nat \<Rightarrow> (nat \<Rightarrow> int) \<Rightarrow> echoserver server \<Rightarrow> bool" where
  "conn_idle lid cid wtid S \<longleftrightarrow> (\<forall>i. server_idle lid cid (wtid i) S)"

lemma conn_idle_cases:
  assumes "conn_idle lid cid wtid S"
  obtains c l where "sv_heap S cid = Some c" and "get_loop lid S = Some l" and "conn_serves lid cid c l"
    and "b_buf (cn_inputbuffer c) = []" and "conn_out c = []" and "el_taskqueue l = []"
    and "\<And>i. el_threadid l \<noteq> Some (wtid i)" and "echo_ready (sv_tcpserver S, sv_app S)"
proof -
  have idle: "server_idle lid cid (wtid i) S" for i using assms by (simp add: conn_idle_def)
  obtain c l where c: "sv_heap S cid = Some c" "get_loop lid S = Some l" and s: "conn_serves lid cid c l"
    "b_buf (cn_inputbuffer c) = []" "conn_out c = []" "el_taskqueue l = []" "echo_ready (sv_tcpserver S, sv_app S)"
    using idle [of 0] by (auto simp: server_idle_def service_idle_def conn_serves_def split: option.splits)
  have tid: "el_threadid l \<noteq> Some (wtid i)" for i
    using idle [of i] c by (simp add: server_idle_def service_idle_def)
  show thesis by (rule that [OF c s(1-4) tid s(5)])
qed

lemma exchange_start:
  assumes rests: "server_rests S" and idle: "conn_idle lid cid wtid S" and ms: "list_all frame_ok ms" "list_all nul_free ms"
    and bursts: "list_all (list_all reads_on) bursts" "concat (map reads_bytes bursts) = concat (map frame ms)"
  obtains c l where "sv_heap S cid = Some c" and "get_loop lid S = Some l" and "conn_serves lid cid c l"
    and "round_server lid cid wtid S l ms" and "exchange_inv lid cid wtid S c l ms (bursts, S, [])"
proof -
  from idle obtain c l where c: "sv_heap S cid = Some c" "get_loop lid S = Some l" "conn_serves lid cid c l"
    "b_buf (cn_inputbuffer c) = []" "conn_out c = []" "el_taskqueue l = []" and tid: "\<And>i. el_threadid l \<noteq> Some (wtid i)"
    and ready: "echo_ready (sv_tcpserver S, sv_app S)"
    by (rule conn_idle_cases) blast
  have S: "exchanging lid cid S c l (worker_pool S) = S"
    using put_conn_same [OF c(1,2)] by (simp add: exchanging_def)
  have "tasks_in_order (worker_pool S) = []" "pool_serves (worker_pool S)"
    using rests ready by (auto simp: server_rests_def tasks_in_order_def pool_tasks_def pool_serves_def echo_ready_def)
  then have "exchange_holds lid cid ms 0 [] [] c l (worker_pool S) bursts []"
    using rests c bursts by (simp add: exchange_holds_def server_rests_def stream_of_def)
  from exchange_invI [OF this watch_local_refl refl refl, where wtid = wtid]
  have "exchange_inv lid cid wtid S c l ms (bursts, S, [])" by (simp add: S)
  moreover have "round_server lid cid wtid S l ms"
    using rests c ms tid ready by (simp add: round_server_def server_rests_def echo_ready_def)
  ultimately show thesis using c(1-3) by (intro that)
qed

lemma exchange_end:
  assumes round: "round_server lid cid wtid S0 l0 ms" and S0: "sv_heap S0 cid = Some c0" "get_loop lid S0 = Some l0"
    and c0: "conn_serves lid cid c0 l0"
    and inv: "exchange_inv lid cid wtid S0 c0 l0 ms (bursts, S, sent)" and over: "exchange_done lid cid (bursts, S, sent)"
  shows "server_rests S \<and> ThreadPool_size (worker_pool S) = ThreadPool_size (worker_pool S0) \<and>
    (\<exists>rs. mset rs = mset (map echo_reply ms) \<and> (ThreadPool_size (worker_pool S0) = 1 \<longrightarrow> rs = map echo_reply ms) \<and>
      sent = concat (map frame rs)) \<and>
    conn_idle lid cid wtid S \<and> (\<forall>lid' i. i \<noteq> cid \<longrightarrow> conn_idle lid' i wtid S0 \<longrightarrow> conn_idle lid' i wtid S)"
proof -
  note r = round [unfolded round_server_def]
  obtain k ds qs c l p where S: "S = exchanging lid cid S0 c l p"
    and holds: "exchange_holds lid cid ms k ds qs c l p bursts sent"
    and l: "watch_local c0 l0 c l" "el_threadid l = el_threadid l0" "ThreadPool_size p = ThreadPool_size (worker_pool S0)"
    using inv by (auto simp: exchange_inv_def)
  have fin: "bursts = []" "pool_tasks p = []" "conn_out c = []" "el_taskqueue l = []"
    using over S S0(2) by (auto simp: exchange_done_def)
  note h = holds [unfolded exchange_holds_def]
  have qs: "qs = []" using h fin by simp
  have "stream_of frame frame_ok (b_buf (cn_inputbuffer c)) (drop k ms) []"
    using h fin(1) r by (auto simp: stream_of_def list_all_iff dest: in_set_dropD)
  moreover have "stream_of frame frame_ok (b_buf (cn_inputbuffer c)) [] (b_buf (cn_inputbuffer c))" using h by simp
  ultimately have "drop k ms = []" and buf: "b_buf (cn_inputbuffer c) = []" using wire.unique_decoding by blast+
  then have k: "take k ms = ms" by simp
  have "mset (map (request_task cid) ds) = mset (map (request_task cid) ms)" using h fin(2) qs k by simp
  then have ds: "mset ds = mset ms"
    using multiset.inj_map [of "request_task cid"] by (simp add: inj_def inj_request_task)
  have order: "ds = ms" if "ThreadPool_size (worker_pool S0) = 1"
  proof -
    have "tasks_in_order p = []" using fin(2) by (simp add: tasks_in_order_def pool_tasks_def)
    then have "map (request_task cid) ds = map (request_task cid) ms" using h that l(3) qs k by simp
    then show ?thesis by (simp add: inj_map_eq_map inj_def inj_request_task)
  qed
  have "mset (map echo_reply ds) = mset (map echo_reply ms)" using ds by (metis mset_map)
  moreover have "sent = concat (map frame (map echo_reply ds))" using h fin(3) by simp
  moreover have "pool_serves p" using h by simp
  then have "server_rests S"
    using S fin(2) r exchanging_registered [of S0 cid lid c l p] by (simp add: server_rests_def pool_serves_def)
  moreover have p: "p_queue p = []" using fin(2) by (simp add: pool_tasks_def)
  note ready = exchanging_ready [OF round \<open>pool_serves p\<close>]
  have "conn_idle lid cid wtid S"
    using h S S0 r l(2) fin buf ready p by (simp add: conn_idle_def server_idle_def service_idle_def conn_serves_def)
  moreover have "conn_idle lid' i wtid S" if "i \<noteq> cid" "conn_idle lid' i wtid S0" for lid' i
    unfolding conn_idle_def
  proof
    fix j
    have "server_idle lid' i (wtid j) S0" using that(2) by (simp add: conn_idle_def)
    from idle_others [OF this that(1) S0(2) l(1)] c0 h fin(4) l(2) ready p
    show "server_idle lid' i (wtid j) S" by (simp add: S exchanging_def conn_serves_def)
  qed
  moreover have "ThreadPool_size (worker_pool S) = ThreadPool_size (worker_pool S0)" using S l(3) by simp
  moreover have "ThreadPool_size (worker_pool S0) = 1 \<longrightarrow> map echo_reply ds = map echo_reply ms" using order by blast
  ultimately show ?thesis by blast
qed

end
