(* ===== verification/Server_Session.thy ===== *)
theory Server_Session
  imports Server_Exchange
begin

text \<open>
  A session: any number of rounds of requests and replies, on any connections of the server, in any order; in each
  round the loop and the workers are interleaved in any way.
\<close>









subsection \<open>What holds during a session\<close>


















end
