(* ===== verification/Signals.thy ===== *)
theory Signals
  imports Main_Program Server_Objects
begin

text \<open>
  The process of \<^verbatim>\<open>tcpepoll.cpp\<close> under the signals 2 and 15, delivered to the main thread: \<^verbatim>\<open>main\<close> installs
  the handler before the server exists, and while the handler runs for one of the two signals, the other
  one starts it again on top of it. With the threads that have been joined, for \<^verbatim>\<open>delete\<close> destroys
  the \<^verbatim>\<open>std::thread\<close> objects of both pools, and the destructor of one that has not been joined ends the process.
  (Before it, the same \<^verbatim>\<open>delete\<close> destroys the mutex, the condition variable and the queue that such a thread still
  uses: what the thread does then is not followed.)
\<close>

subsection \<open>The process\<close>

text \<open>The server, the workers and the IO threads that have been joined, and the handlers, innermost first.\<close>

type_synonym stopping = "echoserver server \<times> nat set \<times> nat set \<times> signal_state list"

datatype process_end =
    Exit_zero
  | Std_terminate       \<comment> \<open>the destructor of a \<^verbatim>\<open>std::thread\<close> that has not been joined\<close>
  | Fault fault
  | Thread_fault fault  \<comment> \<open>a thread of the server: \<^verbatim>\<open>exit(-1)\<close>, an uncaught exception, undefined behaviour\<close>

datatype process =
    Constructing        \<comment> \<open>the handlers are installed, \<^verbatim>\<open>server\<close> is still the null pointer\<close>
  | Serving "echoserver server"
  | Stopping stopping
  | Ended "stopping option" process_end

text \<open>
  The threads of the server can end the process too: where \<^verbatim>\<open>epoll_wait\<close> or a handler of a loop fails, or the
  task of a worker. The main thread runs loop 0 until a signal interrupts it; a sub loop runs where its IO thread does.
  (What \<^verbatim>\<open>epoll_wait\<close> returns and the channel are not restricted further: the process has at least the failures
  of the program.)
\<close>

definition loop_runs :: "bool \<Rightarrow> 'x server \<Rightarrow> nat \<Rightarrow> bool" where
  "loop_runs main S lid \<longleftrightarrow>
     (case lid of 0 \<Rightarrow> main | Suc j \<Rightarrow> \<exists>i. at (sv_threadpool S) i (Running (EventLoop_run_task j)))"

definition channel_of :: "nat \<Rightarrow> chan_ptr \<Rightarrow> 'x server \<Rightarrow> bool" where
  "channel_of lid p S \<longleftrightarrow>
     (case p of
        Accept_channel \<Rightarrow> lid = 0
      | Wake_channel k \<Rightarrow> k = lid
      | Timer_channel k \<Rightarrow> k = lid
      | Client_channel cid \<Rightarrow> \<forall>c. sv_heap S cid = Some c \<longrightarrow> cn_loop c = lid)"

inductive thread_fails :: "machine \<Rightarrow> bool \<Rightarrow> echoserver server \<Rightarrow> fault \<Rightarrow> bool" for mc main S where
  waiting: "loop_runs main S lid \<Longrightarrow> Epoll_loop chan_deref chan_put r S = Inl f \<Longrightarrow> thread_fails mc main S f"
| handling: "loop_runs main S lid \<Longrightarrow> channel_of lid p S \<Longrightarrow>
    run_channels (echo_env mc) tid [(p, inp)] S = Some (Inl f) \<Longrightarrow> thread_fails mc main S f"
| working: "at (worker_pool S) i (Running t) \<Longrightarrow>
    on_connection (\<lambda>s. Some (worker_exec (mc_ctl mc) (mc_evwrite mc) tid t s)) (task_conn t) S = Some (Inl f) \<Longrightarrow>
    thread_fails mc main S f"

text \<open>The thread that \<^verbatim>\<open>join\<close> of \<^verbatim>\<open>ThreadPool::Stop\<close> has just left behind.\<close>

definition newly_joined :: "pool_stop \<Rightarrow> pool_stop \<Rightarrow> nat set" where
  "newly_joined a b = (case (a, b) of (Stop_join th, Stop_join _) \<Rightarrow> {th} | _ \<Rightarrow> {})"

definition workers_joined :: "signal_state \<Rightarrow> signal_state \<Rightarrow> nat set" where
  "workers_joined h h' =
     (case (h, h') of
        (In_Stop (Stop_workers a), In_Stop (Stop_workers b)) \<Rightarrow> newly_joined a b
      | (Delete_workers a, Delete_workers b) \<Rightarrow> newly_joined a b
      | _ \<Rightarrow> {})"

definition io_joined :: "signal_state \<Rightarrow> signal_state \<Rightarrow> nat set" where
  "io_joined h h' =
     (case (h, h') of
        (In_Stop (Stop_server (Stop_io a)), In_Stop (Stop_server (Stop_io b))) \<Rightarrow> newly_joined a b
      | (Delete_io a, Delete_io b) \<Rightarrow> newly_joined a b
      | _ \<Rightarrow> {})"

text \<open>\<^verbatim>\<open>~ThreadPool\<close> has called \<^verbatim>\<open>Stop\<close> and destroys \<^verbatim>\<open>threads_\<close>.\<close>

abbreviation all_threads :: "'t pool \<Rightarrow> nat set" where
  "all_threads p \<equiv> {..<ThreadPool_size p}"

definition destroys_joinable :: "stopping \<Rightarrow> bool" where
  "destroys_joinable st \<longleftrightarrow>
     (case st of
        (S, W, I, Delete_workers Stop_returned # hs) \<Rightarrow> \<not> all_threads (worker_pool S) \<subseteq> W
      | (S, W, I, Delete_io Stop_returned # hs) \<Rightarrow> \<not> all_threads (sv_threadpool S) \<subseteq> I
      | _ \<Rightarrow> False)"

text \<open>
  A signal whose handler runs waits until it returns, which this one does not; so only one other can interrupt it.
  Once \<^verbatim>\<open>delete\<close> has begun, the second handler works on a destroyed server.
\<close>

abbreviation handler_entry :: signal_state where
  "handler_entry \<equiv> In_Stop (Stop_workers Stop_test)"

inductive process_step :: "machine \<Rightarrow> (u64 \<Rightarrow> u64) \<Rightarrow> process \<Rightarrow> process \<Rightarrow> bool" for mc evwrite where
  construct: "EchoServer_new (mc_ctl mc) inet_addr (mc_inet_ntoa mc) (mc_garbage mc) rcs mainfds
      (map subfds [0..<3]) 3 ip port now = Inr (S, reqs) \<Longrightarrow>
    process_step mc evwrite Constructing (Serving S)"
| construct_fails: "EchoServer_new (mc_ctl mc) inet_addr (mc_inet_ntoa mc) (mc_garbage mc) rcs mainfds
      (map subfds [0..<3]) 3 ip port now = Inl e \<Longrightarrow>
    process_step mc evwrite Constructing (Ended None (Fault e))"
| signal_early: "process_step mc evwrite Constructing (Ended None (Fault (Undefined Null_dereference)))"
| serve: "running_step On_main S S' \<Longrightarrow> process_step mc evwrite (Serving S) (Serving S')"
| signal: "process_step mc evwrite (Serving S) (Stopping (S, {}, {}, [handler_entry]))"
| threads: "running_step On_main S S' \<Longrightarrow>
    process_step mc evwrite (Stopping (S, W, I, hs)) (Stopping (S', W, I, hs))"
| handler: "signal_Stop evwrite On_main (S, h) (S', h') \<Longrightarrow> \<not> destroys_joinable (S, W, I, h # hs) \<Longrightarrow>
    process_step mc evwrite (Stopping (S, W, I, h # hs))
      (Stopping (S', W \<union> workers_joined h h', I \<union> io_joined h h', h' # hs))"
| terminate: "destroys_joinable st \<Longrightarrow> process_step mc evwrite (Stopping st) (Ended (Some st) Std_terminate)"
| signal_again: "process_step mc evwrite (Stopping (S, W, I, [In_Stop e])) (Stopping (S, W, I, [handler_entry, In_Stop e]))"
| signal_destroyed: "\<forall>e. h \<noteq> In_Stop e \<Longrightarrow>
    process_step mc evwrite (Stopping (S, W, I, [h])) (Ended (Some (S, W, I, [h])) (Fault (Undefined Use_after_free)))"
| thread_dies: "thread_fails mc True S f \<Longrightarrow>
    process_step mc evwrite (Serving S) (Ended (Some (S, {}, {}, [])) (Thread_fault f))"
| thread_dies_stopping: "thread_fails mc False S f \<Longrightarrow>
    process_step mc evwrite (Stopping (S, W, I, hs)) (Ended (Some (S, W, I, hs)) (Thread_fault f))"
| exit: "process_step mc evwrite (Stopping (S, W, I, Exit_0 # hs)) (Ended (Some (S, W, I, Exit_0 # hs)) Exit_zero)"

text \<open>For example, when \<^verbatim>\<open>epoll_wait\<close> fails in the main thread.\<close>

lemma wait_failure_ends:
  "process_step mc evwrite (Serving S) (Ended (Some (S, {}, {}, [])) (Thread_fault Exit_failure))"
proof -
  have "thread_fails mc True S Exit_failure"
    by (rule thread_fails.waiting [of _ _ 0 Wait_failed]) (simp_all add: loop_runs_def Epoll_loop_def)
  then show ?thesis by (rule process_step.thread_dies)
qed

definition process_init :: "process \<Rightarrow> bool" where
  "process_init P \<longleftrightarrow> P = Constructing"

subsection \<open>A pool under two handlers\<close>

text \<open>How far a handler has come with the first \<^verbatim>\<open>Stop\<close> of either pool.\<close>

fun worker_pos :: "signal_state \<Rightarrow> pool_stop" where
  "worker_pos (In_Stop (Stop_workers a)) = a"
| "worker_pos h = Stop_returned"

fun io_pos :: "signal_state \<Rightarrow> pool_stop" where
  "io_pos (In_Stop (Stop_workers a)) = Stop_test"
| "io_pos (In_Stop (Stop_server (Stop_io a))) = a"
| "io_pos (In_Stop (Stop_server a)) = Stop_test"
| "io_pos h = Stop_returned"

fun joined_upto :: "nat \<Rightarrow> pool_stop \<Rightarrow> nat set" where
  "joined_upto n (Stop_join th) = {..<min th n}"
| "joined_upto n Stop_returned = {..<n}"
| "joined_upto n a = {}"

text \<open>The flag has been set, and not every thread has been joined.\<close>

definition half_stopped :: "nat \<Rightarrow> pool_stop \<Rightarrow> bool" where
  "half_stopped n a \<longleftrightarrow> a \<noteq> Stop_test \<and> joined_upto n a \<noteq> {..<n}"

definition interrupted_midway :: "echoserver server \<Rightarrow> signal_state \<Rightarrow> bool" where
  "interrupted_midway S h \<longleftrightarrow>
     half_stopped (ThreadPool_size (worker_pool S)) (worker_pos h) \<or>
     half_stopped (ThreadPool_size (sv_threadpool S)) (io_pos h)"

text \<open>
  The outer handler is at \<open>a\<close> and does not go on; the inner one is at \<open>b\<close>. If the outer one has set the flag,
  \<^verbatim>\<open>Stop\<close> of the inner one returns at once. (With one handler \<open>a\<close> is \<open>Stop_test\<close>.)
\<close>

definition pool_stopping :: "'t pool \<Rightarrow> nat set \<Rightarrow> pool_stop \<Rightarrow> pool_stop \<Rightarrow> bool" where
  "pool_stopping p J a b \<longleftrightarrow>
     (if a = Stop_test then J = joined_upto (ThreadPool_size p) b \<and> stop_progress p b
      else J = joined_upto (ThreadPool_size p) a \<and> stop_progress p a \<and> (b = Stop_test \<or> b = Stop_returned))"

lemma stop_progress_flag: "stop_progress p a \<Longrightarrow> a \<noteq> Stop_test \<Longrightarrow> p_stop p"
  by (cases a) (auto simp: stop_progress_def)

lemma pool_stopping_flag: "pool_stopping p J a b \<Longrightarrow> a \<noteq> Stop_test \<or> b \<noteq> Stop_test \<Longrightarrow> p_stop p"
  using stop_progress_flag [of p a] stop_progress_flag [of p b] by (auto simp: pool_stopping_def split: if_splits)

lemma pool_moves_size: "pool_moves self p p' \<Longrightarrow> ThreadPool_size p' = ThreadPool_size p"
  using pool_threads_step [of p p'] by (auto simp: pool_moves_def ThreadPool_size_def pool_step_def)

lemma pool_stopping_moves: "pool_moves None p p' \<Longrightarrow> pool_stopping p J a b \<Longrightarrow> pool_stopping p' J a b"
  using pool_moves_size [of None p p'] pool_moves_keep(2) [of None p p'] by (auto simp: pool_stopping_def)

lemma Stop_step_size: "ThreadPool_Stop self (p, b) (p', b') \<Longrightarrow> ThreadPool_size p' = ThreadPool_size p"
  by (cases rule: ThreadPool_Stop.cases) (auto simp: ThreadPool_size_def)

lemma pool_stopping_Stop:
  assumes "ThreadPool_Stop None (p, b) (p', b')" and "pool_stopping p J a b"
  shows "pool_stopping p' (J \<union> newly_joined b b') a b'"
proof (cases "a = Stop_test")
  case True
  then have J: "J = joined_upto (ThreadPool_size p) b" and prog: "stop_progress p b"
    using assms(2) by (simp_all add: pool_stopping_def)
  have "J \<union> newly_joined b b' = joined_upto (ThreadPool_size p) b'"
    using assms(1) prog unfolding J
    by (cases rule: ThreadPool_Stop.cases)
      (auto simp: newly_joined_def stop_progress_def at_def ThreadPool_size_def)
  with True Stop_step_progress [OF assms(1) prog] Stop_step_size [OF assms(1)] show ?thesis
    by (simp add: pool_stopping_def)
next
  case False
  with assms(2) have "p_stop p" by (simp add: pool_stopping_flag)
  with assms False show ?thesis
    by (cases rule: ThreadPool_Stop.cases) (auto simp: pool_stopping_def newly_joined_def)
qed

subsection \<open>The invariant of the process\<close>

fun outer_pos :: "(signal_state \<Rightarrow> pool_stop) \<Rightarrow> signal_state list \<Rightarrow> pool_stop" where
  "outer_pos pos [] = Stop_test"
| "outer_pos pos (h # hs) = pos h"

text \<open>\<^verbatim>\<open>delete\<close> goes past a pool only when all its threads have been joined.\<close>

definition deleted_ok :: "stopping \<Rightarrow> bool" where
  "deleted_ok st \<longleftrightarrow>
     (case st of
        (S, W, I, Delete_workers b # hs) \<Rightarrow> b = Stop_test \<or> b = Stop_returned
      | (S, W, I, Delete_io b # hs) \<Rightarrow> (b = Stop_test \<or> b = Stop_returned) \<and> all_threads (worker_pool S) \<subseteq> W
      | (S, W, I, Exit_0 # hs) \<Rightarrow> all_threads (worker_pool S) \<subseteq> W \<and> all_threads (sv_threadpool S) \<subseteq> I
      | _ \<Rightarrow> True)"

definition stopping_inv :: "stopping \<Rightarrow> bool" where
  "stopping_inv st \<longleftrightarrow>
     (\<exists>S W I h hs. st = (S, W, I, h # hs) \<and> (hs = [] \<or> (\<exists>e. hs = [In_Stop e])) \<and> deleted_ok st \<and>
        pool_stopping (worker_pool S) W (outer_pos worker_pos hs) (worker_pos h) \<and>
        pool_stopping (sv_threadpool S) I (outer_pos io_pos hs) (io_pos h))"

text \<open>How the process has ended, if it has.\<close>

definition construction_fails :: "machine \<Rightarrow> fault \<Rightarrow> bool" where
  "construction_fails mc f \<longleftrightarrow> (\<exists>inet_addr rcs mainfds subfds ip port now.
     EchoServer_new (mc_ctl mc) inet_addr (mc_inet_ntoa mc) (mc_garbage mc) rcs mainfds (map subfds [0..<3]) 3 ip port now =
       Inl f)"

definition end_inv :: "machine \<Rightarrow> stopping option \<Rightarrow> process_end \<Rightarrow> bool" where
  "end_inv mc st e \<longleftrightarrow>
     (case st of
        None \<Rightarrow> (\<exists>f. e = Fault f \<and> (f = Undefined Null_dereference \<or> construction_fails mc f))
      | Some st \<Rightarrow>
          (case e of
             Exit_zero \<Rightarrow> stopping_inv st \<and> (\<exists>S W I hs. st = (S, W, I, Exit_0 # hs))
           | Std_terminate \<Rightarrow> stopping_inv st \<and> destroys_joinable st
           | Thread_fault f \<Rightarrow> (\<exists>S. st = (S, {}, {}, []) \<and> thread_fails mc True S f) \<or>
               stopping_inv st \<and> thread_fails mc False (fst st) f
           | Fault f \<Rightarrow> stopping_inv st \<and> f = Undefined Use_after_free \<and> (\<exists>S W I h. st = (S, W, I, [h]) \<and> (\<forall>e. h \<noteq> In_Stop e))))"

definition process_inv :: "machine \<Rightarrow> process \<Rightarrow> bool" where
  "process_inv mc P \<longleftrightarrow>
     (case P of
        Constructing \<Rightarrow> True
      | Serving S \<Rightarrow> \<not> p_stop (worker_pool S) \<and> \<not> p_stop (sv_threadpool S)
      | Stopping st \<Rightarrow> stopping_inv st
      | Ended st e \<Rightarrow> end_inv mc st e)"

lemma stopping_threads:
  assumes "running_step On_main S S'" and "stopping_inv (S, W, I, hs)"
  shows "stopping_inv (S', W, I, hs)"
proof -
  have w: "pool_moves None (worker_pool S) (worker_pool S')" and io: "pool_moves None (sv_threadpool S) (sv_threadpool S')"
    using running_moves [OF assms(1)] by simp_all
  with assms(2) show ?thesis
    by (auto simp: stopping_inv_def deleted_ok_def pool_moves_size [OF w] pool_moves_size [OF io]
        intro: pool_stopping_moves split: signal_state.splits)
qed

text \<open>A call of the handler is a call of \<^verbatim>\<open>Stop\<close> of one of the pools, or leaves both as they are.\<close>

definition stop_or_stay :: "'t pool \<Rightarrow> 't pool \<Rightarrow> pool_stop \<Rightarrow> pool_stop \<Rightarrow> nat set \<Rightarrow> bool" where
  "stop_or_stay p p' b b' J \<longleftrightarrow>
     p' = p \<and> b' = b \<and> J = {} \<or> ThreadPool_Stop None (p, b) (p', b') \<and> J = newly_joined b b'"

lemma pool_stopping_stay:
  "stop_or_stay p p' b b' J' \<Longrightarrow> pool_stopping p J a b \<Longrightarrow> pool_stopping p' (J \<union> J') a b'"
  using pool_stopping_Stop [of p b p' b' J a] by (auto simp: stop_or_stay_def)

lemma stop_or_stay_size: "stop_or_stay p p' b b' J \<Longrightarrow> ThreadPool_size p' = ThreadPool_size p"
  using Stop_step_size [of None p b p' b'] by (auto simp: stop_or_stay_def)

lemma Stop_step_flagged:
  assumes "ThreadPool_Stop self (p, a) (p', b)" and "p_stop p" and "a = Stop_test \<or> a = Stop_returned"
  shows "p' = p \<and> b = Stop_returned \<and> newly_joined a b = {}"
  using assms by (cases rule: ThreadPool_Stop.cases) (auto simp: newly_joined_def)

lemma handler_pools:
  assumes "signal_Stop evwrite On_main (S, h) (S', h')" and "deleted_ok (S, W, I, h # hs)"
    and "worker_pos h \<noteq> Stop_test \<longrightarrow> p_stop (worker_pool S)" and "io_pos h \<noteq> Stop_test \<longrightarrow> p_stop (sv_threadpool S)"
  shows "stop_or_stay (worker_pool S) (worker_pool S') (worker_pos h) (worker_pos h') (workers_joined h h') \<and>
    stop_or_stay (sv_threadpool S) (sv_threadpool S') (io_pos h) (io_pos h') (io_joined h h')"
  using assms(1)
proof (cases rule: signal_Stop.cases)
  case (stop a b)
  from stop(3) show ?thesis
  proof (cases rule: EchoServer_Stop.cases)
    case (server c d)
    from server(3) show ?thesis
      unfolding stop server
      by (cases rule: TcpServer_stop.cases) (simp_all add: stop_or_stay_def workers_joined_def io_joined_def)
  qed (simp_all add: stop stop_or_stay_def workers_joined_def io_joined_def)
next
  case (delete_workers a p b)
  with assms(2,3) have "p = worker_pool S \<and> b = Stop_returned \<and> newly_joined a b = {}"
    by (intro Stop_step_flagged) (auto simp: deleted_ok_def)
  with delete_workers show ?thesis by (auto simp: stop_or_stay_def workers_joined_def io_joined_def)
next
  case (delete_io a p b)
  with assms(2,4) have "p = sv_threadpool S \<and> b = Stop_returned \<and> newly_joined a b = {}"
    by (intro Stop_step_flagged) (auto simp: deleted_ok_def)
  with delete_io show ?thesis by (auto simp: stop_or_stay_def workers_joined_def io_joined_def)
qed (simp_all add: stop_or_stay_def workers_joined_def io_joined_def)

lemma handler_deleted:
  assumes "signal_Stop evwrite On_main (S, h) (S', h')" and "deleted_ok (S, W, I, h # hs)"
    and "\<not> destroys_joinable (S, W, I, h # hs)"
    and "worker_pos h \<noteq> Stop_test \<longrightarrow> p_stop (worker_pool S)" and "io_pos h \<noteq> Stop_test \<longrightarrow> p_stop (sv_threadpool S)"
  shows "deleted_ok (S', W \<union> workers_joined h h', I \<union> io_joined h h', h' # hs)"
  using assms(1)
proof (cases rule: signal_Stop.cases)
  case (delete_workers a p b)
  with assms(2,4) have "p = worker_pool S \<and> b = Stop_returned \<and> newly_joined a b = {}"
    by (intro Stop_step_flagged) (auto simp: deleted_ok_def)
  with delete_workers show ?thesis by (auto simp: deleted_ok_def)
next
  case (delete_io a p b)
  with assms(2,5) have "p = sv_threadpool S \<and> b = Stop_returned \<and> newly_joined a b = {}"
    by (intro Stop_step_flagged) (auto simp: deleted_ok_def)
  with delete_io assms(2) show ?thesis by (auto simp: deleted_ok_def)
qed (use assms(2,3) in \<open>auto simp: deleted_ok_def destroys_joinable_def split: signal_state.splits pool_stop.splits\<close>)

lemma stopping_handler:
  assumes "signal_Stop evwrite On_main (S, h) (S', h')" and "\<not> destroys_joinable (S, W, I, h # hs)"
    and "stopping_inv (S, W, I, h # hs)"
  shows "stopping_inv (S', W \<union> workers_joined h h', I \<union> io_joined h h', h' # hs)"
proof -
  have hs: "hs = [] \<or> (\<exists>e. hs = [In_Stop e])" and del: "deleted_ok (S, W, I, h # hs)"
    and w: "pool_stopping (worker_pool S) W (outer_pos worker_pos hs) (worker_pos h)"
    and io: "pool_stopping (sv_threadpool S) I (outer_pos io_pos hs) (io_pos h)"
    using assms(3) by (auto simp: stopping_inv_def)
  have flags: "worker_pos h \<noteq> Stop_test \<longrightarrow> p_stop (worker_pool S)" "io_pos h \<noteq> Stop_test \<longrightarrow> p_stop (sv_threadpool S)"
    using pool_stopping_flag [OF w] pool_stopping_flag [OF io] by blast+
  have stay: "stop_or_stay (worker_pool S) (worker_pool S') (worker_pos h) (worker_pos h') (workers_joined h h')"
    "stop_or_stay (sv_threadpool S) (sv_threadpool S') (io_pos h) (io_pos h') (io_joined h h')"
    using handler_pools [OF assms(1) del flags] by blast+
  show ?thesis
    using hs handler_deleted [OF assms(1) del assms(2) flags] pool_stopping_stay [OF stay(1) w]
      pool_stopping_stay [OF stay(2) io]
    by (auto simp: stopping_inv_def)
qed

lemma TcpServer_subloops_pool:
  "TcpServer_subloops ctl ii fdss ls p = Inr (ls', p') \<Longrightarrow>
    p_stop p' = p_stop p \<and> p_threads p' = p_threads p \<and> length ls' = length ls + length fdss"
proof (induction fdss arbitrary: ii ls p)
  case (Cons fds fdss)
  then obtain l where "TcpServer_subloops ctl (Suc ii) fdss (ls @ [l]) (ThreadPool_addtask (EventLoop_run_task ii) p) =
      Inr (ls', p')"
    by (auto simp: bind_res_eq_Inr)
  from Cons.IH [OF this] show ?case by (simp add: ThreadPool_addtask_def)
qed simp

lemma EchoServer_new_pools:
  assumes "EchoServer_new ctl inet_addr inet_ntoa garbage rcs mainfds fdss n ip port now = Inr (S, reqs)"
  shows "worker_pool S = ThreadPool_new n \<and> \<not> p_stop (sv_threadpool S) \<and>
    p_threads (sv_threadpool S) = replicate (length fdss) At_loop \<and>
    length (sv_subloops S) = length fdss \<and> ts_threadnum (sv_tcpserver S) = int (length fdss)"
  using assms
  by (auto simp: EchoServer_new_def TcpServer_new_def Let_def bind_res_eq_Inr EchoServer_handlers_def
      TcpServer_setnewconnectioncb_def TcpServer_setcloseconnectioncb_def TcpServer_seterrorconnectioncb_def
      TcpServer_setonmessagecb_def TcpServer_setsendcompletecb_def dest!: TcpServer_subloops_pool)

lemma process_step_inv:
  assumes "process_step mc evwrite P Q" and "process_inv mc P"
  shows "process_inv mc Q"
  using assms(1)
proof (cases rule: process_step.cases)
  case construct
  then show ?thesis by (auto simp: process_inv_def dest!: EchoServer_new_pools)
next
  case (construct_fails inet_addr rcs mainfds subfds ip port now f)
  then have "construction_fails mc f" unfolding construction_fails_def by blast
  with construct_fails show ?thesis by (simp add: process_inv_def end_inv_def)
next
  case (serve S S')
  with assms(2) show ?thesis
    using running_moves [OF serve(3)] pool_moves_keep(4) [of _ "worker_pool S"] pool_moves_keep(4) [of _ "sv_threadpool S"]
    by (auto simp: process_inv_def)
next
  case (threads S S' W I hs)
  with assms(2) show ?thesis by (auto simp: process_inv_def intro: stopping_threads)
next
  case (handler S h S' h' W I hs)
  with assms(2) show ?thesis by (auto simp: process_inv_def intro: stopping_handler)
next
  case (signal S)
  with assms(2) show ?thesis
    by (auto simp: process_inv_def stopping_inv_def deleted_ok_def pool_stopping_def stop_progress_def)
next
  case (signal_again S W I e)
  with assms(2) show ?thesis
    by (auto simp: process_inv_def stopping_inv_def deleted_ok_def pool_stopping_def)
qed (use assms(2) in \<open>auto simp: process_inv_def end_inv_def\<close>)

interpretation signals: invariant_system process_init "process_step mc evwrite" "process_inv mc" for mc evwrite
proof
  show "process_inv mc P" if "process_init P" for P
    using that by (simp add: process_init_def process_inv_def)
qed (rule process_step_inv)

subsection \<open>How the process ends\<close>

lemma half_stopped_joined:
  "pool_stopping p J a b \<Longrightarrow> half_stopped (ThreadPool_size p) a \<Longrightarrow> \<not> all_threads p \<subseteq> J"
  by (cases a) (auto simp: pool_stopping_def half_stopped_def)

lemma not_half_stopped:
  "pool_stopping p J a Stop_returned \<Longrightarrow> \<not> half_stopped (ThreadPool_size p) a \<Longrightarrow> J = all_threads p"
  by (auto simp: pool_stopping_def half_stopped_def split: if_splits)

lemma unjoined_half_stopped:
  "pool_stopping p J a Stop_returned \<Longrightarrow> \<not> all_threads p \<subseteq> J \<Longrightarrow> half_stopped (ThreadPool_size p) a"
  using not_half_stopped by blast

lemma joined_have_left: "pool_stopping p (all_threads p) a Stop_returned \<Longrightarrow> joinable p"
  by (cases a) (auto simp: pool_stopping_def stop_progress_def joinable_nth ThreadPool_size_def min_def
      dest!: equalityD1 split: if_splits)

lemma exit_joined:
  assumes "stopping_inv (S, W, I, Exit_0 # os)"
  shows "W = all_threads (worker_pool S) \<and> I = all_threads (sv_threadpool S) \<and>
    joinable (worker_pool S) \<and> joinable (sv_threadpool S) \<and>
    (os = [] \<or> (\<exists>outer. os = [outer] \<and> \<not> interrupted_midway S outer))"
proof -
  have os: "os = [] \<or> (\<exists>e. os = [In_Stop e])"
    and all: "all_threads (worker_pool S) \<subseteq> W" "all_threads (sv_threadpool S) \<subseteq> I"
    and w: "pool_stopping (worker_pool S) W (outer_pos worker_pos os) Stop_returned"
    and io: "pool_stopping (sv_threadpool S) I (outer_pos io_pos os) Stop_returned"
    using assms by (auto simp: stopping_inv_def deleted_ok_def)
  have mid: "\<not> half_stopped (ThreadPool_size (worker_pool S)) (outer_pos worker_pos os)"
    "\<not> half_stopped (ThreadPool_size (sv_threadpool S)) (outer_pos io_pos os)"
    using half_stopped_joined [OF w] half_stopped_joined [OF io] all by blast+
  have "W = all_threads (worker_pool S)" "I = all_threads (sv_threadpool S)"
    using not_half_stopped w io mid by auto
  moreover from this w io have "joinable (worker_pool S)" "joinable (sv_threadpool S)"
    by (auto intro: joined_have_left)
  ultimately show ?thesis using os mid by (auto simp: interrupted_midway_def)
qed

text \<open>With every thread joined, nothing is left that could fail.\<close>

lemma no_thread_left:
  assumes "joinable (worker_pool S)" and "joinable (sv_threadpool S)"
  shows "\<not> thread_fails mc False S f"
proof
  assume "thread_fails mc False S f"
  then have "(\<exists>i t. at (worker_pool S) i (Running t)) \<or> (\<exists>i t. at (sv_threadpool S) i (Running t))"
    by (cases rule: thread_fails.cases) (auto simp: loop_runs_def split: nat.splits)
  with assms show False by (auto simp: joinable_nth at_def)
qed

lemma end_of_process:
  assumes "process_inv mc (Ended st e)"
  shows "case st of
      None \<Rightarrow> \<exists>f. e = Fault f \<and> (f = Undefined Null_dereference \<or> construction_fails mc f)
    | Some (S, W, I, hs) \<Rightarrow>
        (case e of
           Exit_zero \<Rightarrow> W = all_threads (worker_pool S) \<and> I = all_threads (sv_threadpool S) \<and>
             joinable (worker_pool S) \<and> joinable (sv_threadpool S) \<and>
             (hs = [Exit_0] \<or> (\<exists>outer. hs = [Exit_0, outer] \<and> \<not> interrupted_midway S outer))
         | Std_terminate \<Rightarrow> \<exists>h outer. hs = [h, outer] \<and> interrupted_midway S outer
         | Thread_fault f \<Rightarrow> thread_fails mc (hs = []) S f \<and> (\<forall>os. hs \<noteq> Exit_0 # os)
         | Fault f \<Rightarrow> f = Undefined Use_after_free \<and> (\<exists>h. hs = [h] \<and> (\<forall>e. h \<noteq> In_Stop e)))"
proof (cases st)
  case None
  with assms show ?thesis by (simp add: process_inv_def end_inv_def)
next
  case (Some s)
  obtain S W I hs where s: "s = (S, W, I, hs)" by (cases s)
  have e: "end_inv mc st e" using assms by (simp add: process_inv_def)
  show ?thesis
  proof (cases e)
    case Exit_zero
    with e Some s obtain os where hs: "hs = Exit_0 # os" and inv: "stopping_inv (S, W, I, Exit_0 # os)"
      by (auto simp: end_inv_def)
    from exit_joined [OF inv] show ?thesis
      by (auto simp: Some s hs Exit_zero)
  next
    case Std_terminate
    with e Some s have inv: "stopping_inv (S, W, I, hs)" and "destroys_joinable (S, W, I, hs)"
      by (simp_all add: end_inv_def)
    then obtain h os where hs: "hs = h # os" and os: "os = [] \<or> (\<exists>e. os = [In_Stop e])"
      and w: "pool_stopping (worker_pool S) W (outer_pos worker_pos os) (worker_pos h)"
      and io: "pool_stopping (sv_threadpool S) I (outer_pos io_pos os) (io_pos h)"
      and d: "destroys_joinable (S, W, I, h # os)"
      by (auto simp: stopping_inv_def)
    from d have "h = Delete_workers Stop_returned \<and> \<not> all_threads (worker_pool S) \<subseteq> W \<or>
        h = Delete_io Stop_returned \<and> \<not> all_threads (sv_threadpool S) \<subseteq> I"
      by (auto simp: destroys_joinable_def split: signal_state.splits pool_stop.splits)
    moreover from this have "worker_pos h = Stop_returned" "io_pos h = Stop_returned" by auto
    ultimately have "half_stopped (ThreadPool_size (worker_pool S)) (outer_pos worker_pos os) \<or>
        half_stopped (ThreadPool_size (sv_threadpool S)) (outer_pos io_pos os)"
      using unjoined_half_stopped [of "worker_pool S" W] unjoined_half_stopped [of "sv_threadpool S" I] w io by metis
    with os show ?thesis by (auto simp: Some s hs Std_terminate interrupted_midway_def half_stopped_def)
  next
    case (Fault f)
    with e Some s show ?thesis by (auto simp: end_inv_def)
  next
    case (Thread_fault f)
    with e Some s consider "hs = []" "thread_fails mc True S f"
      | "stopping_inv (S, W, I, hs)" "thread_fails mc False S f"
      by (auto simp: end_inv_def)
    then show ?thesis
    proof cases
      case 1
      then show ?thesis by (simp add: Some s Thread_fault)
    next
      case 2
      have "hs \<noteq> []" using 2(1) by (auto simp: stopping_inv_def)
      moreover have "hs \<noteq> Exit_0 # os" for os
        using exit_joined [of S W I os] no_thread_left [of S mc f] 2 by blast
      ultimately show ?thesis using 2(2) by (simp add: Some s Thread_fault)
    qed
  qed
qed

subsection \<open>Runs\<close>

lemma loops_stop:
  assumes "int (length (sv_subloops S)) = ts_threadnum (sv_tcpserver S)"
  shows "\<exists>S'. (shutdown_step evwrite h)\<^sup>*\<^sup>* (S, In_Stop (Stop_server (Stop_subloop k))) (S', In_Stop (Stop_server (Stop_io Stop_test))) \<and>
    sv_threadpool S' = sv_threadpool S \<and> sv_app S' = sv_app S"
  using assms
proof (induction "length (sv_subloops S) - k" arbitrary: S k)
  case 0
  then have "TcpServer_stop evwrite (io_self h) (S, Stop_subloop k) (S, Stop_io Stop_test)"
    by (intro TcpServer_stop.subloops) simp
  then show ?case by (blast intro: signal_run signal_Stop.stop EchoServer_Stop.server)
next
  case (Suc n)
  let ?S = "S\<lparr>sv_subloops := (sv_subloops S)[k := EventLoop_stop evwrite (sv_subloops S ! k)]\<rparr>"
  have diff_eq: "n = length (sv_subloops ?S) - Suc k" using Suc.hyps(2) by simp
  have "TcpServer_stop evwrite (io_self h) (S, Stop_subloop k) (?S, Stop_subloop (Suc k))"
    using Suc.hyps(2) Suc.prems by (intro TcpServer_stop.subloop) simp_all
  then have "(shutdown_step evwrite h)\<^sup>*\<^sup>* (S, In_Stop (Stop_server (Stop_subloop k))) (?S, In_Stop (Stop_server (Stop_subloop (Suc k))))"
    by (blast intro: signal_run signal_Stop.stop EchoServer_Stop.server)
  moreover obtain S' where "(shutdown_step evwrite h)\<^sup>*\<^sup>* (?S, In_Stop (Stop_server (Stop_subloop (Suc k))))
      (S', In_Stop (Stop_server (Stop_io Stop_test)))"
    "sv_threadpool S' = sv_threadpool S" "sv_app S' = sv_app S"
    using Suc.hyps(1) [of ?S "Suc k"] diff_eq Suc.prems by auto
  ultimately show ?case by (blast intro: rtranclp_trans)
qed

text \<open>Once the workers have been stopped, with IO threads at the top of their loop.\<close>

lemma server_stop_run:
  assumes "int (length (sv_subloops S)) = ts_threadnum (sv_tcpserver S)"
    and "p_threads (sv_threadpool S) = replicate n At_loop" and "\<not> p_stop (sv_threadpool S)"
  shows "\<exists>S'. (shutdown_step evwrite On_main)\<^sup>*\<^sup>* (S, In_Stop (Stop_workers Stop_returned))
      (S', In_Stop (Stop_server (Stop_io Stop_returned))) \<and>
    worker_pool S' = worker_pool S \<and> p_stop (sv_threadpool S')"
proof -
  let ?run = "(shutdown_step evwrite On_main)\<^sup>*\<^sup>*"
  let ?S = "S\<lparr>sv_mainloop := EventLoop_stop evwrite (sv_mainloop S)\<rparr>"
  have "?run (S, In_Stop (Stop_workers Stop_returned)) (S, In_Stop (Stop_server Stop_mainloop))"
    by (intro signal_run signal_Stop.stop EchoServer_Stop.workers_stopped)
  moreover have "?run (S, In_Stop (Stop_server Stop_mainloop)) (?S, In_Stop (Stop_server (Stop_subloop 0)))"
    by (intro signal_run signal_Stop.stop EchoServer_Stop.server TcpServer_stop.mainloop)
  moreover obtain S1 where "?run (?S, In_Stop (Stop_server (Stop_subloop 0))) (S1, In_Stop (Stop_server (Stop_io Stop_test)))"
    and S1: "sv_threadpool S1 = sv_threadpool S" "sv_app S1 = sv_app S"
    using loops_stop [of ?S evwrite On_main 0] assms(1) by auto
  moreover obtain p where p: "gone p" "stop_move\<^sup>*\<^sup>* (sv_threadpool S1, Stop_test) (p, Stop_returned)"
    using stop_leaves [OF assms(2,3)] S1 by auto
  moreover have "?run (S1, In_Stop (Stop_server (Stop_io Stop_test)))
      (S1\<lparr>sv_threadpool := p\<rparr>, In_Stop (Stop_server (Stop_io Stop_returned)))"
    using io_run [OF p(2), of evwrite S1] by simp
  ultimately have "?run (S, In_Stop (Stop_workers Stop_returned))
      (S1\<lparr>sv_threadpool := p\<rparr>, In_Stop (Stop_server (Stop_io Stop_returned)))"
    by (meson rtranclp_trans)
  with p(1) S1 show ?thesis by (intro exI [of _ "S1\<lparr>sv_threadpool := p\<rparr>"]) (simp add: gone_def)
qed

text \<open>What a handler does before \<^verbatim>\<open>delete\<close>, it does on top of another one too.\<close>

lemma shutdown_run_process:
  assumes "(shutdown_step evwrite On_main)\<^sup>*\<^sup>* (S, In_Stop a) t"
  shows "snd t = In_Stop b \<longrightarrow> (\<exists>W' I'. (process_step mc evwrite)\<^sup>*\<^sup>*
      (Stopping (S, W, I, In_Stop a # hs)) (Stopping (fst t, W', I', In_Stop b # hs)))"
  using assms
proof (induction arbitrary: b rule: rtranclp_induct)
  case (step t u)
  show ?case
  proof
    assume b: "snd u = In_Stop b"
    from step.hyps(2) show "\<exists>W' I'. (process_step mc evwrite)\<^sup>*\<^sup>*
      (Stopping (S, W, I, In_Stop a # hs)) (Stopping (fst u, W', I', In_Stop b # hs))"
    proof (cases rule: shutdown_step.cases)
      case (running S1 S2 c)
      with b step.IH [of b] show ?thesis by (auto intro: rtranclp.rtrancl_into_rtrancl process_step.threads)
    next
      case signal
      with b obtain c where c: "snd t = In_Stop c"
        by (cases t; cases u) (auto elim: signal_Stop.cases)
      with step.IH [of c] obtain W' I' where "(process_step mc evwrite)\<^sup>*\<^sup>*
          (Stopping (S, W, I, In_Stop a # hs)) (Stopping (fst t, W', I', In_Stop c # hs))" by auto
      moreover have "signal_Stop evwrite On_main (fst t, In_Stop c) (fst u, In_Stop b)"
        using signal b c by (metis prod.collapse)
      then have "process_step mc evwrite (Stopping (fst t, W', I', In_Stop c # hs)) (Stopping (fst u,
          W' \<union> workers_joined (In_Stop c) (In_Stop b), I' \<union> io_joined (In_Stop c) (In_Stop b), In_Stop b # hs))"
        by (rule process_step.handler) (simp add: destroys_joinable_def)
      ultimately show ?thesis by (blast intro: rtranclp.rtrancl_into_rtrancl)
    qed
  qed
qed auto

lemma shutdown_run_stopping:
  assumes "(shutdown_step evwrite On_main)\<^sup>*\<^sup>* (S, In_Stop a) (S', In_Stop b)"
  shows "\<exists>W' I'. (process_step mc evwrite)\<^sup>*\<^sup>*
    (Stopping (S, W, I, In_Stop a # hs)) (Stopping (S', W', I', In_Stop b # hs))"
  using shutdown_run_process [OF assms, of b mc W I hs] by simp

lemma handler_call:
  "signal_Stop evwrite On_main (S, h) (S', h') \<Longrightarrow> \<not> destroys_joinable (S, W, I, h # hs) \<Longrightarrow>
    workers_joined h h' = {} \<Longrightarrow> io_joined h h' = {} \<Longrightarrow>
    process_step mc evwrite (Stopping (S, W, I, h # hs)) (Stopping (S', W, I, h' # hs))"
  using process_step.handler [of evwrite S h S' h' W I hs mc] by simp

text \<open>\<^verbatim>\<open>delete\<close> always comes to an end.\<close>

lemma delete_ends:
  assumes "p_stop (worker_pool S)" and "p_stop (sv_threadpool S)"
  shows "\<exists>h e. (process_step mc evwrite)\<^sup>*\<^sup>*
      (Stopping (S, W, I, In_Stop (Stop_server (Stop_io Stop_returned)) # hs)) (Ended (Some (S, W, I, h # hs)) e) \<and>
    (e = Std_terminate \<or> h = Exit_0 \<and> e = Exit_zero)"
proof -
  let ?run = "(process_step mc evwrite)\<^sup>*\<^sup>*" and ?P = "\<lambda>h. Stopping (S, W, I, h # hs)"
  have same: "set_pool (worker_pool S) S = S" "S\<lparr>sv_threadpool := sv_threadpool S\<rparr> = S" by (simp_all add: set_pool_def)
  have w: "signal_Stop evwrite On_main (S, Delete_workers Stop_test) (S, Delete_workers Stop_returned)"
    using signal_Stop.delete_workers [OF ThreadPool_Stop.stopped [OF assms(1)]] same(1) by metis
  have io: "signal_Stop evwrite On_main (S, Delete_io Stop_test) (S, Delete_io Stop_returned)"
    using signal_Stop.delete_io [OF ThreadPool_Stop.stopped [OF assms(2)]] same(2) by metis
  note joined = workers_joined_def io_joined_def newly_joined_def destroys_joinable_def
  have delete: "?run (?P (In_Stop (Stop_server (Stop_io Stop_returned)))) (?P (Delete_workers Stop_returned))"
    by (rule rtranclp_trans [OF r_into_rtranclp r_into_rtranclp])
      (rule handler_call, rule signal_Stop.delete w, simp_all add: joined)+
  show ?thesis
  proof (cases "destroys_joinable (S, W, I, Delete_workers Stop_returned # hs)")
    case True
    with delete show ?thesis by (blast intro: rtranclp.rtrancl_into_rtrancl process_step.terminate)
  next
    case False
    then have "process_step mc evwrite (?P (Delete_workers Stop_returned)) (?P (Delete_io Stop_test))"
      by (intro handler_call signal_Stop.workers_deleted) (simp_all add: joined)
    moreover have "process_step mc evwrite (?P (Delete_io Stop_test)) (?P (Delete_io Stop_returned))"
      by (intro handler_call io) (simp_all add: joined)
    ultimately have io_run: "?run (?P (In_Stop (Stop_server (Stop_io Stop_returned)))) (?P (Delete_io Stop_returned))"
      using delete by (meson rtranclp.rtrancl_into_rtrancl)
    show ?thesis
    proof (cases "destroys_joinable (S, W, I, Delete_io Stop_returned # hs)")
      case True
      with io_run show ?thesis by (blast intro: rtranclp.rtrancl_into_rtrancl process_step.terminate)
    next
      case False
      then have "process_step mc evwrite (?P (Delete_io Stop_returned)) (?P Exit_0)"
        by (intro handler_call signal_Stop.exit) (simp_all add: workers_joined_def io_joined_def)
      with io_run show ?thesis by (blast intro: rtranclp.rtrancl_into_rtrancl process_step.exit)
    qed
  qed
qed

subsection \<open>A second signal midway\<close>

lemma signal_sizes:
  "signal_Stop evwrite h (S, a) (S', b) \<Longrightarrow>
    ThreadPool_size (worker_pool S') = ThreadPool_size (worker_pool S) \<and>
    ThreadPool_size (sv_threadpool S') = ThreadPool_size (sv_threadpool S)"
  by (auto elim!: signal_Stop.cases EchoServer_Stop.cases TcpServer_stop.cases dest: Stop_step_size)

lemma running_sizes:
  "running_step h S S' \<Longrightarrow>
    ThreadPool_size (worker_pool S') = ThreadPool_size (worker_pool S) \<and>
    ThreadPool_size (sv_threadpool S') = ThreadPool_size (sv_threadpool S)"
  using pool_moves_size running_moves by metis

text \<open>The interrupted handler stays where it is.\<close>

definition held_at :: "signal_state \<Rightarrow> process \<Rightarrow> bool" where
  "held_at outer P \<longleftrightarrow>
     (\<exists>S W I h e. (P = Stopping (S, W, I, [h, outer]) \<or> P = Ended (Some (S, W, I, [h, outer])) e) \<and>
        interrupted_midway S outer)"

lemma held_at_step:
  assumes "process_step mc evwrite P Q" and "held_at outer P"
  shows "held_at outer Q"
  using assms
  by (cases rule: process_step.cases)
    (auto simp: held_at_def interrupted_midway_def dest: signal_sizes running_sizes)

lemma held_at_run: "(process_step mc evwrite)\<^sup>*\<^sup>* P Q \<Longrightarrow> held_at outer P \<Longrightarrow> held_at outer Q"
  by (induction rule: rtranclp_induct) (auto intro: held_at_step)

text \<open>
  C31. A second signal midway is fatal. Where it finds the first handler with the flag of a pool set and
  a thread of that pool still to be joined, which is where a handler waits as long as a worker has work to do,
  then whatever the threads do the process does not reach \<^verbatim>\<open>exit(0)\<close>: \<^verbatim>\<open>Stop\<close> returns at once and
  \<^verbatim>\<open>delete\<close> destroys the threads. If the process ends, it ends with \<^verbatim>\<open>std::terminate\<close>, or before that by
  the failure of a worker or of an IO thread that still runs.
\<close>

theorem second_signal_terminates:
  assumes "reachable process_init (process_step mc evwrite) (Stopping (S, W, I, [inner, outer]))"
    and "interrupted_midway S outer"
    and "(process_step mc evwrite)\<^sup>*\<^sup>* (Stopping (S, W, I, [inner, outer])) (Ended st e)"
  shows "e = Std_terminate \<or>
    (\<exists>f S' W' I' h. e = Thread_fault f \<and> st = Some (S', W', I', [h, outer]) \<and> thread_fails mc False S' f)"
proof -
  have "held_at outer (Stopping (S, W, I, [inner, outer]))" using assms(2) by (auto simp: held_at_def)
  with held_at_run [OF assms(3)] obtain S' W' I' h where st: "st = Some (S', W', I', [h, outer])"
    and mid: "interrupted_midway S' outer"
    by (auto simp: held_at_def)
  have e: "end_inv mc st e"
    using signals.reachable_inv [OF assms(1)] signals.steps_inv [OF assms(3)] by (force simp: process_inv_def)
  have "e \<noteq> Exit_zero"
  proof
    assume "e = Exit_zero"
    with e have "h = Exit_0" and "stopping_inv (S', W', I', [Exit_0, outer])" by (auto simp: end_inv_def st)
    from exit_joined [OF this(2)] mid show False by simp
  qed
  with e st show ?thesis by (cases e) (auto simp: end_inv_def)
qed

subsection \<open>Two runs\<close>

lemma sample_serving:
  "\<exists>S. process_step sample_machine evwrite Constructing (Serving S) \<and> worker_pool S = ThreadPool_new 3 \<and>
    \<not> p_stop (sv_threadpool S) \<and> p_threads (sv_threadpool S) = replicate 3 At_loop \<and>
    int (length (sv_subloops S)) = ts_threadnum (sv_tcpserver S)"
proof -
  obtain S reqs where start: "EchoServer_new (mc_ctl sample_machine) (\<lambda>_. 0) (mc_inet_ntoa sample_machine)
      (mc_garbage sample_machine) (6, 0, 0) (3, 4, 5) (map (\<lambda>i. (3 * int i + 7, 3 * int i + 8, 3 * int i + 9)) [0..<3]) 3
      (lit ''0.0.0.0'') 5005 0 = Inr (S, reqs)"
    by (simp add: start_defs start_setters sample_machine_def upt_rec)
  from process_step.construct [OF this] EchoServer_new_pools [OF this] show ?thesis by (intro exI [of _ S]) simp
qed

lemma sample_stopping_state:
  assumes "process_step mc evwrite Constructing (Serving S)"
  shows "reachable process_init (process_step mc evwrite) (Stopping (S, {}, {}, [handler_entry]))"
proof -
  have "reachable process_init (process_step mc evwrite) Constructing"
    by (rule reachable.start) (simp add: process_init_def)
  from reachable.move [OF reachable.move [OF this assms] process_step.signal] show ?thesis .
qed

text \<open>One signal: the workers, the loops and the IO threads are stopped, and the process exits.\<close>

lemma sample_exits:
  "\<exists>S W I. reachable process_init (process_step sample_machine evwrite) (Ended (Some (S, W, I, [Exit_0])) Exit_zero)"
proof -
  let ?R = "reachable process_init (process_step sample_machine evwrite)"
  obtain S where S: "process_step sample_machine evwrite Constructing (Serving S)" "worker_pool S = ThreadPool_new 3"
    "\<not> p_stop (sv_threadpool S)" "p_threads (sv_threadpool S) = replicate 3 At_loop"
    "int (length (sv_subloops S)) = ts_threadnum (sv_tcpserver S)"
    using sample_serving by blast
  have start: "?R (Stopping (S, {}, {}, [handler_entry]))" by (rule sample_stopping_state [OF S(1)])
  obtain p :: "worker_task pool" where p: "gone p" "stop_move\<^sup>*\<^sup>* (worker_pool S, Stop_test) (p, Stop_returned)"
    using stop_leaves [of "worker_pool S" 3] S(2) by auto
  have "set_pool (worker_pool S) S = S" by (simp add: set_pool_def)
  with workers_run [OF p(2), of evwrite S] have workers: "(shutdown_step evwrite On_main)\<^sup>*\<^sup>* (S, handler_entry)
      (set_pool p S, In_Stop (Stop_workers Stop_returned))" by simp
  have "int (length (sv_subloops (set_pool p S))) = ts_threadnum (sv_tcpserver (set_pool p S))"
    "p_threads (sv_threadpool (set_pool p S)) = replicate 3 At_loop" "\<not> p_stop (sv_threadpool (set_pool p S))"
    using S by (simp_all add: set_pool_def)
  from server_stop_run [OF this] obtain S' where
    "(shutdown_step evwrite On_main)\<^sup>*\<^sup>* (set_pool p S, In_Stop (Stop_workers Stop_returned))
      (S', In_Stop (Stop_server (Stop_io Stop_returned)))"
    and S': "worker_pool S' = p" "p_stop (sv_threadpool S')" by auto
  from shutdown_run_stopping [OF rtranclp_trans [OF workers this(1)]] obtain W I where
    stopped: "(process_step sample_machine evwrite)\<^sup>*\<^sup>* (Stopping (S, {}, {}, [handler_entry]))
      (Stopping (S', W, I, [In_Stop (Stop_server (Stop_io Stop_returned))]))"
    by blast
  have flags: "p_stop (worker_pool S')" "p_stop (sv_threadpool S')" using S' p(1) by (simp_all add: gone_def)
  obtain h e where "(process_step sample_machine evwrite)\<^sup>*\<^sup>*
      (Stopping (S', W, I, [In_Stop (Stop_server (Stop_io Stop_returned))])) (Ended (Some (S', W, I, [h])) e)"
    and e: "e = Std_terminate \<or> h = Exit_0 \<and> e = Exit_zero"
    using delete_ends [OF flags] by blast
  with start stopped have over: "?R (Ended (Some (S', W, I, [h])) e)" by (blast intro: reachable_rtranclp)
  from end_of_process [OF signals.reachable_inv [OF this]] e have "h = Exit_0 \<and> e = Exit_zero" by auto
  with over show ?thesis by blast
qed

text \<open>Two signals: the second one comes when the first handler has set the flag of the workers' pool.\<close>

lemma sample_interrupted:
  "\<exists>S W I outer st e. reachable process_init (process_step sample_machine evwrite) (Stopping (S, W, I, [handler_entry, outer])) \<and>
    interrupted_midway S outer \<and> (e = Std_terminate \<or> e = Exit_zero) \<and>
    (process_step sample_machine evwrite)\<^sup>*\<^sup>* (Stopping (S, W, I, [handler_entry, outer])) (Ended (Some st) e)"
proof -
  let ?step = "process_step sample_machine evwrite"
  let ?R = "reachable process_init ?step" and ?outer = "In_Stop (Stop_workers Stop_notify)"
  obtain S where S: "?step Constructing (Serving S)" "worker_pool S = ThreadPool_new 3"
    "\<not> p_stop (sv_threadpool S)" "p_threads (sv_threadpool S) = replicate 3 At_loop"
    "int (length (sv_subloops S)) = ts_threadnum (sv_tcpserver S)"
    using sample_serving by blast
  define T where "T = set_pool ((worker_pool S)\<lparr>p_stop := True, p_mark := length (p_started (worker_pool S))\<rparr>) S"
  have "signal_Stop evwrite On_main (S, handler_entry) (T, ?outer)"
    unfolding T_def using S(2) by (intro signal_Stop.stop EchoServer_Stop.workers ThreadPool_Stop.stop) simp
  then have "?step (Stopping (S, {}, {}, [handler_entry])) (Stopping (T, {}, {}, [?outer]))"
    by (rule handler_call) (simp_all add: destroys_joinable_def workers_joined_def io_joined_def newly_joined_def)
  from reachable.move [OF reachable.move [OF sample_stopping_state [OF S(1)] this] process_step.signal_again]
  have R: "?R (Stopping (T, {}, {}, [handler_entry, ?outer]))" .
  have T: "p_stop (worker_pool T)" "ThreadPool_size (worker_pool T) = 3"
    and server: "int (length (sv_subloops T)) = ts_threadnum (sv_tcpserver T)"
      "p_threads (sv_threadpool T) = replicate 3 At_loop" "\<not> p_stop (sv_threadpool T)"
    using S by (simp_all add: T_def ThreadPool_size_def) (simp_all add: set_pool_def)
  have mid: "interrupted_midway T ?outer"
    using lessThan_empty_iff [of "3 :: nat"] by (auto simp: interrupted_midway_def half_stopped_def T(2) bot_nat_def)
  have "set_pool (worker_pool T) T = T" by (simp add: set_pool_def)
  with signal_Stop.stop [OF EchoServer_Stop.workers [OF ThreadPool_Stop.stopped [OF T(1)]], of evwrite On_main]
  have returned: "(shutdown_step evwrite On_main)\<^sup>*\<^sup>* (T, handler_entry) (T, In_Stop (Stop_workers Stop_returned))"
    by (auto intro: signal_run)
  from server_stop_run [OF server] obtain S' where
    "(shutdown_step evwrite On_main)\<^sup>*\<^sup>* (T, In_Stop (Stop_workers Stop_returned))
      (S', In_Stop (Stop_server (Stop_io Stop_returned)))"
    and S': "worker_pool S' = worker_pool T" "p_stop (sv_threadpool S')" by auto
  from shutdown_run_stopping [OF rtranclp_trans [OF returned this(1)]] obtain W I where
    "?step\<^sup>*\<^sup>* (Stopping (T, {}, {}, [handler_entry, ?outer]))
      (Stopping (S', W, I, [In_Stop (Stop_server (Stop_io Stop_returned)), ?outer]))"
    by blast
  moreover have "p_stop (worker_pool S')" using S' T(1) by simp
  note ends = delete_ends [OF this S'(2), of sample_machine evwrite W I "[?outer]"]
  then obtain h e where "?step\<^sup>*\<^sup>* (Stopping (S', W, I, [In_Stop (Stop_server (Stop_io Stop_returned)), ?outer]))
      (Ended (Some (S', W, I, [h, ?outer])) e)" and e: "e = Std_terminate \<or> h = Exit_0 \<and> e = Exit_zero"
    by (elim exE conjE) (rule that)
  ultimately have "?step\<^sup>*\<^sup>* (Stopping (T, {}, {}, [handler_entry, ?outer])) (Ended (Some (S', W, I, [h, ?outer])) e)"
    by (metis (no_types) rtranclp_trans)
  moreover from e have "e = Std_terminate \<or> e = Exit_zero" by blast
  ultimately show ?thesis using R mid by blast
qed

lemma second_signal_terminates_witness:
  "\<exists>S W I outer st. reachable process_init (process_step sample_machine eventfd_write) (Stopping (S, W, I, [handler_entry, outer])) \<and>
    interrupted_midway S outer \<and>
    (process_step sample_machine eventfd_write)\<^sup>*\<^sup>* (Stopping (S, W, I, [handler_entry, outer])) (Ended st Std_terminate)"
proof -
  obtain S W I outer st e where run: "reachable process_init (process_step sample_machine eventfd_write)
      (Stopping (S, W, I, [handler_entry, outer]))" "interrupted_midway S outer" and e: "e = Std_terminate \<or> e = Exit_zero"
    and fin:
    "(process_step sample_machine eventfd_write)\<^sup>*\<^sup>* (Stopping (S, W, I, [handler_entry, outer])) (Ended (Some st) e)"
    using sample_interrupted by blast
  from second_signal_terminates [OF run fin] e have "e = Std_terminate" by auto
  with run fin show ?thesis by blast
qed

text \<open>
  C30. What the signals do to the process. Delivered to the main thread of the server, as the code installs
  their handler: a signal before the server exists dereferences the null pointer. A second signal that finds the
  handler in \<^verbatim>\<open>delete\<close> works on a destroyed server. One that finds it with the flag of a pool set
  and a thread of it still to be joined keeps the process from ever reaching \<^verbatim>\<open>exit(0)\<close>, and one
  that finds it there is what it takes for \<^verbatim>\<open>std::terminate\<close>. A worker or the thread of a loop can end the process as
  long as it runs, but not once \<^verbatim>\<open>delete\<close> has destroyed both pools; and where \<^verbatim>\<open>exit(0)\<close> is reached, every
  thread of both pools has left and has been joined.
\<close>

theorem signals_end_process:
  assumes "reachable process_init (process_step mc evwrite) (Ended st e)"
  shows "case st of
      None \<Rightarrow> \<exists>f. e = Fault f \<and> (f = Undefined Null_dereference \<or> construction_fails mc f)
    | Some (S, W, I, hs) \<Rightarrow>
        (case e of
           Exit_zero \<Rightarrow> W = all_threads (worker_pool S) \<and> I = all_threads (sv_threadpool S) \<and>
             joinable (worker_pool S) \<and> joinable (sv_threadpool S) \<and>
             (hs = [Exit_0] \<or> (\<exists>outer. hs = [Exit_0, outer] \<and> \<not> interrupted_midway S outer))
         | Std_terminate \<Rightarrow> \<exists>h outer. hs = [h, outer] \<and> interrupted_midway S outer
         | Thread_fault f \<Rightarrow> thread_fails mc (hs = []) S f \<and> (\<forall>os. hs \<noteq> Exit_0 # os)
         | Fault f \<Rightarrow> f = Undefined Use_after_free \<and> (\<exists>h. hs = [h] \<and> (\<forall>e. h \<noteq> In_Stop e)))"
  by (rule end_of_process [OF signals.reachable_inv [OF assms]])

lemma signals_end_process_witness:
  "\<exists>S. reachable process_init (process_step sample_machine eventfd_write)
      (Ended (Some (S, all_threads (worker_pool S), all_threads (sv_threadpool S), [Exit_0])) Exit_zero) \<and>
    joinable (worker_pool S) \<and> joinable (sv_threadpool S)"
proof -
  obtain S W I where exit: "reachable process_init (process_step sample_machine eventfd_write)
      (Ended (Some (S, W, I, [Exit_0])) Exit_zero)"
    using sample_exits by blast
  from signals_end_process [OF this] this show ?thesis by auto
qed

end
