(* ===== verification/Spec2Isabelle.thy ===== *)
theory Spec2Isabelle
  imports Timestamp Main_Program Pool_Test Echo_Session Pool_Refinement Service_Accounts Server_Session Signals
begin

text \<open>
  A TCP server after the reactor pattern: a main event loop accepts connections, several sub
  loops read requests and write replies, each in a thread of its own, and a pool of worker
  threads answers the requests. This development models the server as it is written in C++,
  and states what makes its parts correct, and where they are not.

  \<^bold>\<open>The way of a request.\<close> \<^verbatim>\<open>Acceptor::newconnection\<close> accepts a descriptor,
  \<^verbatim>\<open>TcpServer::newconnection\<close> makes a \<^verbatim>\<open>Connection\<close> on a sub loop. \<^verbatim>\<open>Connection::onmessage\<close>
  reads until \<^verbatim>\<open>EAGAIN\<close> and takes framed messages off its input \<^verbatim>\<open>Buffer\<close>; each goes through
  \<^verbatim>\<open>TcpServer::onmessage\<close> to \<^verbatim>\<open>EchoServer::HandleMessage\<close>, which queues a task for the
  \<^verbatim>\<open>ThreadPool\<close>. A worker runs \<^verbatim>\<open>EchoServer::OnMessage\<close>, whose \<^verbatim>\<open>Connection::send\<close> queues
  \<^verbatim>\<open>sendinloop\<close> for the \<^verbatim>\<open>EventLoop\<close> and wakes it; \<^verbatim>\<open>handlewakeup\<close> runs the tasks, they frame the
  replies into the output buffer and watch for \<^verbatim>\<open>EPOLLOUT\<close>, and \<^verbatim>\<open>writecallback\<close> sends.

  \<^bold>\<open>Conventions.\<close> Every class is a record with the members of the class; every operation is a
  function from the state to \<open>fault + state\<close>, where the faults are undefined behaviour, with
  its reason, uncaught exceptions and \<^verbatim>\<open>exit\<close> (\<open>Prelude\<close>). Loops that need not end are
  \<open>partial_function (option)\<close>, where \<open>None\<close> is divergence. The results of system calls are
  arguments. \<^verbatim>\<open>epoll_ctl\<close>, the eventfd and the conversions of addresses are parameters;
  what is relied on for \<^verbatim>\<open>epoll_ctl\<close> is stated by the locales \<open>epoll_kernel\<close> and
  \<open>epoll_reliable\<close>, which \<open>interest_ctl\<close> satisfies. Pointers to objects that are shared are
  numbers into a heap. int is a mathematical integer with the overflow written out where it
  can happen, uint32\_t masks and uint16\_t ports are words. Output on the terminal is left out.

  \<^bold>\<open>Theories.\<close>
  \<^item> \<open>Prelude\<close>: machine types, faults, results, integers in memory.
  \<^item> \<open>Transition_System\<close>: reachable states, the invariant rule (\<open>invariant_system\<close>) and forward
    simulation (\<open>refinement\<close>).
  \<^item> \<open>Ordered_Map\<close>: \<^verbatim>\<open>std::map\<close> in iteration order (\<open>std_map\<close>, interpretation \<open>conn_map\<close>).
  \<^item> \<open>Buffer\<close> (\<^verbatim>\<open>Buffer.cpp\<close>): buffers and \<^verbatim>\<open>pickmessage\<close> on every header.
  \<^item> \<open>Framing\<close>: byte streams of framed messages (\<open>frame_codec\<close>, interpretation \<open>wire\<close>): unique
    decoding and independence from fragmentation.
  \<^item> \<open>Net\<close> (\<^verbatim>\<open>InetAddress.cpp\<close>, \<^verbatim>\<open>Socket.cpp\<close>).
  \<^item> \<open>Timestamp\<close> (\<^verbatim>\<open>Timestamp.cpp\<close>, \<^verbatim>\<open>timestamp.cpp\<close>): the printed form of a time, whose order is that of
    broken-down times (an instance of \<open>linorder\<close>).
  \<^item> \<open>Epoll\<close>, \<open>Channel\<close> (\<^verbatim>\<open>Epoll.cpp\<close>, \<^verbatim>\<open>Channel.cpp\<close>): the interest list, the operations of a
    channel, and \<open>chan_synced\<close>, the agreement of the channel with the kernel.
  \<^item> \<open>EventLoop\<close> (\<^verbatim>\<open>EventLoop.cpp\<close>): the task queue and the wake-up handler; \<open>queue_blind\<close> is the
    contract of tasks that leave the queue alone.
  \<^item> \<open>Connection\<close> (\<^verbatim>\<open>Connection.cpp\<close>): all handlers of a connection.
  \<^item> \<open>Connection_Read\<close>: what the read handler does with a stream (\<open>message_sink\<close>).
  \<^item> \<open>Connection_Write\<close>: the output buffer, \<^verbatim>\<open>EPOLLOUT\<close> and the stream of replies
    (\<open>reply_stream\<close>).
  \<^item> \<open>Loop_Tasks\<close>: the tasks of a loop on its heap of connections (interpretation \<open>loop_tasks\<close>).
  \<^item> \<open>Loop_Timer\<close> (\<^verbatim>\<open>EventLoop::handletimer\<close>): the walk over the idle connections.
  \<^item> \<open>ThreadPool\<close> (\<^verbatim>\<open>ThreadPool.cpp\<close>): the threads as a transition system, its invariants, and
    what \<^verbatim>\<open>Stop\<close> guarantees and does not. \<open>Pool_Refinement\<close>: the pool implements a queue of which
    a bounded number of tasks run at a time (interpretation \<open>pool_spec\<close>). \<open>Pool_Stop\<close>: \<^verbatim>\<open>Stop\<close> call by
    call. \<open>Pool_Test\<close> (\<^verbatim>\<open>test_ThreadPool.cpp\<close>): the test program of the pool.
  \<^item> \<open>TcpServer\<close> (\<^verbatim>\<open>Acceptor.cpp\<close>, \<^verbatim>\<open>TcpServer.cpp\<close>), \<open>EchoServer\<close> (\<^verbatim>\<open>EchoServer.cpp\<close>).
  \<^item> \<open>Echo_Service\<close>: the echo server keeps the contracts of the connection (interpretations
    \<open>echo_sink\<close>, \<open>echo_replies\<close>); one round of requests and replies.
  \<^item> \<open>Decoder\<close>: a reference decoder of the wire format, which the read handler computes.
  \<^item> \<open>Client\<close> (\<^verbatim>\<open>client.cpp\<close>), \<open>Echo_Session\<close>: the test client, and its session with the server.
  \<^item> \<open>Loop_Wakeup\<close>: the interleaving of the threads that queue tasks with the thread of the loop
    that sleeps on the eventfd (\<open>eventfd\<close>, interpretation \<open>linux_eventfd\<close>).
  \<^item> \<open>Event_Dispatch\<close> (\<^verbatim>\<open>EventLoop::run\<close>): the loop over the reported channels, on the state of the
    whole server; objects are destroyed when their last owner is gone (\<open>release\<close>).
  \<^item> \<open>Object_Safety\<close>: what a handler may do to the objects (\<open>safe_app\<close>, interpretation
    \<open>echo_objects\<close>). \<open>Object_Lifetime\<close>: the invariant \<open>objects_ok\<close>: a channel in an interest list
    belongs to an object that exists, and everything that is owned exists.
  \<^item> \<open>Echo_Objects\<close>: the threads of the server as one transition system, one handler or task a
    step. \<open>Server_Objects\<close>: what the invariant gives, and where a batch of events breaks it.
  \<^item> \<open>Server_Round\<close>: the turns of \<^verbatim>\<open>EventLoop::run\<close> that read, wake up and write, on the state
    of the whole server, the other connections left alone. \<open>Pool_Progress\<close>: the workers that are not stopped get every
    queued task done. \<open>Server_Exchange\<close>: one round of requests and replies, in which the turns of the loop, the
    tasks of the workers and the moves of the pool are interleaved in any way (\<open>exchange_step\<close>). \<open>Server_Session\<close>: any
    number of rounds one after another, on any connections, in any order (\<open>session_step\<close>).
  \<^item> \<open>Service_Spec\<close>: the abstract specification of what one connection gets, without threads, loops and
    objects, with its invariant (\<open>accounts\<close>: every request is answered once; \<open>picked\<close> of \<open>Overtaking\<close>: in
    an order that as many hands as there are workers can bring about).
  \<^item> \<open>Pool_Order\<close>: the tasks of the pool that are not finished, in the order of their submission.
    \<open>Handler_Relation\<close>, \<open>Service_Effects\<close>: what every handler of the echo server does to the requests and the replies
    of a connection.
  \<^item> \<open>Service_View\<close>: what one connection sees of the server, and of the bytes that have come and gone.
    \<open>Service_Refinement\<close>: seen so, every step of the server is a run of the specification (interpretation
    \<open>server_service\<close>). \<open>Turn_Dispatch\<close>: the handlers leave to every channel of a batch the callback that
    its report asks for. \<open>Service_Turns\<close>: the turns of \<^verbatim>\<open>EventLoop::run\<close> as runs of these steps, one callback
    for each reported channel.
  \<^item> \<open>Sample_Run\<close>: one request through the started server. \<open>Service_Accounts\<close>: what the refinement gives for the
    running server: no request lost, none answered twice, nothing else sent, and the order of the replies.
  \<^item> \<open>Loop_Stop\<close> (\<^verbatim>\<open>EventLoop::stop\<close>): no handler touches \<^verbatim>\<open>stop_\<close>, and a stopped loop ends.
  \<^item> \<open>Shutdown\<close> (\<^verbatim>\<open>EchoServer::Stop\<close>, \<^verbatim>\<open>TcpServer::stop\<close>, \<^verbatim>\<open>ThreadPool::Stop\<close>, the signal handler of
    \<^verbatim>\<open>tcpepoll.cpp\<close>): the handler on any thread, interleaved with the others (interpretation
    \<open>shutdown\<close>): what has ended when it exits, and where it does not come to it.
  \<^item> \<open>Main_Program\<close> (\<^verbatim>\<open>tcpepoll.cpp\<close>): the main thread. \<open>Signals\<close>: the process from the installation of the
    handler on, with two signals (the second handler on top of the first) and with the threads that have been
    joined (interpretation \<open>signals\<close>): how it ends, also by the failure of a worker or of the thread of a loop
    (\<open>thread_fails\<close>).
  \<^item> \<open>Server_Lifecycle\<close>: start of the loops, new connections, the timer and the registry.
  \<^item> \<open>Samples\<close>: concrete states for the examples.
  \<^item> This theory: the properties that span components.

  \<^bold>\<open>Bounds.\<close> A message can be framed if its length plus four is below 2147483648 (\<open>frame_ok\<close>);
  buffers are assumed shorter than 2 to the power of 63 bytes where a header is negative; size\_t has 64
  bits; the machine is little endian. No fuel is used.

  \<^bold>\<open>Not modelled.\<close> Where the two signals come both, the main thread takes both; that the handler calls
  functions of the library which a signal handler must not call (\<^verbatim>\<open>printf\<close>, \<^verbatim>\<open>delete\<close>) is left out. A handler of a connection is one step
  for the other threads. In the transition system so is the return of \<^verbatim>\<open>epoll_wait\<close> together with the loop that
  stores its events, and what is shown of the interest lists holds for that grain; the last property of
  \<open>Service_Accounts\<close> is what a worker can do between the two. Only the thread pool,
  the task queue of a loop and its eventfd are modelled at the grain of single accesses. In
  \<^verbatim>\<open>TcpServer::newconnection\<close> the arguments of the constructor call are evaluated from left to
  right, an order that C++ does not promise. Destructors that only release memory have no
  definition; that of \<^verbatim>\<open>Socket\<close>, which closes the descriptor, is part of \<open>release\<close>.
\<close>

section \<open>The service\<close>

text \<open>
  One round of the echo service, from the bytes that arrive to the bytes that leave. The
  requests \<open>ms\<close> reach an open connection cut into any pieces and bursts; the read handler
  frames them, a worker answers each of them, the replies are queued for the loop, the loop is
  woken and puts them into the output buffer, and the peer takes the output in pieces of any
  size. What has been sent is exactly the framed replies, in order, and the connection is back
  in its idle state. (Requests without NUL bytes, and shorter than 2 GB.)
\<close>

theorem echo_round_replies:
  assumes "epoll_reliable ctl"
    and "conn_open c l" and "conn_ready c" and "cn_sendcompletecallback c = Some Cb_sendcomplete"
    and "\<not> cn_disconnect c" and "b_buf (cn_inputbuffer c) = []" and "conn_out c = []"
    and "el_taskqueue l = []" and "\<not> el_locked l" and "el_threadid l \<noteq> Some worktid"
    and "echo_ready w" and "p_queue (es_threadpool (snd w)) = []"
    and "list_all frame_ok ms" and "list_all nul_free ms"
    and "list_all (list_all reads_on \<circ> snd) bs" and "bursts_bytes bs = concat (map frame ms)"
    and "list_all (\<lambda>n. 1 \<le> n) ns"
    and "length (concat (map (frame \<circ> echo_reply) ms)) \<le> length ns"
  shows "\<exists>s. echo_round ctl evread evwrite iotid worktid bs ns (c, l, w) =
      Some (Inr (s, concat (map (frame \<circ> echo_reply) ms))) \<and>
    conn_open (fst s) (fst (snd s)) \<and> conn_out (fst s) = []"
proof -
  have "service_idle worktid (c, l, w)" using assms(2-12) by (simp add: service_idle_def)
  from echo_round_idle [OF assms(1) this assms(13-18)] show ?thesis
    by (fastforce simp: service_idle_def)
qed

lemma echo_round_replies_witness:
  "\<exists>s. echo_round interest_ctl id id 100 200
      (sample_reads [frame (lit ''hi'') @ [3, 0], [0, 0], lit ''you''])
      (replicate 60 1) (sample_conn, sample_loop, sample_world) =
    Some (Inr (s, concat (map (frame \<circ> echo_reply) [lit ''hi'', lit ''you'']))) \<and>
    conn_open (fst s) (fst (snd s)) \<and> conn_out (fst s) = []"
proof (rule echo_round_replies)
  show "epoll_reliable interest_ctl" by (rule linux_epoll.epoll_reliable_axioms)
qed (use sample_conn_open sample_conn_ready sample_world_ready in
  \<open>simp_all add: sample_reads_def frame_def size_header_def le_bytes4_def frame_ok_def nul_free_def
     reads_on_def list_all_iff bursts_bytes_def lit_def echo_reply_def\<close>)

section \<open>Reading\<close>

text \<open>
  Requests do not depend on how the byte stream is fragmented. Whatever part of the framed
  requests \<open>ms\<close> has arrived, in whatever pieces, with interrupted and failed reads in between:
  the messages handed to the workers are the complete ones among what has arrived, each once
  and in order, and the rest stays in the input buffer.
\<close>

theorem requests_independent_of_fragmentation:
  assumes "echo_ready w" and "conn_ready c" and "b_buf (cn_inputbuffer c) = []"
    and "list_all frame_ok ms" and "list_all (list_all reads_on \<circ> snd) bs"
    and "prefix (bursts_bytes bs) (concat (map frame ms))"
  shows "\<exists>n p c' w'. n \<le> length ms \<and> stream_of frame frame_ok (bursts_bytes bs) (take n ms) p \<and>
    onmessage_bursts ctl (echo_server_call ctl evwrite tid) clock bs (c, l, w) = Some (Inr (c', l, w')) \<and>
    b_buf (cn_inputbuffer c') = p \<and> fst w' = fst w \<and>
    p_queue (es_threadpool (snd w')) =
      p_queue (es_threadpool (snd w)) @ map (request_task (cn_id c)) (take n ms)"
proof -
  have "stream_of frame frame_ok [] (take 0 ms) (b_buf (cn_inputbuffer c))"
    using assms(3) by (simp add: stream_of_def)
  moreover have "prefix ([] @ bursts_bytes bs) (concat (map frame ms))"
    using assms(6) by simp
  ultimately have "\<exists>n p. 0 + n \<le> length ms \<and>
      stream_of frame frame_ok ([] @ bursts_bytes bs) (take (0 + n) ms) p \<and>
      onmessage_bursts ctl (echo_server_call ctl evwrite tid) clock bs (c, l, w) =
        Some (Inr (received c (take n (drop 0 ms)) p (clock w), l,
          echo_sink.take_all (cn_id c) (take n (drop 0 ms)) w))"
    by (intro echo_sink.bursts_stream [OF assms(1,2,5)] assms(4)) simp_all
  then obtain n p where n: "n \<le> length ms"
    and part: "stream_of frame frame_ok (bursts_bytes bs) (take n ms) p"
    and run: "onmessage_bursts ctl (echo_server_call ctl evwrite tid) clock bs (c, l, w) =
      Some (Inr (received c (take n ms) p (clock w), l, echo_sink.take_all (cn_id c) (take n ms) w))"
    by auto
  from n part run show ?thesis
    by (intro exI [of _ n] exI [of _ p] exI [of _ "received c (take n ms) p (clock w)"]
        exI [of _ "echo_sink.take_all (cn_id c) (take n ms) w"])
      (simp add: take_all_queue)
qed

lemma requests_independent_of_fragmentation_witness:
  "\<exists>n p c' w'. n \<le> length [lit ''hi'', lit ''you''] \<and>
    stream_of frame frame_ok (bursts_bytes (sample_reads [frame (lit ''hi'') @ [3, 0], [0]]))
      (take n [lit ''hi'', lit ''you'']) p \<and>
    onmessage_bursts interest_ctl (echo_server_call interest_ctl id 100) clock
      (sample_reads [frame (lit ''hi'') @ [3, 0], [0]]) (sample_conn, sample_loop, sample_world) =
      Some (Inr (c', sample_loop, w')) \<and>
    b_buf (cn_inputbuffer c') = p \<and> fst w' = fst sample_world \<and>
    p_queue (es_threadpool (snd w')) =
      p_queue (es_threadpool (snd sample_world)) @
      map (request_task (cn_id sample_conn)) (take n [lit ''hi'', lit ''you''])"
  by (rule requests_independent_of_fragmentation)
    (use sample_conn_ready sample_world_ready in
      \<open>simp_all add: sample_reads_def frame_def size_header_def le_bytes4_def frame_ok_def reads_on_def
        bursts_bytes_def lit_def prefix_def\<close>)

text \<open>
  C34. A peer can keep the thread of an event loop busy for ever with four bytes: with the header -4 at the front of the input buffer the inner loop of \<^verbatim>\<open>onmessage\<close>
  never ends, because \<^verbatim>\<open>pickmessage\<close> reports a message each time and removes nothing.
\<close>

theorem onmessage_header_minus_four_diverges:
  assumes "echo_ready w" and "conn_ready c" and "b_buf (cn_inputbuffer c) = []"
    and "list_all reads_on rs" and "reads_bytes rs = [0xFC, 0xFF, 0xFF, 0xFF] @ rest"
    and "length rest < 2 ^ 62"
  shows "Connection_onmessage ctl (echo_server_call ctl evwrite tid) clock stale (rs @ [Read_eagain]) (c, l, w) = None \<and>
    message_loop (echo_server_call ctl evwrite tid) clock stale message (receive (reads_bytes rs) c, l, w) = None"
proof -
  have "read_int stale ([0xFC, 0xFF, 0xFF, 0xFF] @ rest) = - 4"
    by (simp add: read_int_def str_mem_def of_le4_def)
  then have "stuck_header stale (cn_inputbuffer (receive (reads_bytes rs) c))"
    using assms(2,3,5,6) by (simp add: stuck_header_def conn_ready_def)
  moreover have "conn_ready (receive (reads_bytes rs) c)" using assms(2) by simp
  ultimately have "message_loop (echo_server_call ctl evwrite tid) clock stale m
      (receive (reads_bytes rs) c, l, w) = None" for m
    using message_loop_diverges [OF echo_sink.message_sink_axioms assms(1)] by blast
  with assms(4) show ?thesis by (simp add: onmessage_reads)
qed

lemma onmessage_header_minus_four_diverges_witness:
  "Connection_onmessage interest_ctl (echo_server_call interest_ctl id 100) clock (\<lambda>_. 0)
     ([Read_data [0xFC, 0xFF], Read_eintr, Read_data [0xFF, 0xFF, 1]] @ [Read_eagain])
     (sample_conn, sample_loop, sample_world) = None"
  using onmessage_header_minus_four_diverges [OF sample_world_ready sample_conn_ready,
      of "[Read_data [0xFC, 0xFF], Read_eintr, Read_data [0xFF, 0xFF, 1]]" "[1]"]
  by (simp add: reads_on_def)

text \<open>
  C38. A client that sends requests and closes at once: where \<^verbatim>\<open>read\<close> reports the end of the
  stream before it reports \<^verbatim>\<open>EAGAIN\<close>, the connection is closed and no request that arrived in
  the same burst reaches a worker, complete or not.
\<close>

theorem requests_before_eof_are_dropped:
  assumes "epoll_reliable ctl" and "echo_ready w" and "ts_closeconnectioncb (fst w) = Some Cb_HandleClose"
    and "conn_open c l" and "cn_owned c" and "cn_closecallback c = Some Cb_closeconnection"
    and "list_all reads_on rs"
  shows "\<exists>c' l' w'. Connection_onmessage ctl (echo_server_call ctl evwrite tid) clock stale (rs @ Read_eof # rest) (c, l, w) =
      Some (Inr (c', l', w')) \<and> conn_closed c' l' \<and> snd w' = snd w"
proof -
  let ?c = "receive (reads_bytes rs) c"
  have c: "conn_open ?c l" "cn_owned ?c" "cn_closecallback ?c = Some Cb_closeconnection"
    using assms(4-6) by (simp_all add: receive_def conn_open_def conn_out_def)
  from epoll_reliable.closecallback_open [OF assms(1) c, of "echo_server_call ctl evwrite tid" w] obtain c' l' where "Connection_closecallback ctl (echo_server_call ctl evwrite tid) (?c, l, w) =
      bind_res (echo_server_call ctl evwrite tid Cb_closeconnection [] (c', l', w)) (\<lambda>(_, s). Inr s)"
    and "conn_closed c' l'"
    by blast
  then show ?thesis
    using assms(3,7)
    by (cases w) (simp add: onmessage_reads TcpServer_closeconnection_def server_of_def call_handler_def erase_conn_def)
qed

lemma requests_before_eof_are_dropped_witness:
  "\<exists>c' l' w'. Connection_onmessage interest_ctl (echo_server_call interest_ctl id 100) clock (\<lambda>_. 0)
      ([Read_data (frame (lit ''hi''))] @ Read_eof # []) (sample_conn, sample_loop, sample_world) =
      Some (Inr (c', l', w')) \<and> conn_closed c' l' \<and> snd w' = snd sample_world"
  by (rule requests_before_eof_are_dropped [OF linux_epoll.epoll_reliable_axioms sample_world_ready])
    (simp_all add: sample_conn_open sample_closecb reads_on_def)

text \<open>
  C39. A connection registers itself in epoll at the end of its constructor, before anything
  owns it: a complete request that the thread of the loop reads at this moment ends the
  program with \<^verbatim>\<open>std::bad_weak_ptr\<close>.
\<close>

theorem request_during_construction:
  assumes "Connection_new ctl cid now lid sock l = Inr (c, l')" and "frame_ok m"
    and "list_all reads_on rs" and "reads_bytes rs = frame m @ t"
  shows "Connection_onmessage ctl srv clck stale (rs @ Read_eagain # rest) (c, l', w) =
    Some (Inl Bad_weak_ptr)"
proof -
  have c: "\<not> cn_owned c" "cn_inputbuffer c = Buffer_new 1"
    using assms(1) by (auto simp: Connection_new_def Let_def bind_res_eq_Inr)
  have "pickmessage stale [] (cn_inputbuffer (receive (frame m @ t) c)) =
      Inr (True, m, (cn_inputbuffer (receive (frame m @ t) c))\<lparr>b_buf := t\<rparr>)"
    using assms(2) by (intro pick_frame) (simp_all add: c Buffer_new_def)
  with assms(3,4) c(1) show ?thesis
    by (simp add: onmessage_reads message_loop.simps call_server_def)
qed

lemma request_during_construction_witness:
  "\<exists>c l'. Connection_new interest_ctl 0 1000 1 (Socket_new 0 7) sample_loop0 = Inr (c, l') \<and>
     Connection_onmessage interest_ctl (echo_server_call interest_ctl id 100) clock (\<lambda>_. 0)
       ([Read_data (frame (lit ''hi''))] @ Read_eagain # []) (c, l', sample_world) = Some (Inl Bad_weak_ptr)"
proof -
  obtain c l' where new: "Connection_new interest_ctl 0 1000 1 (Socket_new 0 7) sample_loop0 = Inr (c, l')"
    using linux_epoll.Connection_new_open [where l = sample_loop0 and sock = "Socket_new 0 7"
        and cid = 0 and now = 1000 and lid = 1, OF sample_loop0_free] by blast
  then show ?thesis
    using request_during_construction [OF new, of "lit ''hi''" "[Read_data (frame (lit ''hi''))]" "[]"]
    by (simp add: frame_ok_def reads_on_def)
qed

section \<open>Writing\<close>

text \<open>
  C12. The stream of replies of a connection, for every interleaving of replies that are queued
  and of writes that the kernel accepts partly, wholly or not at all: what has been sent and
  what waits in the output buffer is the concatenation of the framed replies, and \<^verbatim>\<open>EPOLLOUT\<close>
  is watched for exactly while something waits.
\<close>

theorem replies_leave_framed_in_order:
  assumes "epoll_reliable ctl"
    and "reachable (reply_stream.out_init echo_ready) (out_step ctl (echo_server_call ctl evwrite tid))
      ((c, l, w), sent, ms)"
  shows "sent @ conn_out c = concat (map frame ms) \<and>
    (\<exists>ev. ep_interest (el_ep l) (ch_fd (cn_clientchannel c)) = Some (ev, ch_this (cn_clientchannel c)) \<and>
      (ev AND EPOLLOUT \<noteq> 0 \<longleftrightarrow> conn_out c \<noteq> []) \<and> ev AND EPOLLIN \<noteq> 0)"
proof -
  note replies = echo_reply_stream [OF assms(1), of evwrite tid]
  have "reply_stream.out_inv echo_ready ((c, l, w), sent, ms)"
    using replies assms(2) by (rule reply_stream.replies_inv)
  then have "sent @ conn_out c = concat (map frame ms)" and "conn_open c l"
    by (simp_all add: reply_stream.out_inv_def [OF replies] reply_stream.sender_def [OF replies])
  with conn_open_interest [of c l] show ?thesis by blast
qed

lemma replies_leave_framed_in_order_witness:
  "\<exists>c. frame (lit ''a'') @ conn_out c = concat (map frame [lit ''a''])"
  using sample_reply_sent replies_leave_framed_in_order [OF linux_epoll.epoll_reliable_axioms] by blast

text \<open>
  A peer that decodes the stream as the server does reads only replies that were sent to
  it: at every moment the messages it can take off the bytes it has got are the first of the
  replies queued so far, in order.
\<close>

theorem peer_decodes_replies:
  assumes "epoll_reliable ctl"
    and "reachable (reply_stream.out_init echo_ready) (out_step ctl (echo_server_call ctl evwrite tid))
      ((c, l, w), sent, ms)"
    and "list_all frame_ok ms" and "drains (pick_bytes stale) sent got rest"
  shows "prefix got ms"
proof -
  note replies = echo_reply_stream [OF assms(1), of evwrite tid]
  have "reply_stream.out_inv echo_ready ((c, l, w), sent, ms)"
    using replies assms(2) by (rule reply_stream.replies_inv)
  then have "sent @ conn_out c = concat (map frame ms)"
    by (simp add: reply_stream.out_inv_def [OF replies])
  then have "prefix sent (concat (map frame ms))" by (metis prefixI)
  from wire.stream_of_prefix [OF this assms(3)] obtain k p
    where "stream_of frame frame_ok sent (take k ms) p" by blast
  then have "drains (pick_bytes stale) sent (take k ms) p" by (rule wire.drains_stream)
  with assms(4) have "got = take k ms" using wire.drains_unique by blast
  then show ?thesis by (simp add: take_is_prefix)
qed

lemma peer_decodes_replies_witness: "prefix [lit ''a''] [lit ''a'']"
proof -
  have ok: "frame_ok (lit ''a'')" by (simp add: frame_ok_def)
  then have "stream_of frame frame_ok (frame (lit ''a'')) [lit ''a''] []"
    by (simp add: stream_of_def)
  then have "drains (pick_bytes (\<lambda>_. 0)) (frame (lit ''a'')) [lit ''a''] []"
    by (rule wire.drains_stream)
  moreover have "list_all frame_ok [lit ''a'']" using ok by simp
  ultimately show ?thesis
    using sample_reply_sent peer_decodes_replies [OF linux_epoll.epoll_reliable_axioms] by blast
qed

text \<open>
  Everything queued is sent: if the peer takes at least one byte per write, as many writes as
  there are bytes empty the output buffer, in order, and then \<^verbatim>\<open>EPOLLOUT\<close> is switched off, so
  that the loop is not woken for nothing.
\<close>

theorem pending_output_is_written:
  assumes "epoll_reliable ctl" and "echo_ready w"
    and "conn_open c l" and "cn_owned c" and "cn_sendcompletecallback c = Some Cb_sendcomplete"
    and "list_all (\<lambda>n. 1 \<le> n) ns" and "length (conn_out c) \<le> length ns"
  shows "\<exists>c' l' w'. write_all ctl (echo_server_call ctl evwrite tid) ns (c, l, w) [] = Inr ((c', l', w'), conn_out c) \<and>
    conn_out c' = [] \<and> ch_events (cn_clientchannel c') = EPOLLIN \<and> chan_synced (cn_clientchannel c') (el_ep l')"
proof -
  note replies = echo_reply_stream [OF assms(1), of evwrite tid]
  have "reply_stream.sender echo_ready (c, l, w)"
    using assms by (simp add: reply_stream.sender_def [OF replies])
  from reply_stream.write_all_drains [OF replies this assms(6,7), of "[]"] obtain s'
    where "write_all ctl (echo_server_call ctl evwrite tid) ns (c, l, w) [] = Inr (s', conn_out c)"
      and "reply_stream.sender echo_ready s'" and "conn_out (fst s') = []"
    by auto
  then show ?thesis
    by (cases s') (simp add: reply_stream.sender_def [OF replies] conn_open_def chan_open_def out_events_def)
qed

lemma pending_output_is_written_witness:
  "\<exists>c' l' w'. write_all interest_ctl (echo_server_call interest_ctl id 100) [5]
      (set_out [1] sample_conn, watch_out [1] sample_conn sample_loop, sample_world) [] =
      Inr ((c', l', w'), conn_out (set_out [1] sample_conn)) \<and>
    conn_out c' = [] \<and> ch_events (cn_clientchannel c') = EPOLLIN \<and> chan_synced (cn_clientchannel c') (el_ep l')"
  by (rule pending_output_is_written [OF linux_epoll.epoll_reliable_axioms sample_world_ready])
    (simp_all add: conn_open_set_out sample_conn_open)

text \<open>
  The wake-up handler of a loop runs every queued reply, in the order of the queue, and ends
  with an empty queue and the mutex released: each connection gets the replies that were meant
  for it, framed, behind what its buffer held, and all connections stay open.
\<close>

theorem wakeup_delivers_replies:
  assumes "epoll_reliable ctl" and "heap_open heap l" and "\<not> el_locked l"
    and "el_taskqueue l = map reply_task rs" and "\<forall>r\<in>set rs. fst r \<in> dom heap"
  shows "\<exists>l' heap'. EventLoop_handlewakeup evread (loop_exec ctl) (l, heap) = Some (Inr (l', heap')) \<and>
    el_taskqueue l' = [] \<and> \<not> el_locked l' \<and> heap_open heap' l' \<and> dom heap' = dom heap \<and>
    (\<forall>i c. heap i = Some c \<longrightarrow> (\<exists>c'. heap' i = Some c' \<and>
      conn_out c' = conn_out c @ concat (map frame (replies_to i rs))))"
proof -
  obtain l' heap' where "EventLoop_handlewakeup evread (loop_exec ctl) (l, heap) = Some (Inr (l', heap'))"
    "heap_open heap' l'" "replied heap heap' rs" "el_taskqueue l' = []" "\<not> el_locked l'"
    using epoll_reliable.handlewakeup_replies [OF assms] by blast
  then show ?thesis
    by (intro exI [of _ l'] exI [of _ heap']) (simp add: replied_def, blast)
qed

lemma wakeup_delivers_replies_witness:
  "\<exists>l' heap'. EventLoop_handlewakeup id (loop_exec interest_ctl)
      (sample_loop\<lparr>el_taskqueue := map reply_task [(0, lit ''a''), (0, lit ''b'')]\<rparr>, [0 \<mapsto> sample_conn]) =
      Some (Inr (l', heap')) \<and>
    el_taskqueue l' = [] \<and> \<not> el_locked l' \<and> heap_open heap' l' \<and> dom heap' = dom [0 \<mapsto> sample_conn] \<and>
    (\<forall>i c. [0 \<mapsto> sample_conn] i = Some c \<longrightarrow> (\<exists>c'. heap' i = Some c' \<and>
      conn_out c' = conn_out c @ concat (map frame (replies_to i [(0, lit ''a''), (0, lit ''b'')]))))"
proof (rule wakeup_delivers_replies [OF linux_epoll.epoll_reliable_axioms])
  show "heap_open [0 \<mapsto> sample_conn]
      (sample_loop\<lparr>el_taskqueue := map reply_task [(0, lit ''a''), (0, lit ''b'')]\<rparr>)"
    using sample_conn_open by (auto simp: heap_open_def conn_open_def split: if_splits)
qed simp_all

text \<open>
  The wake-up handler always ends, whatever is queued and whatever state the connections
  are in; where it returns, the queue is empty and the mutex is free.
\<close>

theorem wakeup_terminates:
  "\<exists>r. EventLoop_handlewakeup evread (loop_exec ctl) (l, heap) = Some r \<and>
    (case r of Inl e \<Rightarrow> True | Inr (l', heap') \<Rightarrow> el_taskqueue l' = [] \<and> \<not> el_locked l')"
proof (cases "el_locked l")
  case True
  then show ?thesis by (simp add: EventLoop_handlewakeup_def Let_def)
next
  case False
  then show ?thesis
    by (cases "exec_all (loop_exec ctl) (el_taskqueue l)
        (l\<lparr>el_wakecount := evread (el_wakecount l), el_locked := True\<rparr>, heap)")
      (auto simp: loop_tasks.handlewakeup_runs)
qed

text \<open>
  C36. A request with a NUL byte before its last byte leads to a read outside of allocated
  memory: the worker copies the reply up to the NUL but passes on its full size, and when the
  loop runs the queued task, \<^verbatim>\<open>std::string::append\<close> reads past the end of the copy.
\<close>

theorem reply_with_nul_reads_out_of_bounds:
  assumes "\<not> nul_free (butlast m)" and "\<not> cn_disconnect c" and "el_threadid l \<noteq> Some worktid"
    and "b_sep (cn_outputbuffer c) = 1" and "el_taskqueue l = []" and "\<not> el_locked l"
  shows "\<exists>l'. worker_exec ctl evwrite worktid (request_task (cn_id c) m) (c, l, w) = Inr (c, l', w) \<and>
    EventLoop_handlewakeup evread (loop_exec ctl) (l', [cn_id c \<mapsto> c]) = Some (Inl (Undefined Out_of_bounds_read))"
proof -
  let ?r = "echo_reply m"
  have "m \<noteq> []" using assms(1) by (auto simp: nul_free_def)
  then have "\<not> nul_free (butlast ?r)"
    using assms(1) by (simp add: nul_free_def echo_reply_def butlast_append)
  from strdup_nul [OF this, of False] obtain copy
    where copy: "strdup (Ptr (str_data ?r) False) = Inr (Ptr copy True)" "length copy < length ?r" "copy \<noteq> []"
    by blast
  let ?l = "EventLoop_queueinloop evwrite (Task_sendinloop (cn_id c) copy (length ?r)) l"
  have "worker_exec ctl evwrite worktid (request_task (cn_id c) m) (c, l, w) = Inr (c, ?l, w)"
    using assms(2,3) copy(1)
    by (simp add: request_task_def EchoServer_OnMessage_def Connection_send_def EventLoop_isinloopthread_def
        echo_reply_def Let_def)
  moreover have "EventLoop_handlewakeup evread (loop_exec ctl) (?l, [cn_id c \<mapsto> c]) =
      Some (Inl (Undefined Out_of_bounds_read))"
    using assms(5,6) sendinloop_short_copy [OF copy(2,3) assms(4), where w = "()"]
    by (simp add: loop_tasks.handlewakeup_runs)
  ultimately show ?thesis by blast
qed

lemma reply_with_nul_reads_out_of_bounds_witness:
  "\<exists>l'. worker_exec interest_ctl id 200 (request_task (cn_id sample_conn) [65, 0, 66])
      (sample_conn, sample_loop, sample_world) = Inr (sample_conn, l', sample_world) \<and>
    EventLoop_handlewakeup id (loop_exec interest_ctl) (l', [cn_id sample_conn \<mapsto> sample_conn]) =
      Some (Inl (Undefined Out_of_bounds_read))"
  by (rule reply_with_nul_reads_out_of_bounds) (simp_all add: nul_free_def)

text \<open>
  Without worker threads the server cannot answer at all: the first complete request is
  handled in the thread of the loop, \<^verbatim>\<open>send\<close> calls \<^verbatim>\<open>sendinloop\<close> with the data of the string
  itself, and \<^verbatim>\<open>sendinloop\<close> frees it.
\<close>

theorem no_workers_invalid_free:
  assumes "epoll_reliable ctl" and "ts_onmessagecb (fst w) = Some Cb_HandleMessage"
    and "ThreadPool_size (es_threadpool (snd w)) = 0" and "el_threadid l = Some tid"
    and "conn_open c l" and "conn_ready c" and "\<not> cn_disconnect c" and "list_all reads_on rs"
    and "stream_of frame frame_ok (b_buf (cn_inputbuffer c) @ reads_bytes rs) (m # ms) p"
  shows "Connection_onmessage ctl (echo_server_call ctl evwrite tid) clock stale (rs @ Read_eagain # rest) (c, l, w) =
    Some (Inl (Undefined Invalid_free))"
proof -
  let ?c = "receive (reads_bytes rs) c"
  have ready: "cn_owned ?c" "cn_onmessagecallback ?c = Some Cb_onmessage" "b_sep (cn_inputbuffer ?c) = 1"
    using assms(6) by (simp_all add: conn_ready_def)
  obtain t where pick: "pickmessage stale [] (cn_inputbuffer ?c) = Inr (True, m, (cn_inputbuffer ?c)\<lparr>b_buf := t\<rparr>)"
    using pick_stream [OF ready(3), of "m # ms" p stale "[]"] assms(9) by auto
  let ?c' = "received c [m] t (clock w)" and ?r = "lit ''reply:'' @ lit ''IO thread '' @ m"
  have "conn_open ?c' l" using assms(5) by simp
  from epoll_reliable.sendinloop_string [OF assms(1) this, of ?r "[]" w]
  have "Connection_send ctl evwrite tid (Ptr (str_data ?r) False) (length ?r) (?c', l, w) =
      Inl (Undefined Invalid_free)"
    using assms(4,7) by (simp add: Connection_send_def EventLoop_isinloopthread_def str_data_def)
  then have "echo_server_call ctl evwrite tid Cb_onmessage m (?c', l, w) = Inl (Undefined Invalid_free)"
    using assms(2,3)
    by (cases w) (simp add: TcpServer_onmessage_def server_of_def call_handler_def
        EchoServer_HandleMessage_def EchoServer_OnMessage_def Let_def)
  moreover have "?c\<lparr>cn_inputbuffer := (cn_inputbuffer ?c)\<lparr>b_buf := t\<rparr>, cn_lasttime := clock w\<rparr> = ?c'"
    by (simp add: received_def receive_def)
  ultimately show ?thesis
    using assms(8) pick ready by (simp add: onmessage_reads message_loop.simps call_server_def Let_def)
qed

lemma no_workers_invalid_free_witness:
  "Connection_onmessage interest_ctl (echo_server_call interest_ctl id 100) clock (\<lambda>_. 0)
     ([Read_data (frame (lit ''hi''))] @ Read_eagain # [])
     (sample_conn, sample_loop, sample_tcpserver, \<lparr>es_threadpool = ThreadPool_new 0, es_clock = 0\<rparr>) =
    Some (Inl (Undefined Invalid_free))"
  by (rule no_workers_invalid_free [OF linux_epoll.epoll_reliable_axioms, where m = "lit ''hi''" and ms = "[]" and p = "[]"])
    (use sample_world_ready sample_conn_open sample_conn_ready in
      \<open>simp_all add: echo_ready_def sample_world_def reads_on_def stream_of_def frame_ok_def
         ThreadPool_size_def ThreadPool_new_def\<close>)

section \<open>The life of a connection\<close>

text \<open>
  C15. Accepting a connection: the descriptor chooses a loop that exists, the new connection is
  registered there for reading, owned, with all its callbacks and empty buffers, and it is
  entered under its descriptor into the map of the server and into the map of its loop. Nothing else changes: of the
  chosen loop only the interest list and the map, of the server only the registry and the new object.
\<close>

theorem newconnection_registers:
  assumes "epoll_reliable ctl" and "server_loops_ok S" and "0 \<le> so_fd sock"
    and "ts_newconnectioncb (sv_tcpserver S) = Some Cb_HandleNewConnection"
    and "i = nat (so_fd sock) mod length (sv_subloops S)" and "l = sv_subloops S ! i"
    and "ep_interest (el_ep l) (so_fd sock) = None"
    and "om_ok (ts_conns (sv_tcpserver S))" and "om_ok (el_conns l)"
  shows "\<exists>S' l' ts' c. TcpServer_newconnection ctl now (echo_call ctl evwrite tid) sock S = Inr S' \<and>
    S' = S\<lparr>sv_subloops := (sv_subloops S)[i := l'], sv_tcpserver := ts',
      sv_heap := (sv_heap S)(sv_next S \<mapsto> c), sv_next := Suc (sv_next S)\<rparr> \<and>
    l' = l\<lparr>el_ep := (el_ep l)\<lparr>ep_interest := (ep_interest (el_ep l))(so_fd sock \<mapsto> (EPOLLIN, Client_channel (sv_next S)))\<rparr>,
      el_conns := el_conns l'\<rparr> \<and>
    ts' = (sv_tcpserver S)\<lparr>ts_conns := ts_conns ts'\<rparr> \<and>
    map_of (ts_conns ts') = (map_of (ts_conns (sv_tcpserver S)))(so_fd sock \<mapsto> sv_next S) \<and>
    map_of (el_conns l') = (map_of (el_conns l))(so_fd sock \<mapsto> sv_next S) \<and>
    om_ok (ts_conns ts') \<and> om_ok (el_conns l') \<and>
    cn_clientsock c = sock \<and> callbacks_set c \<and> conn_ready c \<and> conn_open c l' \<and>
    b_buf (cn_inputbuffer c) = [] \<and> conn_out c = []"
proof -
  let ?ep = "(el_ep l)\<lparr>ep_interest := (ep_interest (el_ep l))(so_fd sock \<mapsto> (EPOLLIN, Client_channel (sv_next S)))\<rparr>"
  have index: "subloop_index (so_fd sock) S = Inr i" "i < length (sv_subloops S)"
    using subloop_index_in_range [OF assms(2,3)] assms(5) by simp_all
  obtain c where new: "Connection_new ctl (sv_next S) now (Suc i) sock (sv_subloops S ! i) = Inr (c, l\<lparr>el_ep := ?ep\<rparr>)"
    and c: "conn_open (set_callbacks (c\<lparr>cn_owned := True\<rparr>)) (l\<lparr>el_ep := ?ep\<rparr>)" "conn_ready (set_callbacks (c\<lparr>cn_owned := True\<rparr>))"
      "callbacks_set (set_callbacks (c\<lparr>cn_owned := True\<rparr>))" "cn_clientsock c = sock"
      "b_buf (cn_inputbuffer c) = []" "conn_out c = []"
    using epoll_reliable.Connection_new_open [OF assms(1,7)] unfolding assms(6) by blast
  let ?c = "set_callbacks (c\<lparr>cn_owned := True\<rparr>)"
    and ?l = "l\<lparr>el_ep := ?ep, el_conns := om_assign (so_fd sock) (sv_next S) (el_conns l)\<rparr>"
    and ?ts = "(sv_tcpserver S)\<lparr>ts_conns := om_assign (so_fd sock) (sv_next S) (ts_conns (sv_tcpserver S))\<rparr>"
  have sock: "cn_clientsock ?c = sock" "cn_inputbuffer ?c = cn_inputbuffer c" "conn_out ?c = conn_out c"
    using c(4) by (simp_all add: set_callbacks_def connection_setter_defs conn_out_def)
  have "TcpServer_newconnection ctl now (echo_call ctl evwrite tid) sock S =
      Inr (S\<lparr>sv_subloops := (sv_subloops S)[i := ?l], sv_tcpserver := ?ts,
        sv_heap := (sv_heap S)(sv_next S \<mapsto> ?c), sv_next := Suc (sv_next S)\<rparr>)"
    using index(1) new sock(1) assms(4)
    by (simp add: TcpServer_newconnection_def Let_def Connection_fd_def call_handler_def EventLoop_newconnection_def)
  then show ?thesis
    using c sock assms(8,9) conn_open_ep [of ?l "l\<lparr>el_ep := ?ep\<rparr>"]
    by (intro exI [of _ ?l] exI [of _ ?ts] exI [of _ ?c] exI)
      (auto simp: conn_map.lookup_assign conn_map.ok_assign)
qed

lemma newconnection_registers_witness:
  "\<exists>S' l' ts' c. TcpServer_newconnection interest_ctl 1000 (echo_call interest_ctl id 100) (Socket_new 0 8) sample_server = Inr S' \<and>
    S' = sample_server\<lparr>sv_subloops := [l'], sv_tcpserver := ts',
      sv_heap := (sv_heap sample_server)(sv_next sample_server \<mapsto> c), sv_next := Suc (sv_next sample_server)\<rparr> \<and>
    el_taskqueue l' = el_taskqueue sample_loop \<and> callbacks_set c \<and> conn_ready c \<and> conn_open c l'"
proof -
  have loops: "sv_subloops sample_server = [sample_loop]" and fd: "so_fd (Socket_new 0 8) = 8"
    by (simp_all add: sample_server_def Socket_new_def)
  have "\<exists>S' l' ts' c. TcpServer_newconnection interest_ctl 1000 (echo_call interest_ctl id 100) (Socket_new 0 8) sample_server = Inr S' \<and>
      S' = sample_server\<lparr>sv_subloops := (sv_subloops sample_server)[0 := l'], sv_tcpserver := ts',
        sv_heap := (sv_heap sample_server)(sv_next sample_server \<mapsto> c), sv_next := Suc (sv_next sample_server)\<rparr> \<and>
      l' = sample_loop\<lparr>el_ep := (el_ep sample_loop)\<lparr>ep_interest := (ep_interest (el_ep sample_loop))
          (so_fd (Socket_new 0 8) \<mapsto> (EPOLLIN, Client_channel (sv_next sample_server)))\<rparr>, el_conns := el_conns l'\<rparr> \<and>
      ts' = (sv_tcpserver sample_server)\<lparr>ts_conns := ts_conns ts'\<rparr> \<and>
      map_of (ts_conns ts') = (map_of (ts_conns (sv_tcpserver sample_server)))(so_fd (Socket_new 0 8) \<mapsto> sv_next sample_server) \<and>
      map_of (el_conns l') = (map_of (el_conns sample_loop))(so_fd (Socket_new 0 8) \<mapsto> sv_next sample_server) \<and>
      om_ok (ts_conns ts') \<and> om_ok (el_conns l') \<and>
      cn_clientsock c = Socket_new 0 8 \<and> callbacks_set c \<and> conn_ready c \<and> conn_open c l' \<and>
      b_buf (cn_inputbuffer c) = [] \<and> conn_out c = []"
    by (rule newconnection_registers [OF linux_epoll.epoll_reliable_axioms sample_server_loops])
      (simp_all add: sample_server_def sample_loop_def sample_epoll_def sample_tcpserver_simps Socket_new_def om_ok_def)
  then obtain S' l' ts' c where new: "TcpServer_newconnection interest_ctl 1000 (echo_call interest_ctl id 100) (Socket_new 0 8) sample_server = Inr S'"
    "S' = sample_server\<lparr>sv_subloops := (sv_subloops sample_server)[0 := l'], sv_tcpserver := ts',
        sv_heap := (sv_heap sample_server)(sv_next sample_server \<mapsto> c), sv_next := Suc (sv_next sample_server)\<rparr>"
    "callbacks_set c" "conn_ready c" "conn_open c l'" and l': "l' = sample_loop\<lparr>el_ep := (el_ep sample_loop)\<lparr>ep_interest := (ep_interest (el_ep sample_loop))
          (so_fd (Socket_new 0 8) \<mapsto> (EPOLLIN, Client_channel (sv_next sample_server)))\<rparr>, el_conns := el_conns l'\<rparr>"
    by blast
  from arg_cong [OF l', of el_taskqueue] have "el_taskqueue l' = el_taskqueue sample_loop" by simp
  with new show ?thesis by (auto simp: loops)
qed

text \<open>
  A failed \<^verbatim>\<open>accept\<close> is not noticed: with two event loops or more, the descriptor -1 makes
  \<^verbatim>\<open>TcpServer::newconnection\<close> index the vector of the loops with -1.
\<close>

theorem failed_accept_index_out_of_range:
  assumes "server_loops_ok S" and "2 \<le> length (sv_subloops S)"
    and "ac_newconnectioncb a = Some Cb_newconnection"
  shows "Acceptor_newconnection inet_ntoa garbage blank (- 1, addr) (TcpServer_newconnection ctl now app) a S =
    Inl (Undefined Index_out_of_range)"
  using subloop_index_negative [OF assms(1,2)] assms(3)
  by (simp add: Acceptor_newconnection_def Socket_accept_def TcpServer_newconnection_def Socket_new_def
      Socket_setipport_def)

lemma failed_accept_index_out_of_range_witness:
  "Acceptor_newconnection (\<lambda>_. []) 0 \<lparr>sin_family = 2, sin_port = 0, sin_addr = 0\<rparr>
     (- 1, \<lparr>sin_family = 2, sin_port = 0, sin_addr = 0\<rparr>)
     (TcpServer_newconnection interest_ctl 0 (echo_call interest_ctl id 100)) sample_acceptor
     (sample_server\<lparr>sv_subloops := [sample_loop, sample_loop], sv_tcpserver := sample_tcpserver\<lparr>ts_threadnum := 2\<rparr>\<rparr>) =
    Inl (Undefined Index_out_of_range)"
  by (rule failed_accept_index_out_of_range) (simp_all add: server_loops_ok_def sample_acceptor_def)

text \<open>
  Closing a connection: it leaves epoll and is marked as closed before the server forgets
  it; the server's map loses the entry of its descriptor, the map of its event loop keeps it.
\<close>

theorem close_unregisters_from_server_only:
  assumes "epoll_reliable ctl" and "ts_closeconnectioncb (fst w) = Some Cb_HandleClose"
    and "conn_open c l" and "cn_owned c" and "cn_closecallback c = Some Cb_closeconnection"
    and "om_ok (ts_conns (fst w))"
  shows "\<exists>c' l' w'. Connection_closecallback ctl (echo_server_call ctl evwrite tid) (c, l, w) = Inr (c', l', w') \<and>
    conn_closed c' l' \<and> snd w' = snd w \<and> el_conns l' = el_conns l \<and>
    map_of (ts_conns (fst w')) = (map_of (ts_conns (fst w)))(Connection_fd c := None)"
proof -
  obtain c' l' where "Connection_closecallback ctl (echo_server_call ctl evwrite tid) (c, l, w) =
      bind_res (echo_server_call ctl evwrite tid Cb_closeconnection [] (c', l', w)) (\<lambda>(_, s). Inr s)"
    and "conn_closed c' l'" "cn_clientsock c' = cn_clientsock c" "el_conns l' = el_conns l"
    using epoll_reliable.closecallback_open [OF assms(1,3,4,5), of "echo_server_call ctl evwrite tid" w]
    by blast
  then show ?thesis
    using assms(2,6)
    by (cases w) (simp add: TcpServer_closeconnection_def server_of_def call_handler_def erase_conn_def
        Connection_fd_def conn_map.lookup_erase)
qed

lemma close_unregisters_from_server_only_witness:
  "\<exists>c' l' w'. Connection_closecallback interest_ctl (echo_server_call interest_ctl id 100)
      (sample_conn, sample_loop, sample_world) = Inr (c', l', w') \<and>
    conn_closed c' l' \<and> snd w' = snd sample_world \<and> el_conns l' = el_conns sample_loop \<and>
    map_of (ts_conns (fst w')) = (map_of (ts_conns (fst sample_world)))(Connection_fd sample_conn := None)"
  by (rule close_unregisters_from_server_only [OF linux_epoll.epoll_reliable_axioms])
    (simp_all add: sample_closecb sample_conn_open sample_world_def sample_tcpserver_simps om_ok_def)

text \<open>
  C32. A reply that is still queued when the connection is closed ends the whole server: the
  wake-up handler runs it on the closed connection, and the change of the watched events
  exits the process.
\<close>

theorem reply_after_close_exits:
  assumes "epoll_reliable ctl" and "ts_closeconnectioncb (fst w) = Some Cb_HandleClose"
    and "conn_open c l" and "cn_owned c" and "cn_closecallback c = Some Cb_closeconnection"
    and "\<not> el_locked l" and "el_taskqueue l = reply_task (i, m) # q"
  shows "\<exists>c' l' w'. Connection_closecallback ctl (echo_server_call ctl evwrite tid) (c, l, w) = Inr (c', l', w') \<and>
    EventLoop_handlewakeup evread (loop_exec ctl) (l', heap(i \<mapsto> c')) = Some (Inl Exit_failure)"
proof -
  obtain c' l' where close: "Connection_closecallback ctl (echo_server_call ctl evwrite tid) (c, l, w) =
      bind_res (echo_server_call ctl evwrite tid Cb_closeconnection [] (c', l', w)) (\<lambda>(_, s). Inr s)"
    and closed: "conn_closed c' l'" "cn_outputbuffer c' = cn_outputbuffer c"
      "el_taskqueue l' = el_taskqueue l" "el_locked l' = el_locked l"
    using epoll_reliable.closecallback_open [OF assms(1,3,4,5), of "echo_server_call ctl evwrite tid" w]
    by blast
  have kernel: "epoll_kernel ctl" using assms(1) by (rule epoll_reliable.axioms)
  have "EventLoop_handlewakeup evread (loop_exec ctl) (l', heap(i \<mapsto> c')) = Some (Inl Exit_failure)"
    using closed assms(3,6,7)
    by (intro epoll_kernel.handlewakeup_closed [OF kernel, where c = c' and i = i and m = m and q = q])
      (simp_all add: conn_open_def)
  with close assms(2) show ?thesis
    by (cases w) (simp add: TcpServer_closeconnection_def server_of_def call_handler_def)
qed

lemma reply_after_close_exits_witness:
  "\<exists>c' l' w'. Connection_closecallback interest_ctl (echo_server_call interest_ctl id 100)
      (sample_conn, sample_loop\<lparr>el_taskqueue := [reply_task (0, lit ''late'')]\<rparr>, sample_world) = Inr (c', l', w') \<and>
    EventLoop_handlewakeup id (loop_exec interest_ctl) (l', Map.empty(0 \<mapsto> c')) = Some (Inl Exit_failure)"
proof -
  have "conn_open sample_conn (sample_loop\<lparr>el_taskqueue := [reply_task (0, lit ''late'')]\<rparr>)"
    using sample_conn_open conn_open_ep [of "sample_loop\<lparr>el_taskqueue := [reply_task (0, lit ''late'')]\<rparr>" sample_loop]
    by simp
  then show ?thesis
    by (intro reply_after_close_exits [OF linux_epoll.epoll_reliable_axioms]) (simp_all add: sample_closecb)
qed

section \<open>Idle connections\<close>

text \<open>
  C18. What the timer of an event loop does to its connections and to the server's registry,
  for any number of idle ones: if the run of idle connections at the end of the map is of odd
  length, the iterator passes the end of the map, which is undefined; otherwise the erased
  entries leave the loop's map, the timer is armed again, and the server erases the passed
  descriptors, the ones that follow the erased entries, instead of the erased ones.
\<close>

theorem handletimer_outcome:
  assumes "\<not> el_mainloop l" and "el_timercallback l = Some Cb_removeconn"
    and "\<forall>e\<in>set (el_conns l). heap (snd e) \<noteq> None" and "om_ok (el_conns l)" and "om_ok (ts_conns (fst w))"
  shows "case EventLoop_handletimer heap TcpServer_removeconn now l w of
      Inl f \<Rightarrow> f = Undefined Iterator_past_end \<and> odd (trailing (expired heap now (el_timeout l)) (el_conns l))
    | Inr (l', w') \<Rightarrow> even (trailing (expired heap now (el_timeout l)) (el_conns l)) \<and>
        el_timerset l' = el_timetvl l \<and>
        el_conns l' = filter (\<lambda>e. e \<notin> set (erased (expired heap now (el_timeout l)) (el_conns l))) (el_conns l) \<and>
        map_of (ts_conns (fst w')) =
          map_of (ts_conns (fst w)) |` (- set (map fst (passed (expired heap now (el_timeout l)) (el_conns l))))"
  using handletimer_registry [OF assms(1-4), of now w] assms(5)
  by (simp add: Let_def erase_conns_lookup)

lemma handletimer_outcome_witness:
  "case EventLoop_handletimer [0 \<mapsto> sample_conn, 1 \<mapsto> sample_conn\<lparr>cn_lasttime := 995\<rparr>] TcpServer_removeconn 1000
      (sample_loop\<lparr>el_conns := [(7, 0), (8, 1)]\<rparr>) sample_world of
      Inl f \<Rightarrow> False
    | Inr (l', w') \<Rightarrow> el_conns l' = [(8, 1)]"
proof -
  let ?heap = "[0 \<mapsto> sample_conn, 1 \<mapsto> sample_conn\<lparr>cn_lasttime := 995\<rparr>]"
    and ?l = "sample_loop\<lparr>el_conns := [(7, 0), (8, 1)]\<rparr>"
  have "expired ?heap 1000 10 (7, 0)" and "\<not> expired ?heap 1000 10 (8, 1)"
    by (simp_all add: expired_def Connection_timeout_def sample_conn_def)
  then show ?thesis
    using handletimer_outcome [of ?l ?heap sample_world 1000]
    by (auto simp: sample_loop_def om_ok_def sample_world_def sample_tcpserver_simps trailing_def split: sum.splits)
qed

text \<open>
  Only idle connections leave the map of an event loop when its timer rings, and where none
  is idle the timer is armed again and nothing else happens.
\<close>

theorem handletimer_keeps_active:
  assumes "\<not> el_mainloop l" and "el_timercallback l = Some Cb_removeconn"
    and "\<forall>e\<in>set (el_conns l). heap (snd e) \<noteq> None" and "om_ok (el_conns l)"
  shows "(EventLoop_handletimer heap TcpServer_removeconn now l w = Inr (l', w') \<longrightarrow>
      (\<forall>e\<in>set (el_conns l). \<not> expired heap now (el_timeout l) e \<longrightarrow> e \<in> set (el_conns l'))) \<and>
    ((\<forall>e\<in>set (el_conns l). \<not> expired heap now (el_timeout l) e) \<longrightarrow>
      EventLoop_handletimer heap TcpServer_removeconn now l w = Inr (l\<lparr>el_timerset := el_timetvl l\<rparr>, w))"
proof (intro conjI impI)
  assume run: "EventLoop_handletimer heap TcpServer_removeconn now l w = Inr (l', w')"
  then have "el_conns l' = filter (\<lambda>e. e \<notin> set (erased (expired heap now (el_timeout l)) (el_conns l))) (el_conns l)"
    using handletimer_registry [OF assms, of now w] by (auto simp: Let_def split: if_splits)
  then show "\<forall>e\<in>set (el_conns l). \<not> expired heap now (el_timeout l) e \<longrightarrow> e \<in> set (el_conns l')"
    using not_expired_kept by metis
next
  assume none: "\<forall>e\<in>set (el_conns l). \<not> expired heap now (el_timeout l) e"
  have "trailing P es = 0 \<and> erased P es = [] \<and> passed P es = []" if "\<forall>e\<in>set es. \<not> P e"
    for P :: "int \<times> nat \<Rightarrow> bool" and es
    using that by (induction es) (auto simp: trailing_Cons, auto simp: trailing_def)
  from this [OF none] show "EventLoop_handletimer heap TcpServer_removeconn now l w =
      Inr (l\<lparr>el_timerset := el_timetvl l\<rparr>, w)"
    using handletimer_registry [OF assms, of now w] by (simp add: Let_def)
qed

lemma handletimer_keeps_active_witness:
  "EventLoop_handletimer [0 \<mapsto> sample_conn\<lparr>cn_lasttime := 995\<rparr>] TcpServer_removeconn 1000 sample_loop sample_world =
     Inr (sample_loop\<lparr>el_timerset := 5\<rparr>, sample_world)"
proof -
  have "\<not> expired [0 \<mapsto> sample_conn\<lparr>cn_lasttime := 995\<rparr>] 1000 10 (7, 0)"
    by (simp add: expired_def Connection_timeout_def)
  then show ?thesis
    using handletimer_keeps_active [of sample_loop "[0 \<mapsto> sample_conn\<lparr>cn_lasttime := 995\<rparr>]" 1000 sample_world]
    by (simp add: sample_loop_def om_ok_def)
qed

text \<open>
  The timer removes the wrong connection from the server: of an idle connection and the
  active one behind it, the loop drops the idle one and the server forgets the active one and
  keeps the idle one.
\<close>

theorem handletimer_forgets_the_neighbour:
  assumes "\<not> el_mainloop l" and "el_timercallback l = Some Cb_removeconn"
    and "el_conns l = [(fd, i), (fd', j)]" and "fd < fd'"
    and "heap i = Some c" and "Connection_timeout now (el_timeout l) c"
    and "heap j = Some d" and "\<not> Connection_timeout now (el_timeout l) d"
    and "ts_conns (fst w) = [(fd, i), (fd', j)]"
  shows "\<exists>l' w'. EventLoop_handletimer heap TcpServer_removeconn now l w = Inr (l', w') \<and>
    el_conns l' = [(fd', j)] \<and> ts_conns (fst w') = [(fd, i)]"
proof -
  have "expired heap now (el_timeout l) (fd, i)" and "\<not> expired heap now (el_timeout l) (fd', j)"
    using assms(5-8) by (simp_all add: expired_def)
  then show ?thesis
    using handletimer_registry [of l heap now w] assms
    by (auto simp: Let_def trailing_def om_ok_def erase_conn_def)
qed

lemma handletimer_forgets_the_neighbour_witness:
  "\<exists>l' w'. EventLoop_handletimer [0 \<mapsto> sample_conn, 1 \<mapsto> sample_conn\<lparr>cn_lasttime := 995\<rparr>] TcpServer_removeconn 1000
      (sample_loop\<lparr>el_conns := [(7, 0), (8, 1)]\<rparr>)
      (sample_tcpserver\<lparr>ts_conns := [(7, 0), (8, 1)]\<rparr>, snd sample_world) = Inr (l', w') \<and>
    el_conns l' = [(8, 1)] \<and> ts_conns (fst w') = [(7, 0)]"
  by (rule handletimer_forgets_the_neighbour [where c = sample_conn and d = "sample_conn\<lparr>cn_lasttime := 995\<rparr>"])
    (simp_all add: sample_loop_def Connection_timeout_def sample_conn_def)

text \<open>
  One idle connection is enough: where the last connection of a loop is idle and the one
  before it is not, or there is no other, the timer dereferences the end of the map.
\<close>

theorem handletimer_last_idle_undefined:
  assumes "\<not> el_mainloop l" and "el_timercallback l = Some Cb_removeconn"
    and "\<forall>e\<in>set (el_conns l). heap (snd e) \<noteq> None" and "om_ok (el_conns l)"
    and "el_conns l = es @ [(fd, i)]" and "expired heap now (el_timeout l) (fd, i)"
    and "es = [] \<or> \<not> expired heap now (el_timeout l) (last es)"
  shows "EventLoop_handletimer heap TcpServer_removeconn now l w = Inl (Undefined Iterator_past_end)"
proof -
  have "trailing (expired heap now (el_timeout l)) (el_conns l) = 1"
    using assms(5-7) by (cases es rule: rev_cases) (auto simp: trailing_def)
  then show ?thesis
    using handletimer_registry [OF assms(1-4), of now w] by (simp add: Let_def)
qed

lemma handletimer_last_idle_undefined_witness:
  "EventLoop_handletimer [0 \<mapsto> sample_conn] TcpServer_removeconn 1000 sample_loop sample_world =
     Inl (Undefined Iterator_past_end)"
  by (rule handletimer_last_idle_undefined [where es = "[]" and fd = 7 and i = 0])
    (simp_all add: sample_loop_def om_ok_def expired_def Connection_timeout_def sample_conn_def)

section \<open>Start\<close>

text \<open>
  C33. The constructor of the server: as many event loops as threads, each with its own epoll
  instance in which its eventfd and its timer are registered for reading with the handlers
  for them, armed with 10 seconds; one task per loop for the threads of the pool, in the order
  of the loops; the main loop with 60 seconds and the listening socket; and no connections.
\<close>

theorem server_starts:
  assumes "epoll_reliable ctl" and "list_all fds_ok fdss" and "fds_ok (e, w, t)"
    and "0 \<le> sockfd" and "sockfd \<noteq> w" and "sockfd \<noteq> t" and "fdss \<noteq> []"
  shows "\<exists>S reqs. TcpServer_new ctl inet_addr inet_ntoa garbage (sockfd, 0, 0) (e, w, t) fdss ip port x = Inr (S, reqs) \<and>
    server_loops_ok S \<and> ts_conns (sv_tcpserver S) = [] \<and> sv_heap S = Map.empty \<and>
    list_all2 (\<lambda>fds l. \<exists>i. loop_started (Suc i) False 5 10 fds l \<and> el_timercallback l = Some Cb_removeconn) fdss (sv_subloops S) \<and>
    map el_id (sv_subloops S) = map Suc [0..<length fdss] \<and>
    p_queue (sv_threadpool S) = map EventLoop_run_task [0..<length fdss] \<and>
    ThreadPool_size (sv_threadpool S) = length fdss \<and>
    el_timerset (sv_mainloop S) = 60 \<and>
    ep_interest (el_ep (sv_mainloop S)) sockfd = Some (EPOLLIN, Accept_channel) \<and>
    ac_newconnectioncb (sv_acceptor S) = Some Cb_newconnection"
proof -
  obtain m where main: "EventLoop_new ctl 0 (e, w, t) True 30 60 = Inr m"
    and m: "loop_started 0 True 30 60 (e, w, t) m"
    using epoll_reliable.EventLoop_new_started [OF assms(1,3)] by blast
  let ?ch = "Channel_setreadcallback Cb_acceptor_newconnection (Channel_new Accept_channel (Some 0) sockfd)"
  have ch: "chan_synced ?ch (el_ep m)" "ch_events ?ch = 0"
    using m assms(5,6) by (simp_all add: loop_started_def chan_synced_def Channel_new_def Channel_setreadcallback_def)
  obtain a reqs where acceptor: "Acceptor_new ctl inet_addr inet_ntoa garbage (sockfd, 0, 0) (Some 0) ip port (el_ep m) =
      Inr (a, reqs, epoll_registered EPOLLIN ?ch (el_ep m))"
    using assms(4) epoll_reliable.enable_disable_synced(1) [OF assms(1) ch(1)] ch(2)
    by (simp add: Acceptor_new_def createnonblocking_def Socket_bind_def Socket_listen_def Socket_new_def
        Socket_setipport_def Let_def)
  obtain ls p where loops: "TcpServer_subloops ctl 0 fdss [] (ThreadPool_new (length fdss)) = Inr (ls, p)"
    "list_all2 (\<lambda>fds l. \<exists>i. loop_started (Suc i) False 5 10 fds l \<and> el_timercallback l = Some Cb_removeconn) fdss ls"
    "map el_id ls = map Suc [0..<length fdss]" "p_queue p = map EventLoop_run_task [0..<length fdss]"
    "ThreadPool_size p = length fdss"
    using epoll_reliable.TcpServer_subloops_started [OF assms(1,2), of 0 "[]" "ThreadPool_new (length fdss)"]
    by (auto simp: ThreadPool_new_def ThreadPool_size_def)
  have "length ls = length fdss" using loops(2) by (simp add: list_all2_lengthD)
  with main acceptor loops m assms(7) show ?thesis
    by (simp add: TcpServer_new_def Let_def server_loops_ok_def loop_started_def
        EventLoop_setepolltimeoutcallback_def Acceptor_setnewconnectioncb_def Channel_new_def
        Channel_setreadcallback_def) auto
qed

lemma server_starts_witness:
  "\<exists>S reqs. TcpServer_new interest_ctl (\<lambda>_. 0) (\<lambda>_. lit ''0.0.0.0'') 0 (6, 0, 0) (3, 4, 5) sample_fds
      (lit ''0.0.0.0'') 5085 (snd sample_world) = Inr (S, reqs) \<and>
    server_loops_ok S \<and> ts_conns (sv_tcpserver S) = [] \<and> sv_heap S = Map.empty \<and>
    list_all2 (\<lambda>fds l. \<exists>i. loop_started (Suc i) False 5 10 fds l \<and> el_timercallback l = Some Cb_removeconn)
      sample_fds (sv_subloops S) \<and>
    map el_id (sv_subloops S) = map Suc [0..<length sample_fds] \<and>
    p_queue (sv_threadpool S) = map EventLoop_run_task [0..<length sample_fds] \<and>
    ThreadPool_size (sv_threadpool S) = length sample_fds \<and>
    el_timerset (sv_mainloop S) = 60 \<and>
    ep_interest (el_ep (sv_mainloop S)) 6 = Some (EPOLLIN, Accept_channel) \<and>
    ac_newconnectioncb (sv_acceptor S) = Some Cb_newconnection"
  by (rule server_starts [OF linux_epoll.epoll_reliable_axioms]) (simp_all add: fds_ok_def sample_fds_def)

end
